(* ===== verification/Prelude.thy ===== *)
theory Prelude
  imports Complex_Main "HOL-Library.Word" "HOL-Library.AList" "HOL-Library.Sublist"
    "HOL-Library.Signed_Division"
begin

text \<open>
  The prelude of the development: the Go notions every component uses.

  \<^item> \<^bold>\<open>Machine integers\<close>. Go's \<open>int\<close> and \<open>int64\<close> are 64-bit words, \<open>int32\<close> a 32-bit word;
    \<open>+\<close> and \<open>-\<close> wrap around and \<open>sint\<close> reads the signed value.
  \<^item> \<^bold>\<open>Run-time faults\<close>. A Go statement that panics (an integer division by zero, an index out of
    range, a nil dereference, a negative slice length, a failed type assertion) ends in a value of type \<open>fault\<close>; the
    result of a function that may panic is \<open>fault + 'a\<close>.
  \<^item> \<^bold>\<open>Errors\<close>. A Go \<open>error\<close> is a value of \<open>go_error\<close>: a sentinel, a message, or a message wrapped
    around another error by \<open>%w\<close>; \<open>errors_is\<close> is \<open>errors.Is\<close>.
  \<^item> \<^bold>\<open>Maps\<close>. A Go map that the code ranges over is an association list with distinct keys; its
    order is the order of one iteration, which Go leaves open. Other maps are \<open>'k \<rightharpoonup> 'v\<close>.
  \<^item> \<^bold>\<open>Strings\<close>. A Go string is a list of bytes, HOL's \<open>string\<close>. The functions of \<open>strings\<close>,
    \<open>strconv\<close> and \<open>fmt\<close> that the program calls are defined here.
\<close>

named_theorems map_simps "lookups after updates of association lists"
named_theorems time_simps "arithmetic of the time package"

section \<open>Integers, faults and errors\<close>

type_synonym go_int = "64 word"
type_synonym int32 = "32 word"

datatype fault =
    DivideByZero
  | IndexOutOfRange
  | NilDereference
  | MakeSliceLen
  | SliceBounds
  | TypeAssertion
  | NonFinite

datatype go_error =
    Canceled
  | DeadlineExceeded
  | ErrServerClosed
  | ErrRange
  | NotFound string
  | AlreadyExists string
  | ErrMsg string
  | WrapErr string go_error

type_synonym 'a result = "go_error + 'a"

text \<open>\<open>errors.Is\<close> follows the chain of wrapped errors.\<close>

fun errors_is :: "go_error \<Rightarrow> go_error \<Rightarrow> bool" where
  "errors_is (WrapErr m e) target = (WrapErr m e = target \<or> errors_is e target)"
| "errors_is e target = (e = target)"

text \<open>The text of an error, \<open>err.Error()\<close>.\<close>

fun error_text :: "go_error \<Rightarrow> string" where
  "error_text Canceled = ''context canceled''"
| "error_text DeadlineExceeded = ''context deadline exceeded''"
| "error_text ErrServerClosed = ''http: Server closed''"
| "error_text ErrRange = ''value out of range''"
| "error_text (NotFound m) = m"
| "error_text (AlreadyExists m) = m"
| "error_text (ErrMsg m) = m"
| "error_text (WrapErr m e) = m @ error_text e"

text \<open>\<open>IsNotFound\<close> and \<open>IsAlreadyExists\<close> of the Kubernetes errors, which look through wrapped errors.\<close>

fun IsNotFound :: "go_error \<Rightarrow> bool" where
  "IsNotFound (NotFound m) = True"
| "IsNotFound (WrapErr m e) = IsNotFound e"
| "IsNotFound e = False"

fun IsAlreadyExists :: "go_error \<Rightarrow> bool" where
  "IsAlreadyExists (AlreadyExists m) = True"
| "IsAlreadyExists (WrapErr m e) = IsAlreadyExists e"
| "IsAlreadyExists e = False"

text \<open>Go's integer division truncates towards zero, and so does its remainder.\<close>

definition go_div :: "int \<Rightarrow> int \<Rightarrow> fault + int" where
  "go_div a b = (if b = 0 then Inl DivideByZero else Inr (a sdiv b))"

definition go_mod :: "int \<Rightarrow> int \<Rightarrow> fault + int" where
  "go_mod a b = (if b = 0 then Inl DivideByZero else Inr (a smod b))"

lemma sdiv_nonneg: "0 \<le> a \<Longrightarrow> 0 < b \<Longrightarrow> (a::int) sdiv b = a div b"
  by (cases "a = 0") (simp_all add: signed_divide_int_def sgn_if)

lemma smod_nonneg: "0 \<le> a \<Longrightarrow> 0 < b \<Longrightarrow> (a::int) smod b = a mod b"
  by (cases "a = 0") (simp_all add: signed_modulo_int_def sgn_if)

lemma go_div_nonneg [simp]: "0 \<le> a \<Longrightarrow> 0 < b \<Longrightarrow> go_div a b = Inr (a div b)"
  by (simp add: go_div_def sdiv_nonneg)

lemma go_mod_nonneg [simp]: "0 \<le> a \<Longrightarrow> 0 < b \<Longrightarrow> go_mod a b = Inr (a mod b)"
  by (simp add: go_mod_def smod_nonneg)

section \<open>Slices\<close>

text \<open>Reading and writing a slice element; an index outside \<open>0 .. len - 1\<close> panics.\<close>

definition slice_get :: "'a list \<Rightarrow> int \<Rightarrow> fault + 'a" where
  "slice_get xs i = (if 0 \<le> i \<and> i < int (length xs) then Inr (xs ! nat i) else Inl IndexOutOfRange)"

definition slice_set :: "'a list \<Rightarrow> int \<Rightarrow> 'a \<Rightarrow> fault + 'a list" where
  "slice_set xs i v = (if 0 \<le> i \<and> i < int (length xs) then Inr (xs[nat i := v]) else Inl IndexOutOfRange)"

lemma slice_get_in [simp]: "0 \<le> i \<Longrightarrow> i < int (length xs) \<Longrightarrow> slice_get xs i = Inr (xs ! nat i)"
  by (simp add: slice_get_def)

lemma slice_set_in [simp]: "0 \<le> i \<Longrightarrow> i < int (length xs) \<Longrightarrow> slice_set xs i v = Inr (xs[nat i := v])"
  by (simp add: slice_set_def)

lemma find_Some_mem: "find P xs = Some x \<Longrightarrow> x \<in> set xs"
  by (auto simp: find_Some_iff)

section \<open>Maps\<close>

type_synonym ('k, 'v) gomap = "('k \<times> 'v) list"

lemma map_of_update_key [map_simps, simp]: "map_of (AList.update k v m) = (map_of m)(k \<mapsto> v)"
  by (simp add: update_conv')

lemma map_of_delete_key [map_simps, simp]: "map_of (AList.delete k m) = (map_of m)(k := None)"
  by (simp add: delete_conv')

lemma distinct_keys_update [map_simps, simp]:
  "distinct (map fst m) \<Longrightarrow> distinct (map fst (AList.update k v m))"
  by (rule distinct_update)

lemma distinct_keys_delete [map_simps, simp]:
  "distinct (map fst m) \<Longrightarrow> distinct (map fst (AList.delete k m))"
  by (rule distinct_delete)

lemma map_of_Some_mem: "map_of m k = Some v \<Longrightarrow> (k, v) \<in> set m"
  by (rule map_of_SomeD)

section \<open>Strings\<close>

text \<open>\<open>strings.LastIndex\<close> for a one-byte separator, and the part of the string before it.\<close>

definition cut_last :: "char \<Rightarrow> string \<Rightarrow> string" where
  "cut_last c s = (if c \<in> set s then rev (tl (dropWhile (\<lambda>x. x \<noteq> c) (rev s))) else s)"

text \<open>\<open>strings.Trim\<close> for a one-byte cutset.\<close>

definition trim :: "char \<Rightarrow> string \<Rightarrow> string" where
  "trim c s = rev (dropWhile (\<lambda>x. x = c) (rev (dropWhile (\<lambda>x. x = c) s)))"

text \<open>\<open>strings.ToLower\<close> on ASCII letters.\<close>

definition lower_char :: "char \<Rightarrow> char" where
  "lower_char c = (let n = of_char c :: nat in if 65 \<le> n \<and> n \<le> 90 then char_of (n + 32) else c)"

definition to_lower :: "string \<Rightarrow> string" where
  "to_lower s = map lower_char s"

text \<open>\<open>strconv.FormatBool\<close> and the decimal conversions of \<open>strconv\<close> and \<open>fmt\<close>'s \<open>%d\<close>.\<close>

definition format_bool :: "bool \<Rightarrow> string" where
  "format_bool b = (if b then ''true'' else ''false'')"

definition digit_char :: "nat \<Rightarrow> char" where
  "digit_char n = char_of (48 + n)"

fun show_nat :: "nat \<Rightarrow> string" where
  "show_nat n = (if n < 10 then [digit_char n] else show_nat (n div 10) @ [digit_char (n mod 10)])"

declare show_nat.simps [simp del]

lemma digit_char_values:
  "digit_char 0 = CHR ''0''" "digit_char 1 = CHR ''1''" "digit_char 2 = CHR ''2''" "digit_char 3 = CHR ''3''"
  "digit_char 4 = CHR ''4''" "digit_char 5 = CHR ''5''" "digit_char 6 = CHR ''6''" "digit_char 7 = CHR ''7''"
  "digit_char 8 = CHR ''8''" "digit_char 9 = CHR ''9''"
  by (code_simp)+

definition itoa :: "int \<Rightarrow> string" where
  "itoa i = (if i < 0 then CHR ''-'' # show_nat (nat (- i)) else show_nat (nat i))"

text \<open>The value of a decimal digit.\<close>

definition digit_val :: "char \<Rightarrow> nat option" where
  "digit_val c = (let n = of_char c :: nat in if 48 \<le> n \<and> n \<le> 57 then Some (n - 48) else None)"

lemma digit_val_char: "d < 10 \<Longrightarrow> digit_val (digit_char d) = Some d"
  by (simp add: digit_val_def digit_char_def)

lemma show_nat_not_empty: "show_nat n \<noteq> []"
  by (subst show_nat.simps) simp

lemma show_nat_digits: "c \<in> set (show_nat n) \<Longrightarrow> digit_val c \<noteq> None"
proof (induction n rule: show_nat.induct)
  case (1 n)
  show ?case
  proof (cases "n < 10")
    case True
    with "1.prems" show ?thesis by (subst (asm) show_nat.simps) (simp add: digit_val_char)
  next
    case False
    with 1 show ?thesis by (subst (asm) (2) show_nat.simps) (auto simp: digit_val_char)
  qed
qed

lemma cut_last_no_sep [simp]: "c \<notin> set s \<Longrightarrow> cut_last c s = s"
  by (simp add: cut_last_def)

lemma cut_last_append:
  assumes "c \<notin> set t"
  shows "cut_last c (s @ c # t) = s"
proof -
  have "dropWhile (\<lambda>x. x \<noteq> c) (rev (s @ c # t)) = c # rev s"
    using assms by (auto simp: dropWhile_append)
  then show ?thesis by (simp add: cut_last_def)
qed

lemma dropWhile_hd_id: "s = [] \<or> hd s \<noteq> c \<Longrightarrow> dropWhile (\<lambda>x. x = c) s = s"
  by (cases s) auto

lemma trim_id: "s = [] \<or> (hd s \<noteq> c \<and> last s \<noteq> c) \<Longrightarrow> trim c s = s"
  using dropWhile_hd_id [of s c] dropWhile_hd_id [of "rev s" c] by (auto simp: trim_def hd_rev)

lemma hd_trim: "trim c s \<noteq> [] \<Longrightarrow> hd (trim c s) \<noteq> c"
proof -
  assume ne: "trim c s \<noteq> []"
  let ?u = "dropWhile (\<lambda>x. x = c) s"
  have u: "?u \<noteq> []" using ne unfolding trim_def by force
  obtain w where w: "?u = trim c s @ w" by (metis trim_def rev_append rev_rev_ident takeWhile_dropWhile_id)
  have "hd ?u \<noteq> c" using u by (rule hd_dropWhile)
  with w ne show ?thesis by simp
qed

lemma last_trim: "trim c s \<noteq> [] \<Longrightarrow> last (trim c s) \<noteq> c"
  using hd_dropWhile [of "\<lambda>x. x = c" "rev (dropWhile (\<lambda>x. x = c) s)"]
  by (auto simp: trim_def last_rev)

end
