(* ===== verification/Go_Float64.thy ===== *)
theory Go_Float64
  imports Prelude "HOL-Library.Log_Nat"
begin

text \<open>
  Go's \<open>float64\<close>. A finite float64 is the rational number it denotes, and every operation rounds
  its exact result to 53 significant bits, ties to even, as IEEE 754 prescribes; \<open>f64_round\<close> is
  that rounding. The exponent is not bounded: the program's floats are request rates, whose
  non-zero magnitudes stay between \<open>2 powi (- 80)\<close> and \<open>2 powi 80\<close>, far inside the range of
  normal numbers. A division by zero leaves the finite numbers, which the model reports as the
  fault \<open>NonFinite\<close>.

  The lemmas bound the rounding error, show that rounding is monotone and that it is exact on
  integers up to \<open>2 ^ 53\<close>.
\<close>

section \<open>Rounding to 53 bits\<close>

type_synonym f64 = rat

text \<open>Round to the nearest integer, ties to even.\<close>

definition rne :: "rat \<Rightarrow> int" where
  "rne x = (let f = \<lfloor>x\<rfloor>; d = x - of_int f in
     if d < 1/2 then f else if 1/2 < d then f + 1 else if even f then f else f + 1)"

text \<open>The binary exponent of a number: \<open>2 powi e \<le> \<bar>x\<bar> < 2 powi (e + 1)\<close>.\<close>

definition f64_exp :: "rat \<Rightarrow> int" where
  "f64_exp x = (let (a, b) = quotient_of \<bar>x\<bar>; e = bitlen a - bitlen b in
     if 2 powi e \<le> \<bar>x\<bar> then e else e - 1)"

definition f64_round :: "rat \<Rightarrow> rat" where
  "f64_round x = (if x = 0 then 0
     else let q = 2 powi (f64_exp x - 52) in of_int (rne (x / q)) * q)"

section \<open>Operations\<close>

definition f64_of_int :: "int \<Rightarrow> f64" where
  "f64_of_int n = f64_round (of_int n)"

definition f64_add :: "f64 \<Rightarrow> f64 \<Rightarrow> f64" where
  "f64_add x y = f64_round (x + y)"

definition f64_mul :: "f64 \<Rightarrow> f64 \<Rightarrow> f64" where
  "f64_mul x y = f64_round (x * y)"

definition f64_div :: "f64 \<Rightarrow> f64 \<Rightarrow> fault + f64" where
  "f64_div x y = (if y = 0 then Inl NonFinite else Inr (f64_round (x / y)))"

definition math_floor :: "f64 \<Rightarrow> f64" where
  "math_floor x = of_int \<lfloor>x\<rfloor>"

definition math_ceil :: "f64 \<Rightarrow> f64" where
  "math_ceil x = of_int \<lceil>x\<rceil>"

definition math_pow10 :: "nat \<Rightarrow> f64" where
  "math_pow10 n = f64_round (10 ^ n)"

text \<open>The conversion \<open>int(f)\<close> drops the fraction.\<close>

definition f64_to_int :: "f64 \<Rightarrow> int" where
  "f64_to_int x = (if 0 \<le> x then \<lfloor>x\<rfloor> else \<lceil>x\<rceil>)"

section \<open>Lemmas\<close>

lemma rne_of_int [simp]: "rne (of_int n) = n"
  by (simp add: rne_def)

lemma rne_error: "\<bar>of_int (rne x) - x\<bar> \<le> 1/2"
proof -
  have "of_int \<lfloor>x\<rfloor> \<le> x" "x < of_int \<lfloor>x\<rfloor> + 1" by linarith+
  then show ?thesis by (auto simp: rne_def Let_def)
qed

lemma rne_mono:
  assumes "x \<le> y"
  shows "rne x \<le> rne y"
proof (cases "\<lfloor>x\<rfloor> = \<lfloor>y\<rfloor>")
  case True
  with assms show ?thesis by (simp add: rne_def Let_def)
next
  case False
  with assms have "\<lfloor>x\<rfloor> + 1 \<le> \<lfloor>y\<rfloor>" using floor_mono [of x y] by simp
  moreover have "rne x \<le> \<lfloor>x\<rfloor> + 1" "\<lfloor>y\<rfloor> \<le> rne y" by (simp_all add: rne_def Let_def)
  ultimately show ?thesis by simp
qed

lemma bitlen_powi:
  assumes "0 < n"
  shows "2 powi (bitlen n - 1) \<le> (of_int n :: rat)" "(of_int n :: rat) < 2 powi bitlen n"
proof -
  have pos: "0 < bitlen n" using assms bitlen_le_iff_power [of n 0] by simp
  have "2 ^ nat (bitlen n - 1) \<le> n" "n < 2 ^ nat (bitlen n)" using bitlen_bounds [OF assms] by auto
  then have "(of_int (2 ^ nat (bitlen n - 1)) :: rat) \<le> of_int n"
    "(of_int n :: rat) < of_int (2 ^ nat (bitlen n))" by (simp_all only: of_int_le_iff of_int_less_iff)
  with pos show "2 powi (bitlen n - 1) \<le> (of_int n :: rat)" "(of_int n :: rat) < 2 powi bitlen n"
    by (simp_all add: power_int_def)
qed

lemma f64_exp_bounds:
  assumes "x \<noteq> 0"
  shows "2 powi f64_exp x \<le> \<bar>x\<bar>" "\<bar>x\<bar> < 2 powi (f64_exp x + 1)"
proof -
  obtain a b where q: "quotient_of \<bar>x\<bar> = (a, b)" by force
  let ?e = "bitlen a - bitlen b"
  have b: "0 < b" using q by (rule quotient_of_denom_pos)
  have x: "\<bar>x\<bar> = of_int a / of_int b" using q by (rule quotient_of_div)
  have a: "0 < a" using x b assms by (metis abs_le_zero_iff divide_nonpos_pos linorder_not_less of_int_0_less_iff of_int_le_0_iff)
  have "\<bar>x\<bar> < 2 powi bitlen a / 2 powi (bitlen b - 1)"
    unfolding x by (rule frac_less) (use bitlen_powi [OF a] bitlen_powi [OF b] a in auto)
  then have up: "\<bar>x\<bar> < 2 powi (?e + 1)" by (simp add: power_int_diff power_int_add)
  have "2 powi (bitlen a - 1) / 2 powi bitlen b < \<bar>x\<bar>"
    unfolding x by (rule frac_less2) (use bitlen_powi [OF a] bitlen_powi [OF b] b in auto)
  then have lo: "2 powi (?e - 1) \<le> \<bar>x\<bar>" by (simp add: power_int_diff)
  show "2 powi f64_exp x \<le> \<bar>x\<bar>" "\<bar>x\<bar> < 2 powi (f64_exp x + 1)"
    using up lo by (simp_all add: f64_exp_def q Let_def)
qed

lemma f64_round_error: "\<bar>f64_round x - x\<bar> \<le> \<bar>x\<bar> / 2 ^ 53"
proof (cases "x = 0")
  case False
  let ?q = "2 powi (f64_exp x - 52) :: rat"
  have q: "0 < ?q" by simp
  have "\<bar>of_int (rne (x / ?q)) - x / ?q\<bar> \<le> 1/2" by (rule rne_error)
  then have "\<bar>of_int (rne (x / ?q)) - x / ?q\<bar> * ?q \<le> 1/2 * ?q" using q by (simp only: mult_right_mono)
  moreover have "f64_round x - x = (of_int (rne (x / ?q)) - x / ?q) * ?q"
    using False q by (simp add: f64_round_def Let_def left_diff_distrib)
  ultimately have "\<bar>f64_round x - x\<bar> \<le> 1/2 * ?q" using q by (simp add: abs_mult)
  also have "1/2 * ?q = 2 powi f64_exp x / 2 ^ 53" by (simp add: power_int_diff)
  also have "\<dots> \<le> \<bar>x\<bar> / 2 ^ 53" using f64_exp_bounds(1) [OF False] by simp
  finally show ?thesis .
qed (simp add: f64_round_def)

lemma f64_round_0 [simp]: "f64_round 0 = 0"
  by (simp add: f64_round_def)

lemma f64_round_nonneg: "0 \<le> x \<Longrightarrow> 0 \<le> f64_round x"
  using rne_mono [of 0 "x / 2 powi (f64_exp x - 52)"]
  by (auto simp: f64_round_def Let_def rne_def)

lemma powi_scale: "2 powi e / 2 powi (e - 52) = (of_int (2 ^ 52) :: rat)"
  "2 powi (e + 1) / 2 powi (e - 52) = (of_int (2 ^ 53) :: rat)"
  by (simp_all add: power_int_diff power_int_add)

lemma f64_round_sandwich:
  assumes "0 < x"
  shows "2 powi f64_exp x \<le> f64_round x" "f64_round x \<le> 2 powi (f64_exp x + 1)"
proof -
  let ?e = "f64_exp x"
  let ?q = "2 powi (?e - 52) :: rat"
  have b: "2 powi ?e \<le> x" "x \<le> 2 powi (?e + 1)" using f64_exp_bounds [of x] assms by simp_all
  have "2 powi ?e / ?q \<le> x / ?q" "x / ?q \<le> 2 powi (?e + 1) / ?q"
    using b by (simp_all add: divide_right_mono)
  then have "rne (of_int (2 ^ 52)) \<le> rne (x / ?q)" "rne (x / ?q) \<le> rne (of_int (2 ^ 53))"
    unfolding powi_scale by (simp_all only: rne_mono)
  then have r: "(of_int (2 ^ 52) :: rat) \<le> of_int (rne (x / ?q))"
    "of_int (rne (x / ?q)) \<le> (of_int (2 ^ 53) :: rat)" by (simp_all only: rne_of_int of_int_le_iff)
  have "of_int (2 ^ 52) * ?q \<le> of_int (rne (x / ?q)) * ?q"
    "of_int (rne (x / ?q)) * ?q \<le> of_int (2 ^ 53) * ?q"
    using r by (simp_all only: mult_right_mono zero_le_power_int zero_le_numeral)
  moreover have "of_int (2 ^ 52) * ?q = 2 powi ?e" "of_int (2 ^ 53) * ?q = 2 powi (?e + 1)"
    unfolding powi_scale [of ?e, symmetric] by simp_all
  moreover have "f64_round x = of_int (rne (x / ?q)) * ?q" using assms by (simp add: f64_round_def Let_def)
  ultimately show "2 powi ?e \<le> f64_round x" "f64_round x \<le> 2 powi (?e + 1)" by argo+
qed

lemma f64_exp_mono:
  assumes "0 < x" "x \<le> y"
  shows "f64_exp x \<le> f64_exp y"
proof (rule ccontr)
  assume "\<not> f64_exp x \<le> f64_exp y"
  then have "(2 powi (f64_exp y + 1) :: rat) \<le> 2 powi f64_exp x" by (intro power_int_increasing) auto
  moreover have "y < 2 powi (f64_exp y + 1)" "2 powi f64_exp x \<le> x"
    using f64_exp_bounds [of x] f64_exp_bounds [of y] assms by simp_all
  ultimately show False using assms by simp
qed

lemma f64_round_mono:
  assumes "0 \<le> x" "x \<le> y"
  shows "f64_round x \<le> f64_round y"
proof (cases "x = 0")
  case True
  with assms show ?thesis by (simp add: f64_round_nonneg)
next
  case False
  with assms have x: "0 < x" and y: "0 < y" by auto
  show ?thesis
  proof (cases "f64_exp x = f64_exp y")
    case True
    have "rne (x / 2 powi (f64_exp y - 52)) \<le> rne (y / 2 powi (f64_exp y - 52))"
      using assms by (intro rne_mono divide_right_mono) auto
    with True x y show ?thesis by (simp add: f64_round_def Let_def)
  next
    case False
    with f64_exp_mono [OF x assms(2)] have "f64_exp x + 1 \<le> f64_exp y" by simp
    then have "(2 powi (f64_exp x + 1) :: rat) \<le> 2 powi f64_exp y" by (intro power_int_increasing) auto
    with f64_round_sandwich [OF x] f64_round_sandwich [OF y] show ?thesis by simp
  qed
qed

lemma f64_round_of_int:
  assumes "\<bar>n\<bar> \<le> 2 ^ 53"
  shows "f64_round (of_int n) = of_int n"
proof (cases "n = 0")
  case False
  let ?x = "of_int n :: rat"
  let ?e = "f64_exp ?x"
  have "2 powi ?e \<le> \<bar>?x\<bar>" using False by (intro f64_exp_bounds) simp
  also have "\<bar>?x\<bar> \<le> 2 powi 53"
    using assms by simp
  finally have e: "?e \<le> 53" by (rule power_int_le_imp_le_exp [rotated]) auto
  have "\<exists>m. ?x / 2 powi (?e - 52) = of_int m"
  proof (cases "?e = 53")
    case True
    with f64_exp_bounds(1) [of ?x] False have "2 powi 53 \<le> \<bar>?x\<bar>" by simp
    then have "2 ^ 53 \<le> \<bar>n\<bar>" by simp
    with assms have "n = 2 * (sgn n * 2 ^ 52)" using abs_mult_sgn [of n] by simp
    then have "?x = 2 * of_int (sgn n * 2 ^ 52)" by (metis of_int_mult of_int_numeral)
    then have "?x / 2 powi (?e - 52) = of_int (sgn n * 2 ^ 52)" using True by simp
    then show ?thesis by blast
  next
    case False
    with e have "?x / 2 powi (?e - 52) = of_int (n * 2 ^ nat (52 - ?e))"
      by (simp add: power_int_def field_simps)
    then show ?thesis by blast
  qed
  then obtain m where m: "?x / 2 powi (?e - 52) = of_int m" by blast
  then have "?x = of_int m * 2 powi (?e - 52)" by (simp add: field_simps)
  with m False show ?thesis by (simp add: f64_round_def Let_def)
qed simp

lemma f64_of_int_exact [simp]: "\<bar>n\<bar> \<le> 2 ^ 53 \<Longrightarrow> f64_of_int n = of_int n"
  by (simp add: f64_of_int_def f64_round_of_int)

lemma f64_round_bounds:
  assumes "0 \<le> x"
  shows "x * (1 - 1 / 2 ^ 53) \<le> f64_round x" "f64_round x \<le> x * (1 + 1 / 2 ^ 53)"
proof -
  have "\<bar>f64_round x - x\<bar> \<le> x / 2 ^ 53" using f64_round_error [of x] assms by simp
  then have "- (x / 2 ^ 53) \<le> f64_round x - x" "f64_round x - x \<le> x / 2 ^ 53" by linarith+
  then show "x * (1 - 1 / 2 ^ 53) \<le> f64_round x" "f64_round x \<le> x * (1 + 1 / 2 ^ 53)"
    by (simp_all add: algebra_simps)
qed

text \<open>The ceiling of a rounded quotient of integers below \<open>2 ^ 53\<close> is the exact ceiling.\<close>

lemma ceiling_f64_quotient:
  assumes "0 \<le> a" "a < 2 ^ 53" "0 < b"
  shows "\<lceil>f64_round (of_int a / of_int b)\<rceil> = \<lceil>of_int a / of_int b :: rat\<rceil>"
proof -
  let ?x = "of_int a / of_int b :: rat"
  let ?m = "\<lceil>?x\<rceil>"
  have x0: "0 \<le> ?x" using assms by simp
  have xa: "?x \<le> of_int a" using assms by (simp add: divide_le_eq mult_le_cancel_left1)
  have m0: "0 \<le> ?m" using x0 by linarith
  have ma: "?m \<le> a" using xa by (simp add: ceiling_le_iff)
  have "f64_round ?x \<le> f64_round (of_int ?m)" using x0 by (intro f64_round_mono) (simp_all add: le_of_int_ceiling)
  also have "\<dots> = of_int ?m" using m0 ma assms by (intro f64_round_of_int) linarith
  finally have up: "f64_round ?x \<le> of_int ?m" .
  have "of_int (?m - 1) < ?x" by linarith
  then have "(of_int (?m - 1) :: rat) * of_int b < of_int a" using assms by (simp add: less_divide_eq)
  then have "(?m - 1) * b < a" by (simp only: of_int_mult [symmetric] of_int_less_iff)
  then have "(?m - 1) * b + 1 \<le> a" by simp
  then have "(of_int ((?m - 1) * b + 1) :: rat) \<le> of_int a" by (simp only: of_int_le_iff)
  then have "(of_int ((?m - 1) * b + 1) :: rat) / of_int b \<le> ?x"
    using assms by (intro divide_right_mono) simp_all
  then have step: "of_int (?m - 1) + 1 / of_int b \<le> ?x"
    using assms by (simp add: add_divide_distrib)
  have "?x * (1 / 2 ^ 53) < 1 / of_int b"
  proof -
    have "(of_int a :: rat) < of_int (2 ^ 53)" using assms by (simp only: of_int_less_iff)
    then show ?thesis using assms by (simp add: field_simps)
  qed
  with f64_round_bounds(1) [OF x0] step have lo: "of_int (?m - 1) < f64_round ?x"
    by (simp add: algebra_simps)
  from up lo show ?thesis by (intro ceiling_unique) simp_all
qed

end
