(* ===== verification/Go_Time.thy ===== *)
theory Go_Time
  imports Go_Float64
begin

text \<open>
  The parts of Go's \<open>time\<close> package the program computes with. An instant is the number of
  nanoseconds since the zero time (1 January of year 1, UTC), a duration is a number of
  nanoseconds. \<open>Sub\<close> saturates at the largest and smallest \<open>Duration\<close>, \<open>Truncate\<close> rounds down to
  a multiple of the duration since the zero time and \<open>Unix\<close> counts seconds since 1970.
\<close>

type_synonym instant = int
type_synonym duration = int

definition nanosecond_per_second :: int where
  "nanosecond_per_second = 1000000000"

abbreviation second :: duration where
  "second \<equiv> nanosecond_per_second"

definition millisecond :: duration where
  "millisecond = 1000000"

definition minute :: duration where
  "minute = 60 * second"

definition max_duration :: duration where
  "max_duration = 2 ^ 63 - 1"

definition min_duration :: duration where
  "min_duration = - (2 ^ 63)"

text \<open>Seconds from the zero time to 1 January 1970.\<close>

definition unix_offset :: int where
  "unix_offset = 62135596800"

text \<open>Arithmetic on durations is that of \<open>int64\<close> and wraps around.\<close>

definition wrap64 :: "int \<Rightarrow> int" where
  "wrap64 x = sint (word_of_int x :: go_int)"

definition time_Truncate :: "instant \<Rightarrow> duration \<Rightarrow> instant" where
  "time_Truncate t d = (if d \<le> 0 then t else t - t mod d)"

definition time_Sub :: "instant \<Rightarrow> instant \<Rightarrow> duration" where
  "time_Sub t u = max min_duration (min max_duration (t - u))"

definition time_Add :: "instant \<Rightarrow> duration \<Rightarrow> instant" where
  "time_Add t d = t + d"

definition time_After :: "instant \<Rightarrow> instant \<Rightarrow> bool" where
  "time_After t u \<longleftrightarrow> u < t"

definition time_IsZero :: "instant \<Rightarrow> bool" where
  "time_IsZero t \<longleftrightarrow> t = 0"

definition time_Unix :: "instant \<Rightarrow> int" where
  "time_Unix t = t div second - unix_offset"

text \<open>\<open>Duration.Seconds\<close>: whole seconds plus the fraction, each in floating point.\<close>

definition duration_Seconds :: "duration \<Rightarrow> f64" where
  "duration_Seconds d =
     f64_add (f64_of_int (d sdiv second))
       (f64_round (f64_of_int (d smod second) / f64_of_int second))"

text \<open>\<open>Duration.Milliseconds\<close>.\<close>

definition duration_Milliseconds :: "duration \<Rightarrow> int" where
  "duration_Milliseconds d = d sdiv millisecond"

lemma wrap64_id: "- (2 ^ 63) \<le> x \<Longrightarrow> x < 2 ^ 63 \<Longrightarrow> wrap64 x = x"
  by (simp add: wrap64_def sint_sbintrunc' signed_take_bit_int_eq_self)

lemmas time_defs = time_Add_def time_After_def time_IsZero_def

lemma second_pos [simp]: "0 < second"
  by (simp add: nanosecond_per_second_def)

lemma second_nonzero [simp]: "second \<noteq> 0"
  by (simp add: nanosecond_per_second_def)

lemma time_Truncate_le: "0 < d \<Longrightarrow> time_Truncate t d \<le> t"
  by (simp add: time_Truncate_def)

lemma time_Truncate_dvd: "0 < d \<Longrightarrow> d dvd time_Truncate t d"
  by (simp add: time_Truncate_def minus_mod_eq_mult_div)

lemma time_Truncate_eq: "0 < d \<Longrightarrow> time_Truncate t d = d * (t div d)"
  by (simp add: time_Truncate_def minus_mod_eq_mult_div)

lemma time_Truncate_idem: "0 < d \<Longrightarrow> time_Truncate (time_Truncate t d) d = time_Truncate t d"
  by (simp add: time_Truncate_eq)

lemma time_Sub_exact:
  "min_duration \<le> t - u \<Longrightarrow> t - u \<le> max_duration \<Longrightarrow> time_Sub t u = t - u"
  by (simp add: time_Sub_def)

text \<open>Comparing a saturated difference with a representable duration is comparing the exact one.\<close>

lemma time_Sub_le_iff: "min_duration \<le> d \<Longrightarrow> d < max_duration \<Longrightarrow> time_Sub t u \<le> d \<longleftrightarrow> t - u \<le> d"
  by (auto simp: time_Sub_def min_duration_def max_duration_def)

lemma time_Sub_less_iff: "min_duration < d \<Longrightarrow> d \<le> max_duration \<Longrightarrow> time_Sub t u < d \<longleftrightarrow> t - u < d"
  by (auto simp: time_Sub_def min_duration_def max_duration_def)

lemma duration_Seconds_whole:
  assumes "0 \<le> k" "k \<le> 2 ^ 53"
  shows "duration_Seconds (k * second) = of_int k"
proof -
  have "0 \<le> k * second" using assms by (simp add: nanosecond_per_second_def)
  then have "k * second sdiv second = k" "k * second smod second = 0"
    by (simp_all add: sdiv_nonneg smod_nonneg nanosecond_per_second_def)
  with assms show ?thesis
    by (simp add: duration_Seconds_def f64_add_def f64_round_of_int)
qed

end
