(* ===== verification/HTTPSO_Types.thy ===== *)
theory HTTPSO_Types
  imports Go_Time
begin

text \<open>
  The API types of \<^verbatim>\<open>operator/apis/http/v1alpha1/httpscaledobject_types.go\<close> and
  \<^verbatim>\<open>condition_types.go\<close>, with the parts of the Kubernetes metadata the program reads. A pointer that
  may be nil is an option, a slice that the code compares with nil is an option of a list, a
  \<open>metav1.Duration\<close> is its \<open>Duration\<close>. The objects are values; \<open>Deep_Copy\<close> has their memory.
\<close>

record ScaleTargetRef =
  Name :: string
  APIVersion :: string
  Kind :: string
  Service :: string
  Port :: int32
  PortName :: string

record ColdStartTimeoutFailoverRef =
  FailoverService :: string
  FailoverPort :: int32
  FailoverPortName :: string
  TimeoutSeconds :: int32

text \<open>The interface \<open>Ref\<close> with its two implementations.\<close>

datatype Ref =
    TargetRef ScaleTargetRef
  | FailoverRef ColdStartTimeoutFailoverRef

fun GetServiceName :: "Ref \<Rightarrow> string" where
  "GetServiceName (TargetRef s) = Service s"
| "GetServiceName (FailoverRef s) = FailoverService s"

fun GetPort :: "Ref \<Rightarrow> int32" where
  "GetPort (TargetRef s) = Port s"
| "GetPort (FailoverRef s) = FailoverPort s"

fun GetPortName :: "Ref \<Rightarrow> string" where
  "GetPortName (TargetRef s) = PortName s"
| "GetPortName (FailoverRef s) = FailoverPortName s"

record ReplicaStruct =
  Min :: "int32 option"
  Max :: "int32 option"

record ConcurrencyMetricSpec =
  ConcurrencyTargetValue :: go_int

record RateMetricSpec =
  RateTargetValue :: go_int
  Window :: duration
  Granularity :: duration

record ScalingMetricSpec =
  ConcurrencyMetric :: "ConcurrencyMetricSpec option"
  Rate :: "RateMetricSpec option"

record HTTPScaledObjectTimeoutsSpec =
  ConditionWait :: duration
  ResponseHeader :: duration

record HTTPScaledObjectSpec =
  Hosts :: "string list option"
  PathPrefixes :: "string list option"
  ScaleTarget :: ScaleTargetRef
  ColdStartTimeoutFailover :: "ColdStartTimeoutFailoverRef option"
  Replicas :: "ReplicaStruct option"
  TargetPendingRequests :: "int32 option"
  CooldownPeriod :: "int32 option"
  InitialCooldownPeriod :: "int32 option"
  ScalingMetric :: "ScalingMetricSpec option"
  Timeouts :: "HTTPScaledObjectTimeoutsSpec option"

text \<open>\<^verbatim>\<open>condition_types.go\<close>: the typed strings as enumerations, with a constructor for the empty
  string, which the zero value of a condition has.\<close>

datatype HTTPScaledObjectCreationStatus =
    Ready
  | NoType

datatype HTTPScaledObjectConditionReason =
    ErrorCreatingAppScaledObject
  | AppScaledObjectCreated
  | TerminatingResources
  | AppScaledObjectTerminated
  | AppScaledObjectTerminationError
  | PendingCreation
  | HTTPScaledObjectIsReady
  | NoReason

datatype ConditionStatus =
    ConditionTrue
  | ConditionFalse
  | ConditionUnknown
  | NoStatus

record HTTPScaledObjectCondition =
  Timestamp :: string
  Type :: HTTPScaledObjectCreationStatus
  Status :: ConditionStatus
  Reason :: HTTPScaledObjectConditionReason
  Message :: string

definition noCondition :: HTTPScaledObjectCondition where
  "noCondition = \<lparr>Timestamp = [], Type = NoType, Status = NoStatus, Reason = NoReason, Message = []\<rparr>"

type_synonym Conditions = "HTTPScaledObjectCondition list option"

record HTTPScaledObjectStatus =
  TargetWorkload :: string
  TargetService :: string
  StatusConditions :: Conditions

text \<open>An \<open>HTTPScaledObject\<close> with the metadata the program reads: \<open>GetNamespace\<close>, \<open>GetName\<close>,
  \<open>GetCreationTimestamp\<close>, \<open>GetDeletionTimestamp\<close>, \<open>GetFinalizers\<close>, labels and annotations.\<close>

record HTTPScaledObject =
  GetNamespace :: string
  GetName :: string
  GetCreationTimestamp :: instant
  GetDeletionTimestamp :: "instant option"
  GetFinalizers :: "string list"
  Labels :: "(string, string) gomap"
  Annotations :: "(string, string) gomap"
  Spec :: HTTPScaledObjectSpec
  HStatus :: HTTPScaledObjectStatus

section \<open>Namespaced names\<close>

text \<open>\<^verbatim>\<open>pkg/k8s/namespacedname.go\<close>. The string of a \<open>types.NamespacedName\<close> is computed by the
  Kubernetes libraries; the definitions that need it take it as the argument \<open>str\<close>.\<close>

record NamespacedName =
  Namespace :: string
  NName :: string

definition NamespacedNameFromObject :: "HTTPScaledObject option \<Rightarrow> NamespacedName option" where
  "NamespacedNameFromObject obj = map_option (\<lambda>x. \<lparr>Namespace = GetNamespace x, NName = GetName x\<rparr>) obj"

abbreviation name_of :: "HTTPScaledObject \<Rightarrow> NamespacedName" where
  "name_of h \<equiv> \<lparr>Namespace = GetNamespace h, NName = GetName h\<rparr>"

definition NamespacedNameFromNameAndNamespace :: "string \<Rightarrow> string \<Rightarrow> NamespacedName option" where
  "NamespacedNameFromNameAndNamespace nm ns =
     (if nm = [] \<or> ns = [] then None else Some \<lparr>Namespace = ns, NName = nm\<rparr>)"

text \<open>Names that Kubernetes admits have no slash.\<close>

definition valid_name :: "NamespacedName \<Rightarrow> bool" where
  "valid_name nn \<longleftrightarrow> CHR ''/'' \<notin> set (Namespace nn) \<and> CHR ''/'' \<notin> set (NName nn)"

lemma NamespacedNameFromObject_simps [simp]:
  "NamespacedNameFromObject None = None"
  "NamespacedNameFromObject (Some h) = Some (name_of h)"
  by (simp_all add: NamespacedNameFromObject_def)

section \<open>Conditions\<close>

definition getCondition :: "HTTPScaledObjectCondition list \<Rightarrow> HTTPScaledObjectCreationStatus \<Rightarrow> HTTPScaledObjectCondition" where
  "getCondition c conditionType =
     (case find (\<lambda>x. Type x = conditionType) c of None \<Rightarrow> noCondition | Some x \<Rightarrow> x)"

definition GetInitializedConditions :: "HTTPScaledObjectCondition list" where
  "GetInitializedConditions = [noCondition\<lparr>Type := Ready, Status := ConditionUnknown\<rparr>]"

definition GetReadyCondition :: "Conditions \<Rightarrow> HTTPScaledObjectCondition" where
  "GetReadyCondition c = getCondition (case c of None \<Rightarrow> GetInitializedConditions | Some cs \<Rightarrow> cs) Ready"

definition IsTrue :: "HTTPScaledObjectCondition \<Rightarrow> bool" where
  "IsTrue c \<longleftrightarrow> Status c = ConditionTrue"

definition IsFalse :: "HTTPScaledObjectCondition \<Rightarrow> bool" where
  "IsFalse c \<longleftrightarrow> Status c = ConditionFalse"

text \<open>A plain object, for concrete inputs.\<close>

definition plain_target :: ScaleTargetRef where
  "plain_target = \<lparr>Name = ''app'', APIVersion = [], Kind = [], Service = ''svc'', Port = 80, PortName = []\<rparr>"

definition plain_spec :: HTTPScaledObjectSpec where
  "plain_spec = \<lparr>Hosts = None, PathPrefixes = None, ScaleTarget = plain_target, ColdStartTimeoutFailover = None,
     Replicas = None, TargetPendingRequests = None, CooldownPeriod = None, InitialCooldownPeriod = None,
     ScalingMetric = None, Timeouts = None\<rparr>"

definition plain_httpso :: "string \<Rightarrow> string \<Rightarrow> HTTPScaledObject" where
  "plain_httpso ns nm = \<lparr>GetNamespace = ns, GetName = nm, GetCreationTimestamp = 0, GetDeletionTimestamp = None,
     GetFinalizers = [], Labels = [], Annotations = [], Spec = plain_spec,
     HStatus = \<lparr>TargetWorkload = [], TargetService = [], StatusConditions = None\<rparr>\<rparr>"

end
