(* ===== verification/Go_HTTP.thy ===== *)
theory Go_HTTP
  imports HTTPSO_Types
begin

text \<open>
  The parts of Go's \<open>net/http\<close> and \<open>net/url\<close> the program uses, and the values the interceptor puts into
  the context of a request (\<^verbatim>\<open>pkg/util/context.go\<close>, \<^verbatim>\<open>pkg/util/contexthttp.go\<close>).

  A header is a map from canonical keys to lists of values; \<open>Get\<close>, \<open>Set\<close>, \<open>Add\<close> and \<open>Del\<close> make their
  key canonical first, which leaves a key with a byte that no header field name has unchanged.
\<close>

section \<open>Headers\<close>

type_synonym Header = "string \<rightharpoonup> string list"

definition upper_char :: "char \<Rightarrow> char" where
  "upper_char c = (let n = of_char c :: nat in if 97 \<le> n \<and> n \<le> 122 then char_of (n - 32) else c)"

text \<open>The bytes of a token: letters, digits and the punctuation of RFC 7230.\<close>

definition valid_header_char :: "char \<Rightarrow> bool" where
  "valid_header_char c \<longleftrightarrow>
     (let n = of_char c :: nat in
      (48 \<le> n \<and> n \<le> 57) \<or> (65 \<le> n \<and> n \<le> 90) \<or> (97 \<le> n \<and> n \<le> 122)) \<or>
     c \<in> set ''!#$%&*+-.^_`|~'' \<or> c = CHR 0x27"

fun canonical_from :: "bool \<Rightarrow> string \<Rightarrow> string" where
  "canonical_from up [] = []"
| "canonical_from up (c # s) =
     (let c' = (if up then upper_char c else lower_char c) in c' # canonical_from (c' = CHR ''-'') s)"

definition CanonicalHeaderKey :: "string \<Rightarrow> string" where
  "CanonicalHeaderKey s = (if list_all valid_header_char s then canonical_from True s else s)"

definition header_Get :: "Header \<Rightarrow> string \<Rightarrow> string" where
  "header_Get h k = (case h (CanonicalHeaderKey k) of Some (v # _) \<Rightarrow> v | _ \<Rightarrow> [])"

definition header_Set :: "Header \<Rightarrow> string \<Rightarrow> string \<Rightarrow> Header" where
  "header_Set h k v = h(CanonicalHeaderKey k \<mapsto> [v])"

definition header_Add :: "Header \<Rightarrow> string \<Rightarrow> string \<Rightarrow> Header" where
  "header_Add h k v = h(CanonicalHeaderKey k \<mapsto> (case h (CanonicalHeaderKey k) of None \<Rightarrow> [] | Some vs \<Rightarrow> vs) @ [v])"

definition header_Del :: "Header \<Rightarrow> string \<Rightarrow> Header" where
  "header_Del h k = h(CanonicalHeaderKey k := None)"

section \<open>URLs, requests and their context\<close>

record URL =
  Scheme :: string
  URLHost :: string
  Path :: string
  RawPath :: string
  RawQuery :: string

text \<open>The keys \<open>ckHTTPSO\<close>, \<open>ckStream\<close> and \<open>ckFailoverStream\<close> of a request's context; a missing value
  reads as nil.\<close>

record Context =
  ckHTTPSO :: "HTTPScaledObject option"
  ckStream :: "URL option"
  ckFailoverStream :: "URL option"

record Request =
  Method :: string
  ReqURL :: "URL option"
  Proto :: string
  ReqHost :: string
  ReqHeader :: Header
  RemoteAddr :: string
  Ctx :: Context

definition UserAgent :: "Request \<Rightarrow> string" where
  "UserAgent r = header_Get (ReqHeader r) ''User-Agent''"

definition ContextWithHTTPSO :: "Context \<Rightarrow> HTTPScaledObject option \<Rightarrow> Context" where
  "ContextWithHTTPSO ctx httpso = ctx\<lparr>ckHTTPSO := httpso\<rparr>"

definition HTTPSOFromContext :: "Context \<Rightarrow> HTTPScaledObject option" where
  "HTTPSOFromContext ctx = ckHTTPSO ctx"

definition ContextWithStream :: "Context \<Rightarrow> URL option \<Rightarrow> Context" where
  "ContextWithStream ctx url = ctx\<lparr>ckStream := url\<rparr>"

definition StreamFromContext :: "Context \<Rightarrow> URL option" where
  "StreamFromContext ctx = ckStream ctx"

definition ContextWithFailoverStream :: "Context \<Rightarrow> URL option \<Rightarrow> Context" where
  "ContextWithFailoverStream ctx url = ctx\<lparr>ckFailoverStream := url\<rparr>"

definition FailoverStreamFromContext :: "Context \<Rightarrow> URL option" where
  "FailoverStreamFromContext ctx = ckFailoverStream ctx"

definition RequestWithHTTPSO :: "Request \<Rightarrow> HTTPScaledObject option \<Rightarrow> Request" where
  "RequestWithHTTPSO r httpso = r\<lparr>Ctx := ContextWithHTTPSO (Ctx r) httpso\<rparr>"

definition RequestWithStream :: "Request \<Rightarrow> URL option \<Rightarrow> Request" where
  "RequestWithStream r stream = r\<lparr>Ctx := ContextWithStream (Ctx r) stream\<rparr>"

definition RequestWithFailoverStream :: "Request \<Rightarrow> URL option \<Rightarrow> Request" where
  "RequestWithFailoverStream r stream = r\<lparr>Ctx := ContextWithFailoverStream (Ctx r) stream\<rparr>"

lemmas context_defs =
  ContextWithHTTPSO_def HTTPSOFromContext_def ContextWithStream_def StreamFromContext_def
  ContextWithFailoverStream_def FailoverStreamFromContext_def RequestWithHTTPSO_def
  RequestWithStream_def RequestWithFailoverStream_def

end
