(* ===== verification/Route_Key.thy ===== *)
theory Route_Key
  imports Go_HTTP
begin

text \<open>
  \<^verbatim>\<open>pkg/routing/key.go\<close>: the byte strings that HTTPScaledObjects are registered under and that requests
  are looked up by. A nil key is the empty string. The lemmas show what it means that one key is a
  prefix of another, which is how the routing table matches requests.
\<close>

section \<open>The operations\<close>

type_synonym Key = string

definition NewKey :: "string \<Rightarrow> string \<Rightarrow> Key" where
  "NewKey host path =
     (let host = cut_last CHR '':'' host;
          path = trim CHR ''/'' path;
          path = (if path \<noteq> [] then path @ ''/'' else path)
      in ''//'' @ host @ ''/'' @ path)"

definition NewKeyFromURL :: "URL option \<Rightarrow> Key" where
  "NewKeyFromURL url = (case url of None \<Rightarrow> [] | Some u \<Rightarrow> NewKey (URLHost u) (Path u))"

definition NewKeyFromRequest :: "Request option \<Rightarrow> Key" where
  "NewKeyFromRequest req =
     (case req of
        None \<Rightarrow> []
      | Some r \<Rightarrow>
          (case ReqURL r of
             None \<Rightarrow> []
           | Some reqURL \<Rightarrow>
               NewKeyFromURL (Some (if ReqHost r \<noteq> [] then reqURL\<lparr>URLHost := ReqHost r\<rparr> else reqURL))))"

definition NewKeysFromHTTPSO :: "HTTPScaledObject option \<Rightarrow> Key list" where
  "NewKeysFromHTTPSO httpso =
     (case httpso of
        None \<Rightarrow> []
      | Some h \<Rightarrow>
          (let hosts = (case Hosts (Spec h) of None \<Rightarrow> [[]] | Some hs \<Rightarrow> hs);
               pathPrefixes = (case PathPrefixes (Spec h) of None \<Rightarrow> [[]] | Some ps \<Rightarrow> ps)
           in concat (map (\<lambda>host. map (\<lambda>pathPrefix. NewKey host pathPrefix) pathPrefixes) hosts)))"

section \<open>Prefixes of keys\<close>

text \<open>The host and the path segments that a key stands for.\<close>

definition key_host :: "string \<Rightarrow> string" where
  "key_host host = cut_last CHR '':'' host"

definition path_within :: "string \<Rightarrow> string \<Rightarrow> bool" where
  "path_within p q \<longleftrightarrow>
     (let p = trim CHR ''/'' p; q = trim CHR ''/'' q in p = [] \<or> q = p \<or> prefix (p @ ''/'') q)"

lemma prefix_separated:
  assumes "c \<notin> set a" "c \<notin> set b"
  shows "prefix (a @ c # x) (b @ c # y) \<longleftrightarrow> a = b \<and> prefix x y"
  using assms
proof (induction a arbitrary: b)
  case Nil
  then show ?case by (cases b) auto
next
  case (Cons d a)
  then show ?case by (cases b) auto
qed

lemma prefix_closed_paths:
  "prefix (if p \<noteq> [] then p @ [c] else p) (if q \<noteq> [] then q @ [c] else q) \<longleftrightarrow> p = [] \<or> q = p \<or> prefix (p @ [c]) q"
  by (cases "q = []") (auto simp: prefix_snoc)

lemma NewKey_prefix_iff:
  assumes "CHR ''/'' \<notin> set (key_host h)" "CHR ''/'' \<notin> set (key_host h')"
  shows "prefix (NewKey h p) (NewKey h' p') \<longleftrightarrow> key_host h = key_host h' \<and> path_within p p'"
  using prefix_separated [OF assms] prefix_closed_paths [of "trim CHR ''/'' p" "CHR ''/''" "trim CHR ''/'' p'"]
  by (simp add: NewKey_def path_within_def key_host_def Let_def)

lemma key_host_port: "CHR '':'' \<notin> set port \<Longrightarrow> key_host (h @ '':'' @ port) = h"
  by (simp add: key_host_def cut_last_append)

lemma key_host_no_port: "CHR '':'' \<notin> set h \<Longrightarrow> key_host h = h"
  by (simp add: key_host_def)

lemma path_within_refl: "path_within p p"
  by (simp add: path_within_def)

lemma path_within_empty: "path_within [] p" "path_within ''/'' p"
  by (simp_all add: path_within_def trim_def)

lemma path_within_trans: "path_within p q \<Longrightarrow> path_within q r \<Longrightarrow> path_within p r"
  by (auto simp: path_within_def Let_def dest: prefix_order.trans append_prefixD)

text \<open>The pairs of host and path prefix that an object claims: a missing list stands for the list with
  the empty string.\<close>

definition claims :: "HTTPScaledObject \<Rightarrow> (string \<times> string) list" where
  "claims h = List.product (case Hosts (Spec h) of None \<Rightarrow> [[]] | Some hs \<Rightarrow> hs)
     (case PathPrefixes (Spec h) of None \<Rightarrow> [[]] | Some ps \<Rightarrow> ps)"

lemma NewKeysFromHTTPSO_claims: "NewKeysFromHTTPSO (Some h) = map (\<lambda>(host, p). NewKey host p) (claims h)"
  by (simp add: NewKeysFromHTTPSO_def claims_def Let_def product_concat_map map_concat comp_def)

section \<open>Properties\<close>

text \<open>C27: a routing key is a prefix of the key of a request exactly when the hosts agree without their
  ports and the path of the request lies under the registered path by whole segments: \<open>/app\<close> matches
  \<open>/app\<close> and \<open>/app/x\<close> but not \<open>/apple\<close>, whatever slashes surround them.\<close>

theorem NewKey_matches_segments:
  assumes "CHR ''/'' \<notin> set (key_host h)" "CHR ''/'' \<notin> set (key_host h')"
  shows "prefix (NewKey h p) (NewKey h' p') \<longleftrightarrow>
    key_host h = key_host h' \<and>
    (trim CHR ''/'' p = [] \<or> trim CHR ''/'' p' = trim CHR ''/'' p \<or>
     (\<exists>rest. trim CHR ''/'' p' = trim CHR ''/'' p @ ''/'' @ rest))"
  using NewKey_prefix_iff [OF assms] by (auto simp: path_within_def Let_def prefix_def)

theorem NewKey_matches_segments_witness:
  "prefix (NewKey ''a.com'' ''/app/'') (NewKey ''a.com:8080'' ''/app/x'') \<and>
   \<not> prefix (NewKey ''a.com'' ''/app'') (NewKey ''a.com'' ''/apple'')"
  using NewKey_matches_segments [of "''a.com''" "''a.com:8080''" "''/app/''" "''/app/x''"]
    NewKey_matches_segments [of "''a.com''" "''a.com''" "''/app''" "''/apple''"]
  by (simp add: key_host_def cut_last_def trim_def)

end
