(* ===== verification/Radix_Tree.thy ===== *)
theory Radix_Tree
  imports Prelude
begin

text \<open>
  The immutable radix tree of \<^verbatim>\<open>hashicorp/go-immutable-radix\<close>, which the routing table is built on, is
  not part of the repository. Its operations are the parameter \<open>T\<close> of the definitions that use it,
  and the locale \<open>iradix\<close> states what its documentation promises: an insert and a delete return the
  new tree and the value that was there, and \<open>LongestPrefix\<close> finds the value of the longest key that
  is a prefix of the search key. A byte trie shows that the promises can be kept.
\<close>

record ('t, 'v) radix_ops =
  rx_New :: 't
  rx_Insert :: "'t \<Rightarrow> string \<Rightarrow> 'v \<Rightarrow> 't \<times> 'v option"
  rx_Delete :: "'t \<Rightarrow> string \<Rightarrow> 't \<times> 'v option"
  rx_Get :: "'t \<Rightarrow> string \<Rightarrow> 'v option"
  rx_LongestPrefix :: "'t \<Rightarrow> string \<Rightarrow> 'v option"

locale iradix =
  fixes T :: "('t, 'v) radix_ops"
  assumes get_new: "rx_Get T (rx_New T) k = None"
    and get_insert: "rx_Get T (fst (rx_Insert T t k v)) k' = (if k' = k then Some v else rx_Get T t k')"
    and old_insert: "snd (rx_Insert T t k v) = rx_Get T t k"
    and get_delete: "rx_Get T (fst (rx_Delete T t k)) k' = (if k' = k then None else rx_Get T t k')"
    and old_delete: "snd (rx_Delete T t k) = rx_Get T t k"
    and longest_some: "rx_Get T t p = Some v \<Longrightarrow> prefix p k \<Longrightarrow>
      (\<And>q. rx_Get T t q \<noteq> None \<Longrightarrow> prefix q k \<Longrightarrow> length q \<le> length p) \<Longrightarrow> rx_LongestPrefix T t k = Some v"
    and longest_none: "(\<And>p. prefix p k \<Longrightarrow> rx_Get T t p = None) \<Longrightarrow> rx_LongestPrefix T t k = None"
begin

lemmas radix_laws = get_new get_insert old_insert get_delete old_delete

text \<open>What a search finds is the value of a longest registered prefix, and it finds one if there is
  one.\<close>

lemma longest_registered:
  assumes "prefix p k" "rx_Get T t p \<noteq> None"
  shows "\<exists>q. prefix q k \<and> rx_Get T t q \<noteq> None \<and> (\<forall>r. prefix r k \<longrightarrow> rx_Get T t r \<noteq> None \<longrightarrow> length r \<le> length q)"
  using assms ex_has_greatest_nat [of "\<lambda>q. prefix q k \<and> rx_Get T t q \<noteq> None" p length "Suc (length k)"]
  by (auto simp: less_Suc_eq_le prefix_length_le)

lemma longest_iff:
  "rx_LongestPrefix T t k = Some v \<longleftrightarrow>
     (\<exists>p. prefix p k \<and> rx_Get T t p = Some v \<and>
       (\<forall>q. prefix q k \<longrightarrow> rx_Get T t q \<noteq> None \<longrightarrow> length q \<le> length p))"
proof
  assume l: "rx_LongestPrefix T t k = Some v"
  then obtain p where "prefix p k" "rx_Get T t p \<noteq> None" using longest_none by fastforce
  then obtain q where q: "prefix q k" "rx_Get T t q \<noteq> None"
    "\<forall>r. prefix r k \<longrightarrow> rx_Get T t r \<noteq> None \<longrightarrow> length r \<le> length q"
    using longest_registered by blast
  then obtain w where "rx_Get T t q = Some w" by blast
  with q l longest_some [of t q w k] show "\<exists>p. prefix p k \<and> rx_Get T t p = Some v \<and>
       (\<forall>q. prefix q k \<longrightarrow> rx_Get T t q \<noteq> None \<longrightarrow> length q \<le> length p)" by auto
qed (auto intro: longest_some)

lemma longest_None_iff: "rx_LongestPrefix T t k = None \<longleftrightarrow> (\<forall>p. prefix p k \<longrightarrow> rx_Get T t p = None)"
proof
  assume l: "rx_LongestPrefix T t k = None"
  show "\<forall>p. prefix p k \<longrightarrow> rx_Get T t p = None"
  proof (rule ccontr)
    assume "\<not> ?thesis"
    then obtain p where "prefix p k" "rx_Get T t p \<noteq> None" by blast
    then obtain q where "prefix q k" "rx_Get T t q \<noteq> None"
      "\<forall>r. prefix r k \<longrightarrow> rx_Get T t r \<noteq> None \<longrightarrow> length r \<le> length q" using longest_registered by blast
    with l longest_some show False by fastforce
  qed
qed (auto intro: longest_none)

end

section \<open>A byte trie\<close>

datatype 'v trie = Trie "'v option" "(char \<times> 'v trie) list"

fun trie_get :: "'v trie \<Rightarrow> string \<Rightarrow> 'v option" where
  "trie_get (Trie x kids) [] = x"
| "trie_get (Trie x kids) (c # cs) = (case map_of kids c of None \<Rightarrow> None | Some t \<Rightarrow> trie_get t cs)"

fun trie_set :: "'v trie \<Rightarrow> string \<Rightarrow> 'v option \<Rightarrow> 'v trie" where
  "trie_set (Trie x kids) [] v = Trie v kids"
| "trie_set (Trie x kids) (c # cs) v =
     (let t = (case map_of kids c of None \<Rightarrow> Trie None [] | Some t \<Rightarrow> t)
      in Trie x (AList.update c (trie_set t cs v) kids))"

fun trie_longest :: "'v option \<Rightarrow> 'v trie \<Rightarrow> string \<Rightarrow> 'v option" where
  "trie_longest best (Trie x kids) [] = (if x = None then best else x)"
| "trie_longest best (Trie x kids) (c # cs) =
     (let best = (if x = None then best else x)
      in case map_of kids c of None \<Rightarrow> best | Some t \<Rightarrow> trie_longest best t cs)"

definition trie_ops :: "('v trie, 'v) radix_ops" where
  "trie_ops =
     \<lparr>rx_New = Trie None [],
      rx_Insert = \<lambda>t k v. (trie_set t k (Some v), trie_get t k),
      rx_Delete = \<lambda>t k. (trie_set t k None, trie_get t k),
      rx_Get = trie_get,
      rx_LongestPrefix = trie_longest None\<rparr>"

lemma trie_get_empty [simp]: "trie_get (Trie None []) k = None"
  by (cases k) simp_all

lemma trie_get_set [simp]: "trie_get (trie_set t k v) k' = (if k' = k then v else trie_get t k')"
proof (induction t k v arbitrary: k' rule: trie_set.induct)
  case (1 x kids v)
  then show ?case by (cases k') simp_all
next
  case (2 x kids c cs v)
  then show ?case by (cases k') (auto simp: Let_def split: option.splits)
qed

lemma trie_longest_none: "(\<And>p. prefix p k \<Longrightarrow> trie_get t p = None) \<Longrightarrow> trie_longest best t k = best"
proof (induction best t k rule: trie_longest.induct)
  case (1 best x kids)
  then show ?case by (metis trie_get.simps(1) trie_longest.simps(1) prefix_bot.extremum)
next
  case (2 b y ks d ds)
  have "y = None" using "2.prems" [of "[]"] by simp
  moreover have "trie_get u q = None" if "map_of ks d = Some u" "prefix q ds" for u q
    using "2.prems" [of "d # q"] that by simp
  ultimately show ?case using "2.IH" by (auto split: option.splits)
qed

lemma trie_longest_some:
  assumes "trie_get t p = Some v" "prefix p k" "\<And>q. trie_get t q \<noteq> None \<Longrightarrow> prefix q k \<Longrightarrow> length q \<le> length p"
  shows "trie_longest best t k = Some v"
  using assms
proof (induction best t k arbitrary: p rule: trie_longest.induct)
  case (1 best x kids)
  then show ?case by simp
next
  case (2 best x kids c cs)
  show ?case
  proof (cases p)
    case Nil
    have none: "trie_get t q = None" if "map_of kids c = Some t" "prefix q cs" for t q
      using "2.prems"(3) [of "c # q"] that Nil by fastforce
    show ?thesis using "2.prems"(1) Nil none by (auto simp: Let_def trie_longest_none split: option.splits)
  next
    case (Cons d ds)
    with "2.prems" obtain t where t: "map_of kids c = Some t" "d = c" "trie_get t ds = Some v" "prefix ds cs"
      by (auto split: option.splits)
    have "length q \<le> length ds" if "trie_get t q \<noteq> None" "prefix q cs" for q
      using "2.prems"(3) [of "c # q"] that t Cons by simp
    with "2.IH" [OF refl t(1) t(3,4)] t(1) show ?thesis by simp
  qed
qed

interpretation byte_trie: iradix trie_ops
  by unfold_locales (auto simp: trie_ops_def intro: trie_longest_some trie_longest_none)

end
