(* ===== verification/Table_Memory.thy ===== *)
theory Table_Memory
  imports Route_Key Radix_Tree
begin

text \<open>
  \<^verbatim>\<open>pkg/routing/tablememory.go\<close>: the persistent routing table. \<open>index\<close> maps the namespaced name of an
  HTTPScaledObject to the object, \<open>store\<close> maps every routing key to the object that owns it; both are
  radix trees, whose operations are the argument \<open>T\<close>. \<open>str\<close> is \<open>types.NamespacedName.String\<close>.
\<close>

section \<open>The operations\<close>

record 't tableMemory =
  index :: 't
  store :: 't

definition NewTableMemory :: "('t, HTTPScaledObject) radix_ops \<Rightarrow> 't tableMemory" where
  "NewTableMemory T = \<lparr>index = rx_New T, store = rx_New T\<rparr>"

definition newTableMemoryIndexKey :: "(NamespacedName \<Rightarrow> string) \<Rightarrow> NamespacedName option \<Rightarrow> string" where
  "newTableMemoryIndexKey str namespacedName = (case namespacedName of None \<Rightarrow> [] | Some nn \<Rightarrow> str nn)"

definition newTableMemoryIndexKeyFromHTTPSO :: "(NamespacedName \<Rightarrow> string) \<Rightarrow> HTTPScaledObject option \<Rightarrow> string" where
  "newTableMemoryIndexKeyFromHTTPSO str httpso =
     (case httpso of None \<Rightarrow> [] | Some h \<Rightarrow> newTableMemoryIndexKey str (NamespacedNameFromObject (Some h)))"

text \<open>One iteration of the loop of \<open>Remember\<close>: the oldest object keeps the key.\<close>

definition remember_key :: "('t, HTTPScaledObject) radix_ops \<Rightarrow> HTTPScaledObject \<Rightarrow> 't \<Rightarrow> Key \<Rightarrow> 't" where
  "remember_key T httpso st key =
     (case rx_Insert T st key httpso of
        (newStore, oldHTTPSO) \<Rightarrow>
          (case oldHTTPSO of
             Some old \<Rightarrow>
               if time_After (GetCreationTimestamp httpso) (GetCreationTimestamp old) then st else newStore
           | None \<Rightarrow> newStore))"

definition Remember :: "(NamespacedName \<Rightarrow> string) \<Rightarrow> ('t, HTTPScaledObject) radix_ops \<Rightarrow>
    't tableMemory \<Rightarrow> HTTPScaledObject option \<Rightarrow> 't tableMemory" where
  "Remember str T tm httpso =
     (case httpso of
        None \<Rightarrow> tm
      | Some h \<Rightarrow>
          \<lparr>index = fst (rx_Insert T (index tm) (newTableMemoryIndexKeyFromHTTPSO str (Some h)) h),
           store = foldl (remember_key T h) (store tm) (NewKeysFromHTTPSO (Some h))\<rparr>)"

definition Recall :: "(NamespacedName \<Rightarrow> string) \<Rightarrow> ('t, HTTPScaledObject) radix_ops \<Rightarrow>
    't tableMemory \<Rightarrow> NamespacedName option \<Rightarrow> HTTPScaledObject option" where
  "Recall str T tm namespacedName =
     (case namespacedName of
        None \<Rightarrow> None
      | Some nn \<Rightarrow> rx_Get T (index tm) (newTableMemoryIndexKey str (Some nn)))"

text \<open>One iteration of the loop of \<open>Forget\<close>: a key is deleted only if the forgotten object owns it.\<close>

definition forget_key :: "('t, HTTPScaledObject) radix_ops \<Rightarrow> NamespacedName \<Rightarrow> 't \<Rightarrow> Key \<Rightarrow> 't" where
  "forget_key T namespacedName st key =
     (case rx_Delete T st key of
        (newStore, oldHTTPSO) \<Rightarrow>
          (case NamespacedNameFromObject oldHTTPSO of
             None \<Rightarrow> st
           | Some oldName \<Rightarrow> if oldName \<noteq> namespacedName then st else newStore))"

text \<open>\<open>Forget(nil)\<close> returns a nil table, here None.\<close>

definition Forget :: "(NamespacedName \<Rightarrow> string) \<Rightarrow> ('t, HTTPScaledObject) radix_ops \<Rightarrow>
    't tableMemory \<Rightarrow> NamespacedName option \<Rightarrow> 't tableMemory option" where
  "Forget str T tm namespacedName =
     (case namespacedName of
        None \<Rightarrow> None
      | Some nn \<Rightarrow>
          (case rx_Delete T (index tm) (newTableMemoryIndexKey str (Some nn)) of
             (idx, httpso) \<Rightarrow>
               (case httpso of
                  None \<Rightarrow> Some tm
                | Some h \<Rightarrow>
                    Some \<lparr>index = idx, store = foldl (forget_key T nn) (store tm) (NewKeysFromHTTPSO (Some h))\<rparr>)))"

definition RouteKey :: "('t, HTTPScaledObject) radix_ops \<Rightarrow> 't tableMemory \<Rightarrow> Key \<Rightarrow> HTTPScaledObject option" where
  "RouteKey T tm key = rx_LongestPrefix T (store tm) key"

text \<open>The table that remembers the objects of a list, one after the other.\<close>

definition remember_all :: "(NamespacedName \<Rightarrow> string) \<Rightarrow> ('t, HTTPScaledObject) radix_ops \<Rightarrow>
    HTTPScaledObject list \<Rightarrow> 't tableMemory" where
  "remember_all str T hs = foldl (\<lambda>tm h. Remember str T tm (Some h)) (NewTableMemory T) hs"

section \<open>What the table holds\<close>

abbreviation keys_of :: "HTTPScaledObject \<Rightarrow> Key set" where
  "keys_of h \<equiv> set (NewKeysFromHTTPSO (Some h))"

text \<open>The object that keeps a key when \<open>h\<close> claims it too.\<close>

definition older :: "HTTPScaledObject option \<Rightarrow> HTTPScaledObject \<Rightarrow> HTTPScaledObject" where
  "older old h = (case old of None \<Rightarrow> h
     | Some x \<Rightarrow> if time_After (GetCreationTimestamp h) (GetCreationTimestamp x) then x else h)"

definition owner_ok :: "HTTPScaledObject list \<Rightarrow> Key \<Rightarrow> HTTPScaledObject option \<Rightarrow> bool" where
  "owner_ok hs k r \<longleftrightarrow>
     (case r of
        None \<Rightarrow> \<forall>h\<in>set hs. k \<notin> keys_of h
      | Some h \<Rightarrow> h \<in> set hs \<and> k \<in> keys_of h \<and>
          (\<forall>h'\<in>set hs. k \<in> keys_of h' \<longrightarrow> GetCreationTimestamp h \<le> GetCreationTimestamp h'))"

lemma remember_all_simps [simp]:
  "remember_all str T [] = NewTableMemory T"
  "remember_all str T (hs @ [h]) = Remember str T (remember_all str T hs) (Some h)"
  by (simp_all add: remember_all_def)

lemma owner_ok_snoc:
  assumes "owner_ok hs k r"
  shows "owner_ok (hs @ [h]) k (if k \<in> keys_of h then Some (older r h) else r)"
  using assms by (force simp: owner_ok_def older_def time_After_def split: option.splits)

lemma owner_unique:
  assumes "owner_ok hs k r" "owner_ok hs' k r'" "set hs = set hs'"
    "\<And>h h'. h \<in> set hs \<Longrightarrow> h' \<in> set hs \<Longrightarrow> k \<in> keys_of h \<Longrightarrow> k \<in> keys_of h' \<Longrightarrow>
       GetCreationTimestamp h = GetCreationTimestamp h' \<Longrightarrow> h = h'"
  shows "r = r'"
  using assms by (auto simp: owner_ok_def split: option.splits dest: order_antisym) (meson order_antisym)

locale routing_tree = iradix T for T :: "('t, HTTPScaledObject) radix_ops"
begin

lemma get_remember_key:
  "rx_Get T (remember_key T h st key) k = (if k = key then Some (older (rx_Get T st k) h) else rx_Get T st k)"
  using radix_laws by (auto simp: remember_key_def older_def split_beta split: option.splits)

lemma older_idem: "older (Some (older x h)) h = older x h"
  by (simp add: older_def time_After_def split: option.splits)

lemma get_remember_keys:
  "rx_Get T (foldl (remember_key T h) st ks) k =
     (if k \<in> set ks then Some (older (rx_Get T st k) h) else rx_Get T st k)"
  by (induction ks arbitrary: st) (auto simp: get_remember_key older_idem)

lemma get_Remember:
  "rx_Get T (store (Remember str T tm (Some h))) k =
     (if k \<in> keys_of h then Some (older (rx_Get T (store tm) k) h) else rx_Get T (store tm) k)"
  by (simp add: Remember_def get_remember_keys)

lemma owner_remember_all: "owner_ok hs k (rx_Get T (store (remember_all str T hs)) k)"
proof (induction hs rule: rev_induct)
  case Nil
  then show ?case by (simp add: NewTableMemory_def get_new owner_ok_def)
next
  case (snoc h hs)
  then show ?case using owner_ok_snoc [OF snoc] by (simp add: get_Remember)
qed

lemma registered_iff: "rx_Get T (store (remember_all str T hs)) k \<noteq> None \<longleftrightarrow> (\<exists>h\<in>set hs. k \<in> keys_of h)"
  using owner_remember_all [of hs k str] by (auto simp: owner_ok_def split: option.splits)

text \<open>A request is routed to the owner of the longest registered key that its key starts with.\<close>

lemma Route_remember_all:
  "RouteKey T (remember_all str T hs) key = Some h \<longleftrightarrow>
     (\<exists>k. prefix k key \<and> rx_Get T (store (remember_all str T hs)) k = Some h \<and>
       (\<forall>h'\<in>set hs. \<forall>k'\<in>keys_of h'. prefix k' key \<longrightarrow> length k' \<le> length k))"
  unfolding RouteKey_def longest_iff registered_iff by blast

lemma Route_remember_all_None:
  "RouteKey T (remember_all str T hs) key = None \<longleftrightarrow> (\<forall>h\<in>set hs. \<forall>k\<in>keys_of h. \<not> prefix k key)"
  unfolding RouteKey_def longest_None_iff using registered_iff by blast

lemma store_order_irrelevant:
  assumes "set hs = set hs'"
    "\<And>h h' k. h \<in> set hs \<Longrightarrow> h' \<in> set hs \<Longrightarrow> k \<in> keys_of h \<Longrightarrow> k \<in> keys_of h' \<Longrightarrow>
       GetCreationTimestamp h = GetCreationTimestamp h' \<Longrightarrow> h = h'"
  shows "rx_Get T (store (remember_all str T hs)) k = rx_Get T (store (remember_all str T hs')) k"
  using owner_unique [OF owner_remember_all owner_remember_all assms(1)] assms(2) by blast

lemma Route_cong:
  assumes "\<And>k. rx_Get T (store tm) k = rx_Get T (store tm') k"
  shows "RouteKey T tm key = RouteKey T tm' key"
proof -
  have "(RouteKey T tm key = Some v) = (RouteKey T tm' key = Some v)" for v
    unfolding RouteKey_def longest_iff assms ..
  then show ?thesis by (metis not_Some_eq)
qed

lemma Recall_remember_all:
  assumes "inj_on str (insert nn (name_of ` set hs))"
    "\<And>h h'. h \<in> set hs \<Longrightarrow> h' \<in> set hs \<Longrightarrow> name_of h = name_of h' \<Longrightarrow> h = h'"
  shows "Recall str T (remember_all str T hs) (Some nn) = Some h \<longleftrightarrow> h \<in> set hs \<and> name_of h = nn"
  using assms
proof (induction hs rule: rev_induct)
  case Nil
  then show ?case by (simp add: NewTableMemory_def Recall_def get_new)
next
  case (snoc x hs)
  have get: "Recall str T (remember_all str T (hs @ [x])) (Some nn) =
      (if str nn = str (name_of x) then Some x else Recall str T (remember_all str T hs) (Some nn))"
    by (simp add: Remember_def Recall_def newTableMemoryIndexKey_def
        newTableMemoryIndexKeyFromHTTPSO_def radix_laws)
  have "str nn = str (name_of x) \<longleftrightarrow> name_of x = nn" using snoc.prems(1) by (auto dest: inj_onD)
  moreover have "inj_on str (insert nn (name_of ` set hs))" using snoc.prems(1) by (rule inj_on_subset) auto
  ultimately show ?case using snoc.IH snoc.prems(2) get by auto
qed

lemma get_forget_key:
  "rx_Get T (forget_key T nn st key) k =
     (if k = key \<and> map_option name_of (rx_Get T st k) = Some nn then None else rx_Get T st k)"
  using radix_laws by (auto simp: forget_key_def NamespacedNameFromObject_def split_beta split: option.splits)

lemma get_forget_keys:
  "rx_Get T (foldl (forget_key T nn) st ks) k =
     (if k \<in> set ks \<and> map_option name_of (rx_Get T st k) = Some nn then None else rx_Get T st k)"
  by (induction ks arbitrary: st) (auto simp: get_forget_key)

lemma get_Forget:
  assumes "Recall str T tm (Some nn) = Some h"
  shows "\<exists>tm'. Forget str T tm (Some nn) = Some tm' \<and>
    (\<forall>k. rx_Get T (store tm') k =
       (if k \<in> keys_of h \<and> map_option name_of (rx_Get T (store tm) k) = Some nn then None else rx_Get T (store tm) k)) \<and>
    (\<forall>k. rx_Get T (index tm') k = (if k = str nn then None else rx_Get T (index tm) k))"
  using assms radix_laws
  by (auto simp: Forget_def Recall_def newTableMemoryIndexKey_def get_forget_keys split_beta split: option.splits)

end

interpretation byte_table: routing_tree trie_ops
  by unfold_locales

section \<open>Properties\<close>

lemma claims_keys: "k \<in> keys_of h \<longleftrightarrow> (\<exists>(host, p)\<in>set (claims h). k = NewKey host p)"
  by (auto simp: NewKeysFromHTTPSO_claims)

lemma match_iff:
  assumes "\<forall>h\<in>set hs. \<forall>(host, p)\<in>set (claims h). CHR ''/'' \<notin> set (key_host host)" "h \<in> set hs"
    "(host, p) \<in> set (claims h)" "CHR ''/'' \<notin> set (key_host rhost)"
  shows "prefix (NewKey host p) (NewKey rhost path) \<longleftrightarrow> key_host host = key_host rhost \<and> path_within p path"
  using assms by (intro NewKey_prefix_iff) auto

text \<open>C4: the routing table, built from HTTPScaledObjects in any order over any radix tree that keeps
  its documented contract, routes a request to nobody exactly when no object claims its host with a
  path the request lies under. Otherwise the object it picks has a matching claim, no other matching
  claim is more specific, and no object with the same routing key is older.\<close>

theorem route_most_specific_oldest:
  assumes T: "iradix T"
    and hosts: "\<forall>h\<in>set hs. \<forall>(host, p)\<in>set (claims h). CHR ''/'' \<notin> set (key_host host)"
    and rhost: "CHR ''/'' \<notin> set (key_host rhost)"
  shows "case RouteKey T (remember_all str T hs) (NewKey rhost path) of
      None \<Rightarrow> \<forall>h\<in>set hs. \<forall>(host, p)\<in>set (claims h). \<not> (key_host host = key_host rhost \<and> path_within p path)
    | Some h \<Rightarrow> h \<in> set hs \<and>
        (\<exists>(host, p)\<in>set (claims h). key_host host = key_host rhost \<and> path_within p path \<and>
          (\<forall>h'\<in>set hs. \<forall>(host', p')\<in>set (claims h').
             key_host host' = key_host rhost \<and> path_within p' path \<longrightarrow> path_within p' p) \<and>
          (\<forall>h'\<in>set hs. NewKey host p \<in> keys_of h' \<longrightarrow> GetCreationTimestamp h \<le> GetCreationTimestamp h'))"
proof (cases "RouteKey T (remember_all str T hs) (NewKey rhost path)")
  case None
  then have "\<forall>h\<in>set hs. \<forall>k\<in>keys_of h. \<not> prefix k (NewKey rhost path)"
    using routing_tree.Route_remember_all_None [OF routing_tree.intro [OF T]] by blast
  then show ?thesis unfolding None using match_iff [OF hosts _ _ rhost] by (fastforce simp: claims_keys)
next
  case (Some h)
  note RT = routing_tree.intro [OF T]
  obtain k where k: "prefix k (NewKey rhost path)" "rx_Get T (store (remember_all str T hs)) k = Some h"
    "\<forall>h'\<in>set hs. \<forall>k'\<in>keys_of h'. prefix k' (NewKey rhost path) \<longrightarrow> length k' \<le> length k"
    using Some routing_tree.Route_remember_all [OF RT] by blast
  have own: "h \<in> set hs" "k \<in> keys_of h" "\<forall>h'\<in>set hs. k \<in> keys_of h' \<longrightarrow> GetCreationTimestamp h \<le> GetCreationTimestamp h'"
    using routing_tree.owner_remember_all [OF RT, of hs k str] k(2) by (simp_all add: owner_ok_def)
  obtain host p where c: "(host, p) \<in> set (claims h)" "k = NewKey host p" using own(2) by (auto simp: claims_keys)
  have m: "key_host host = key_host rhost" "path_within p path"
    using match_iff [OF hosts own(1) c(1) rhost] k(1) c(2) by simp_all
  have "path_within p' p" if "h' \<in> set hs" "(host', p') \<in> set (claims h')" "key_host host' = key_host rhost"
    "path_within p' path" for h' host' p'
  proof -
    have pk: "prefix (NewKey host' p') (NewKey rhost path)"
      using match_iff [OF hosts that(1,2) rhost] that(3,4) by simp
    then have "length (NewKey host' p') \<le> length k" using k(3) that(1,2) by (fastforce simp: claims_keys)
    then have "prefix (NewKey host' p') (NewKey host p)" using prefix_length_prefix [OF pk k(1)] c(2) by simp
    then show ?thesis using NewKey_prefix_iff [of host' host p' p] hosts own(1) c(1) that(1,2) by fastforce
  qed
  with own c m show ?thesis unfolding Some by (auto intro!: bexI [of _ "(host, p)"])
qed

definition demo_httpso :: "string \<Rightarrow> instant \<Rightarrow> string list \<Rightarrow> string list \<Rightarrow> HTTPScaledObject" where
  "demo_httpso nm created hosts paths =
     (plain_httpso ''ns'' nm)\<lparr>GetCreationTimestamp := created,
        Spec := plain_spec\<lparr>Hosts := Some hosts, PathPrefixes := Some paths\<rparr>\<rparr>"

definition demo_str :: "NamespacedName \<Rightarrow> string" where
  "demo_str nn = Namespace nn @ ''/'' @ NName nn"

lemmas demo_simps = demo_httpso_def plain_httpso_def plain_spec_def claims_def key_host_def cut_last_def

theorem route_most_specific_oldest_witness:
  "\<exists>h. RouteKey trie_ops (remember_all demo_str trie_ops
       [demo_httpso ''a'' 5 [''a.com''] [''/''], demo_httpso ''b'' 7 [''a.com''] [''/app'']])
       (NewKey ''a.com:80'' ''/app/x'') = Some h \<and> GetName h = ''b''"
proof -
  let ?hs = "[demo_httpso ''a'' 5 [''a.com''] [''/''], demo_httpso ''b'' 7 [''a.com''] [''/app'']]"
  have *: "\<forall>h\<in>set ?hs. \<forall>(host, p)\<in>set (claims h). CHR ''/'' \<notin> set (key_host host)"
    "CHR ''/'' \<notin> set (key_host ''a.com:80'')"
    by (simp_all add: demo_simps)
  have w: "path_within ''/'' ''/app/x''" "path_within ''/app'' ''/app/x''" "\<not> path_within ''/app'' ''/''"
    "key_host ''a.com'' = key_host ''a.com:80''"
    by code_simp+
  have cl: "claims (demo_httpso ''a'' 5 [''a.com''] [''/'']) = [(''a.com'', ''/'')]"
    "claims (demo_httpso ''b'' 7 [''a.com''] [''/app'']) = [(''a.com'', ''/app'')]"
    "GetName (demo_httpso ''b'' 7 [''a.com''] [''/app'']) = ''b''"
    by (simp_all add: demo_simps)
  show ?thesis
    using route_most_specific_oldest [OF byte_trie.iradix_axioms *, of "''/app/x''" demo_str] w cl
    by (auto split: option.splits)
qed



text \<open>With equal creation times the order does matter: the object visited last takes the key.\<close>

theorem route_equal_timestamps_depend_on_order:
  "map_option GetName (RouteKey trie_ops (remember_all demo_str trie_ops
     [demo_httpso ''a'' 5 [''h''] [''/''], demo_httpso ''b'' 5 [''h''] [''/'']]) (NewKey ''h'' ''/'')) = Some ''b'' \<and>
   map_option GetName (RouteKey trie_ops (remember_all demo_str trie_ops
     [demo_httpso ''b'' 5 [''h''] [''/''], demo_httpso ''a'' 5 [''h''] [''/'']]) (NewKey ''h'' ''/'')) = Some ''a''"
  by code_simp

text \<open>what the table remembers under a namespaced name it recalls, and nothing else, when the
  string of a namespaced name is injective on the names Kubernetes admits, which have no slash.\<close>

theorem Recall_Remember:
  assumes "iradix T" "inj_on str {nn. valid_name nn}" "\<forall>h\<in>set hs. valid_name (name_of h)" "valid_name nn"
    "\<forall>h\<in>set hs. \<forall>h'\<in>set hs. name_of h = name_of h' \<longrightarrow> h = h'"
  shows "Recall str T (remember_all str T hs) (Some nn) = Some h \<longleftrightarrow> h \<in> set hs \<and> name_of h = nn"
proof (rule routing_tree.Recall_remember_all [OF routing_tree.intro [OF assms(1)]])
  show "inj_on str (insert nn (name_of ` set hs))"
    using assms(2) by (rule inj_on_subset) (use assms(3,4) in auto)
  show "x = y" if "x \<in> set hs" "y \<in> set hs" "name_of x = name_of y" for x y
    using assms(5) [rule_format, OF that] .
qed

lemma demo_str_inj: "inj_on demo_str {nn. valid_name nn}"
proof (rule inj_onI)
  fix x y assume "x \<in> {nn. valid_name nn}" "y \<in> {nn. valid_name nn}" "demo_str x = demo_str y"
  then have "Namespace x = Namespace y \<and> prefix (NName x) (NName y)" "Namespace x = Namespace y \<and> prefix (NName y) (NName x)"
    using prefix_separated [of "CHR ''/''" "Namespace x" "Namespace y" "NName x" "NName y"]
      prefix_separated [of "CHR ''/''" "Namespace y" "Namespace x" "NName y" "NName x"]
    by (simp_all add: valid_name_def demo_str_def)
  then show "x = y" by (simp add: prefix_order.antisym)
qed

theorem Recall_Remember_witness:
  "Recall demo_str trie_ops (remember_all demo_str trie_ops [demo_httpso ''a'' 5 [''h''] [], demo_httpso ''b'' 7 [''h''] []])
     (Some \<lparr>Namespace = ''ns'', NName = ''b''\<rparr>) = Some (demo_httpso ''b'' 7 [''h''] [])"
  by (rule Recall_Remember [OF byte_trie.iradix_axioms demo_str_inj, THEN iffD2])
    (auto simp: valid_name_def demo_httpso_def plain_httpso_def)

text \<open>Forgetting an object removes its name from the index and exactly the routing keys it owns;
  the keys of other objects stay, and a younger object that shared a key does not get it back.\<close>

theorem Forget_owned_keys:
  assumes "iradix T" "Recall str T tm (Some nn) = Some h"
  shows "\<exists>tm'. Forget str T tm (Some nn) = Some tm' \<and> Recall str T tm' (Some nn) = None \<and>
    (\<forall>k. rx_Get T (store tm') k =
       (if k \<in> keys_of h \<and> map_option name_of (rx_Get T (store tm) k) = Some nn then None else rx_Get T (store tm) k))"
  using routing_tree.get_Forget [OF routing_tree.intro [OF assms(1)] assms(2)]
  by (auto simp: Recall_def newTableMemoryIndexKey_def)

theorem Forget_owned_keys_witness:
  "\<exists>tm'. Forget demo_str trie_ops (remember_all demo_str trie_ops [demo_httpso ''a'' 5 [''h''] [''/'']])
       (Some \<lparr>Namespace = ''ns'', NName = ''a''\<rparr>) = Some tm' \<and>
     Recall demo_str trie_ops tm' (Some \<lparr>Namespace = ''ns'', NName = ''a''\<rparr>) = None"
  using Forget_owned_keys [OF byte_trie.iradix_axioms, of demo_str
      "remember_all demo_str trie_ops [demo_httpso ''a'' 5 [''h''] [''/'']]"
      "\<lparr>Namespace = ''ns'', NName = ''a''\<rparr>" "demo_httpso ''a'' 5 [''h''] [''/'']"]
  by (auto simp: Recall_def remember_all_def Remember_def newTableMemoryIndexKey_def
      newTableMemoryIndexKeyFromHTTPSO_def byte_trie.radix_laws demo_httpso_def plain_httpso_def demo_str_def)

end
