(* ===== verification/Buckets.thy ===== *)
theory Buckets
  imports Go_Time
begin

text \<open>
  \<^verbatim>\<open>pkg/queue/bucketing.go\<close>: the ring buffer of request counts behind the request rate.
  A \<open>RequestsBuckets\<close> has one bucket per granularity of time; the bucket of an instant is its
  index modulo the number of buckets. \<open>Record\<close> adds a value at an instant and clears the buckets
  that time has left behind, \<open>WindowAverage\<close> is the average over the window, rounded down to
  three digits. The mutex of the struct serialises the operations, so an operation is one
  function from state to state; a panic is a fault.
\<close>

section \<open>The data and the operations\<close>

record RequestsBuckets =
  buckets :: "go_int list"
  firstWrite :: instant
  lastWrite :: instant
  granularity :: duration
  window :: duration
  windowTotal :: go_int

definition precision :: nat where
  "precision = 3"

definition NewRequestsBuckets :: "duration \<Rightarrow> duration \<Rightarrow> fault + RequestsBuckets" where
  "NewRequestsBuckets w g =
     (case f64_div (f64_of_int w) (f64_of_int g) of
        Inl f \<Rightarrow> Inl f
      | Inr q \<Rightarrow>
          (let nb = f64_to_int (math_ceil q) in
           if nb < 0 then Inl MakeSliceLen
           else Inr \<lparr>buckets = replicate (nat nb) 0, firstWrite = 0, lastWrite = 0,
                     granularity = g, window = w, windowTotal = 0\<rparr>))"

definition isEmptyLocked :: "RequestsBuckets \<Rightarrow> instant \<Rightarrow> bool" where
  "isEmptyLocked t now \<longleftrightarrow> window t < time_Sub now (lastWrite t)"

definition IsEmpty :: "RequestsBuckets \<Rightarrow> instant \<Rightarrow> bool" where
  "IsEmpty t now = isEmptyLocked t (time_Truncate now (granularity t))"

definition roundToNDigits :: "nat \<Rightarrow> f64 \<Rightarrow> f64" where
  "roundToNDigits n f =
     (let p = math_pow10 n in f64_round (math_floor (f64_mul f p) / p))"

definition timeToIndex :: "RequestsBuckets \<Rightarrow> instant \<Rightarrow> fault + int" where
  "timeToIndex t tm = go_div (time_Unix tm) (f64_to_int (duration_Seconds (granularity t)))"

text \<open>\<open>float64(t.lastWrite.Sub(t.firstWrite)/t.granularity)+1\<close> and its minimum with the number of
  buckets.\<close>

definition validBuckets :: "RequestsBuckets \<Rightarrow> fault + f64" where
  "validBuckets t =
     (case go_div (time_Sub (lastWrite t) (firstWrite t)) (granularity t) of
        Inl f \<Rightarrow> Inl f
      | Inr m \<Rightarrow> Inr (min (f64_add (f64_of_int m) 1) (f64_of_int (int (length (buckets t))))))"

text \<open>The loop of \<open>WindowAverage\<close>: \<open>for i := i; i <= e; i++ { ret -= t.buckets[i%len(t.buckets)] }\<close>.\<close>

function outdated_loop :: "go_int list \<Rightarrow> int \<Rightarrow> int \<Rightarrow> go_int \<Rightarrow> fault + go_int" where
  "outdated_loop bs i e ret =
     (if i \<le> e then
        (case go_mod i (int (length bs)) of
           Inl f \<Rightarrow> Inl f
         | Inr idx \<Rightarrow>
             (case slice_get bs idx of
                Inl f \<Rightarrow> Inl f
              | Inr v \<Rightarrow> outdated_loop bs (i + 1) e (ret - v)))
      else Inr ret)"
  by pat_completeness auto
termination
  by (relation "measure (\<lambda>(bs, i, e, ret). nat (e + 1 - i))") auto

definition WindowAverage :: "RequestsBuckets \<Rightarrow> instant \<Rightarrow> fault + f64" where
  "WindowAverage t now =
     (let now = time_Truncate now (granularity t);
          d = time_Sub now (lastWrite t)
      in if d \<le> 0 then
           (case validBuckets t of
              Inl f \<Rightarrow> Inl f
            | Inr numB \<Rightarrow>
                (case f64_div (f64_of_int (sint (windowTotal t))) numB of
                   Inl f \<Rightarrow> Inl f
                 | Inr avg \<Rightarrow> Inr (roundToNDigits precision avg)))
         else if d < window t then
           (case timeToIndex t (lastWrite t) of
              Inl f \<Rightarrow> Inl f
            | Inr stIdx \<Rightarrow>
                (case timeToIndex t now of
                   Inl f \<Rightarrow> Inl f
                 | Inr eIdx \<Rightarrow>
                     (case outdated_loop (buckets t) (stIdx + 1) eIdx (windowTotal t) of
                        Inl f \<Rightarrow> Inl f
                      | Inr ret \<Rightarrow>
                          (case validBuckets t of
                             Inl f \<Rightarrow> Inl f
                           | Inr numB \<Rightarrow>
                               (case f64_div (f64_of_int (sint ret)) numB of
                                  Inl f \<Rightarrow> Inl f
                                | Inr avg \<Rightarrow> Inr (roundToNDigits precision avg))))))
         else Inr 0)"

text \<open>The loop of \<open>Record\<close> that clears the buckets between the last write and this one.\<close>

function clear_loop :: "int \<Rightarrow> int \<Rightarrow> go_int list \<Rightarrow> go_int \<Rightarrow> fault + go_int list \<times> go_int" where
  "clear_loop i writeIdx bs tot =
     (if i \<le> writeIdx then
        (case go_mod i (int (length bs)) of
           Inl f \<Rightarrow> Inl f
         | Inr idx \<Rightarrow>
             (case slice_get bs idx of
                Inl f \<Rightarrow> Inl f
              | Inr v \<Rightarrow>
                  (case slice_set bs idx 0 of
                     Inl f \<Rightarrow> Inl f
                   | Inr bs' \<Rightarrow> clear_loop (i + 1) writeIdx bs' (tot - v))))
      else Inr (bs, tot))"
  by pat_completeness auto
termination
  by (relation "measure (\<lambda>(i, e, bs, tot). nat (e + 1 - i))") auto

declare outdated_loop.simps [simp del] clear_loop.simps [simp del]

text \<open>The last two statements of \<open>Record\<close>: add the value to its bucket and to the total.\<close>

definition addValue :: "RequestsBuckets \<Rightarrow> int \<Rightarrow> go_int \<Rightarrow> fault + RequestsBuckets" where
  "addValue t writeIdx v =
     (case go_mod writeIdx (int (length (buckets t))) of
        Inl f \<Rightarrow> Inl f
      | Inr idx \<Rightarrow>
          (case slice_get (buckets t) idx of
             Inl f \<Rightarrow> Inl f
           | Inr old \<Rightarrow>
               (case slice_set (buckets t) idx (old + v) of
                  Inl f \<Rightarrow> Inl f
                | Inr bs \<Rightarrow> Inr (t\<lparr>buckets := bs, windowTotal := windowTotal t + v\<rparr>))))"

definition Record :: "RequestsBuckets \<Rightarrow> instant \<Rightarrow> go_int \<Rightarrow> fault + RequestsBuckets" where
  "Record t now v =
     (let bucketTime = time_Truncate now (granularity t) in
      case timeToIndex t now of
        Inl f \<Rightarrow> Inl f
      | Inr writeIdx \<Rightarrow>
          if lastWrite t \<noteq> bucketTime then
            if time_After (time_Add bucketTime (window t)) (lastWrite t) then
              (let t = (if time_IsZero (firstWrite t) \<or> time_After (firstWrite t) bucketTime
                        then t\<lparr>firstWrite := bucketTime\<rparr> else t) in
               if time_After bucketTime (lastWrite t) then
                 if window t \<le> time_Sub bucketTime (lastWrite t) then
                   addValue (t\<lparr>firstWrite := bucketTime, buckets := map (\<lambda>_. 0) (buckets t),
                               windowTotal := 0, lastWrite := bucketTime\<rparr>) writeIdx v
                 else
                   (case timeToIndex t (lastWrite t) of
                      Inl f \<Rightarrow> Inl f
                    | Inr i \<Rightarrow>
                        (case clear_loop (i + 1) writeIdx (buckets t) (windowTotal t) of
                           Inl f \<Rightarrow> Inl f
                         | Inr (bs, tot) \<Rightarrow>
                             addValue (t\<lparr>buckets := bs, windowTotal := tot,
                                         lastWrite := bucketTime\<rparr>) writeIdx v))
               else addValue t writeIdx v)
            else Inr t
          else addValue t writeIdx v)"

end
