(* ===== verification/Buckets_Refine.thy ===== *)
theory Buckets_Refine
  imports Buckets
begin

text \<open>
  The ring buffer of \<^verbatim>\<open>pkg/queue/bucketing.go\<close> implements a sliding window. The theory relates a
  \<open>RequestsBuckets\<close> to an abstract log of values per bucket index (\<open>window_rel\<close>), shows that
  \<open>NewRequestsBuckets\<close>, \<open>Record\<close> and \<open>WindowAverage\<close> simulate the operations on that log, and
  that after any run of \<open>Record\<close> calls the log holds exactly what was recorded in the window. The
  relation needs a granularity of whole seconds aligned with 1970; what happens without it is
  shown too.
\<close>

section \<open>Arithmetic\<close>


lemma sum_list_update_group:
  "k < length xs \<Longrightarrow> sum_list (xs[k := v]) = sum_list xs - xs ! k + (v :: 'a :: ab_group_add)"
  by (induction xs arbitrary: k) (auto split: nat.split)

section \<open>Indices and starts of buckets\<close>

text \<open>With a granularity of whole seconds that divides the seconds before 1970, \<open>Truncate\<close> (which
  counts from year 1) and \<open>Unix() / granularity\<close> (which counts from 1970) cut time at the same
  instants: bucket \<open>i\<close> is the interval that starts at \<open>bucket_start g i\<close>. \<open>aligned\<close> is that
  assumption, with a window of whole buckets that fits a \<open>time.Duration\<close>.\<close>

definition bucket_index :: "duration \<Rightarrow> instant \<Rightarrow> int" where
  "bucket_index g tm = time_Unix tm div (g div second)"

definition bucket_start :: "duration \<Rightarrow> int \<Rightarrow> instant" where
  "bucket_start g i = (i + unix_offset div (g div second)) * g"

definition aligned :: "RequestsBuckets \<Rightarrow> bool" where
  "aligned t \<longleftrightarrow>
     (let g = granularity t; k = g div second; n = int (length (buckets t)) in
      g = k * second \<and> 0 < k \<and> k dvd unix_offset \<and> 0 < n \<and> window t = n * g \<and> window t < max_duration)"

lemma alignedE:
  assumes "aligned t"
  obtains k n where "granularity t = k * second" "0 < k" "k dvd unix_offset" "k \<le> 2 ^ 53"
    "n = int (length (buckets t))" "0 < n" "window t = n * (k * second)" "window t < max_duration"
proof -
  let ?k = "granularity t div second" and ?n = "int (length (buckets t))"
  have a: "granularity t = ?k * second" "0 < ?k" "?k dvd unix_offset" "0 < ?n"
    "window t = ?n * (?k * second)" "window t < max_duration"
    using assms unfolding aligned_def Let_def by metis+
  have "1 * (?k * second) \<le> ?n * (?k * second)"
    using a(2,4) by (intro mult_right_mono) (linarith, simp add: nanosecond_per_second_def)
  with a(5,6) have "?k * second < max_duration" by simp
  then have "?k \<le> 2 ^ 53" by (simp add: max_duration_def nanosecond_per_second_def)
  with a that show thesis by blast
qed

lemma granularity_secs: "(k * second) div second = k"
  by (simp add: nanosecond_per_second_def)

lemma timeToIndex_aligned:
  assumes "aligned t" "0 \<le> time_Unix tm"
  shows "timeToIndex t tm = Inr (bucket_index (granularity t) tm)"
proof -
  from assms(1) obtain k where k: "granularity t = k * second" "0 < k" "k \<le> 2 ^ 53" by (rule alignedE)
  then have "f64_to_int (duration_Seconds (granularity t)) = k"
    by (simp add: duration_Seconds_whole f64_to_int_def)
  with k assms(2) show ?thesis by (simp add: timeToIndex_def bucket_index_def granularity_secs)
qed

lemma bucket_index_eq:
  assumes "0 < k" "k dvd unix_offset"
  shows "bucket_index (k * second) tm = tm div (k * second) - unix_offset div k"
proof -
  obtain m where m: "unix_offset = k * m" using assms(2) by blast
  have "(tm div second - k * m) div k = tm div second div k - m"
    using assms(1) div_mult_self4 [of k "- m" "tm div second"] by (simp add: algebra_simps)
  also have "tm div second div k = tm div (k * second)"
    using assms(1) by (simp add: zdiv_zmult2_eq mult.commute)
  finally show ?thesis using assms(1) by (simp add: bucket_index_def time_Unix_def granularity_secs m)
qed

lemma truncate_bucket_start:
  assumes "0 < k" "k dvd unix_offset"
  shows "time_Truncate tm (k * second) = bucket_start (k * second) (bucket_index (k * second) tm)"
  unfolding bucket_start_def bucket_index_eq [OF assms]
  using assms by (simp add: time_Truncate_eq granularity_secs)

lemma bucket_index_start:
  assumes "0 < k" "k dvd unix_offset"
  shows "bucket_index (k * second) (bucket_start (k * second) i) = i"
  unfolding bucket_start_def bucket_index_eq [OF assms]
  using assms by (simp add: granularity_secs)

lemma bucket_start_diff: "bucket_start g i - bucket_start g j = (i - j) * g"
  by (simp add: bucket_start_def left_diff_distrib distrib_right)

lemma unix_bucket_start:
  assumes "0 < k" "k dvd unix_offset"
  shows "time_Unix (bucket_start (k * second) i) = i * k"
proof -
  have "(i + unix_offset div k) * (k * second) div second = (i + unix_offset div k) * k"
    by (simp add: nanosecond_per_second_def)
  with assms show ?thesis by (simp add: time_Unix_def bucket_start_def granularity_secs distrib_right)
qed

section \<open>The loops and the ring\<close>

lemma clear_loop_ok:
  assumes "0 < length bs" "0 \<le> i"
  shows "\<exists>bs' tot'. clear_loop i e bs tot = Inr (bs', tot') \<and> length bs' = length bs \<and>
     tot' - sum_list bs' = tot - sum_list bs \<and>
     (\<forall>p < length bs. bs' ! p = (if \<exists>j. i \<le> j \<and> j \<le> e \<and> nat (j mod int (length bs)) = p then 0 else bs ! p))"
  using assms
proof (induction i e bs tot rule: clear_loop.induct)
  case (1 i e bs tot)
  let ?n = "int (length bs)"
  let ?p = "nat (i mod ?n)"
  show ?case
  proof (cases "i \<le> e")
    case True
    have p: "0 \<le> i mod ?n" "i mod ?n < ?n" "?p < length bs" using "1.prems" by (auto simp: nat_less_iff)
    let ?bs = "bs[?p := 0]"
    obtain bs' tot' where r: "clear_loop (i + 1) e ?bs (tot - bs ! ?p) = Inr (bs', tot')" "length bs' = length ?bs"
      "tot' - sum_list bs' = tot - bs ! ?p - sum_list ?bs"
      "\<forall>q < length ?bs. bs' ! q = (if \<exists>j. i + 1 \<le> j \<and> j \<le> e \<and> nat (j mod ?n) = q then 0 else ?bs ! q)"
      using "1.IH" [of "i mod ?n" "bs ! ?p" ?bs] True p "1.prems" by fastforce
    have "clear_loop i e bs tot = Inr (bs', tot')"
      using True p r(1) "1.prems" by (subst clear_loop.simps) simp
    moreover have "tot' - sum_list bs' = tot - sum_list bs"
      using r(3) p by (simp add: sum_list_update_group)
    moreover have "bs' ! q = (if \<exists>j. i \<le> j \<and> j \<le> e \<and> nat (j mod ?n) = q then 0 else bs ! q)" if "q < length bs" for q
    proof (cases "q = ?p")
      case True
      then show ?thesis using r(4) that p \<open>i \<le> e\<close> by auto
    next
      case False
      then have eq: "(\<exists>j. i \<le> j \<and> j \<le> e \<and> nat (j mod ?n) = q) \<longleftrightarrow> (\<exists>j. i + 1 \<le> j \<and> j \<le> e \<and> nat (j mod ?n) = q)"
        by (metis add1_zle_eq order_le_less)
      show ?thesis unfolding eq using r(4) that False by auto
    qed
    ultimately show ?thesis using r(2) by auto
  next
    case False
    then show ?thesis by (subst clear_loop.simps) auto
  qed
qed

lemma outdated_loop_ok:
  assumes "0 < length bs" "0 \<le> i"
  shows "outdated_loop bs i e ret = Inr (ret - (\<Sum>j\<in>{i..e}. bs ! nat (j mod int (length bs))))"
  using assms
proof (induction bs i e ret rule: outdated_loop.induct)
  case (1 bs i e ret)
  show ?case
  proof (cases "i \<le> e")
    case True
    have "{i..e} = insert i {i + 1..e}" using True by auto
    then have "(\<Sum>j\<in>{i..e}. bs ! nat (j mod int (length bs))) =
      bs ! nat (i mod int (length bs)) + (\<Sum>j\<in>{i + 1..e}. bs ! nat (j mod int (length bs)))"
      by simp
    with True 1 show ?thesis by (subst outdated_loop.simps) (simp add: algebra_simps)
  next
    case False
    then show ?thesis by (subst outdated_loop.simps) simp
  qed
qed

text \<open>Any \<open>n\<close> consecutive indices use each bucket of the ring once.\<close>

lemma ring_bij:
  assumes "0 < n"
  shows "bij_betw (\<lambda>i. nat (i mod n)) {L - n<..L} {..<nat n}"
proof -
  have "inj_on (\<lambda>i. nat (i mod n)) {L - n<..L}"
  proof (rule inj_onI)
    fix x y assume *: "x \<in> {L - n<..L}" "y \<in> {L - n<..L}" "nat (x mod n) = nat (y mod n)"
    then have "x mod n = y mod n" using assms by (simp add: eq_nat_nat_iff)
    then have "n dvd x - y" by (simp add: mod_eq_dvd_iff)
    moreover have "\<bar>x - y\<bar> < n" using * by auto
    ultimately show "x = y" using dvd_imp_le_int [of "x - y" n] assms by fastforce
  qed
  moreover have "(\<lambda>i. nat (i mod n)) ` {L - n<..L} = {..<nat n}"
  proof (rule card_subset_eq)
    show "card ((\<lambda>i. nat (i mod n)) ` {L - n<..L}) = card {..<nat n}"
      using calculation by (simp add: card_image)
  qed (use assms in \<open>auto simp: nat_less_iff\<close>)
  ultimately show ?thesis by (simp add: bij_betw_def)
qed

lemma ring_sum:
  assumes "0 < length bs"
  shows "(\<Sum>i\<in>{L - int (length bs)<..L}. bs ! nat (i mod int (length bs))) = sum_list bs"
proof -
  have "(\<Sum>i\<in>{L - int (length bs)<..L}. bs ! nat (i mod int (length bs))) = (\<Sum>p<length bs. bs ! p)"
    using ring_bij [of "int (length bs)" L] assms by (simp add: sum.reindex_bij_betw [of _ _ _ "\<lambda>p. bs ! p"])
  then show ?thesis by (simp add: sum_list_sum_nth atLeast0LessThan)
qed


section \<open>The abstract window and the simulation relation\<close>

text \<open>What the buffer promises: a history of the values per bucket index with the first and the
  last index written since the buffer was last idle. A record older than the window is dropped, one
  that comes a whole window after the last starts afresh. \<open>log_sum n c\<close> is the total of the last
  \<open>n\<close> indices at index \<open>c\<close>.\<close>

record window_log =
  wl_first :: int
  wl_last :: int
  wl_hist :: "int \<Rightarrow> go_int"

definition log_record :: "int \<Rightarrow> int \<Rightarrow> go_int \<Rightarrow> window_log option \<Rightarrow> window_log option" where
  "log_record n j v s =
     (case s of
        None \<Rightarrow> Some \<lparr>wl_first = j, wl_last = j, wl_hist = (\<lambda>_. 0)(j := v)\<rparr>
      | Some l \<Rightarrow>
          if j + n \<le> wl_last l then Some l
          else if wl_last l + n \<le> j then Some \<lparr>wl_first = j, wl_last = j, wl_hist = (\<lambda>_. 0)(j := v)\<rparr>
          else Some \<lparr>wl_first = min (wl_first l) j, wl_last = max (wl_last l) j,
                     wl_hist = (wl_hist l)(j := wl_hist l j + v)\<rparr>)"

definition log_sum :: "int \<Rightarrow> int \<Rightarrow> window_log \<Rightarrow> go_int" where
  "log_sum n c l = (\<Sum>i\<in>{c - n<..wl_last l}. wl_hist l i)"

definition ring_rel :: "go_int list \<Rightarrow> int \<Rightarrow> (int \<Rightarrow> go_int) \<Rightarrow> bool" where
  "ring_rel bs L h \<longleftrightarrow>
     (\<forall>i\<in>{L - int (length bs)<..L}. bs ! nat (i mod int (length bs)) = h i) \<and> (\<forall>i\<in>{L<..}. h i = 0)"

definition window_rel :: "RequestsBuckets \<Rightarrow> window_log option \<Rightarrow> bool" where
  "window_rel t s \<longleftrightarrow> aligned t \<and> windowTotal t = sum_list (buckets t) \<and>
     (case s of
        None \<Rightarrow> firstWrite t = 0 \<and> lastWrite t = 0 \<and> (\<forall>b\<in>set (buckets t). b = 0)
      | Some l \<Rightarrow> firstWrite t = bucket_start (granularity t) (wl_first l) \<and>
          lastWrite t = bucket_start (granularity t) (wl_last l) \<and>
          0 \<le> wl_first l \<and> wl_first l \<le> wl_last l \<and> ring_rel (buckets t) (wl_last l) (wl_hist l))"

lemma window_rel_NoneD:
  assumes "window_rel t None"
  shows "aligned t" "windowTotal t = sum_list (buckets t)" "firstWrite t = 0" "lastWrite t = 0"
    "\<forall>b\<in>set (buckets t). b = 0"
  using assms by (simp_all add: window_rel_def)

lemma window_rel_SomeD:
  assumes "window_rel t (Some l)"
  shows "aligned t" "windowTotal t = sum_list (buckets t)"
    "firstWrite t = bucket_start (granularity t) (wl_first l)"
    "lastWrite t = bucket_start (granularity t) (wl_last l)"
    "0 \<le> wl_first l" "wl_first l \<le> wl_last l" "ring_rel (buckets t) (wl_last l) (wl_hist l)"
  using assms by (simp_all add: window_rel_def)

lemma aligned_granularity_pos: "aligned t \<Longrightarrow> 0 < granularity t"
  by (erule alignedE) (simp add: nanosecond_per_second_def)

lemma bucket_start_less: "0 < g \<Longrightarrow> bucket_start g i < bucket_start g j \<longleftrightarrow> i < j"
  by (simp add: bucket_start_def)

lemma bucket_start_eq: "0 < g \<Longrightarrow> bucket_start g i = bucket_start g j \<longleftrightarrow> i = j"
  by (simp add: bucket_start_def)

lemma bucket_start_pos:
  assumes "aligned t" "0 \<le> i"
  shows "max_duration < bucket_start (granularity t) i"
proof -
  from assms(1) obtain k where k: "granularity t = k * second" "0 < k" "k dvd unix_offset" by (rule alignedE)
  have "unix_offset * second = (unix_offset div k) * (k * second)" using k by simp
  also have "\<dots> \<le> (i + unix_offset div k) * (k * second)"
    using assms(2) k by (intro mult_right_mono) (simp_all add: nanosecond_per_second_def)
  finally have "unix_offset * second \<le> bucket_start (granularity t) i"
    using k by (simp add: bucket_start_def granularity_secs)
  moreover have "max_duration < unix_offset * second"
    by (simp add: max_duration_def unix_offset_def nanosecond_per_second_def)
  ultimately show ?thesis by simp
qed

lemma Truncate_aligned:
  "aligned t \<Longrightarrow> time_Truncate now (granularity t) = bucket_start (granularity t) (bucket_index (granularity t) now)"
  by (erule alignedE) (simp add: truncate_bucket_start)

lemma index_start_aligned:
  "aligned t \<Longrightarrow> 0 \<le> i \<Longrightarrow> timeToIndex t (bucket_start (granularity t) i) = Inr i"
proof -
  assume a: "aligned t" "0 \<le> i"
  then obtain k where k: "granularity t = k * second" "0 < k" "k dvd unix_offset" by (elim alignedE)
  with a have "0 \<le> time_Unix (bucket_start (granularity t) i)" by (simp add: unix_bucket_start)
  with a k show ?thesis by (simp add: timeToIndex_aligned bucket_index_start)
qed

lemma window_in_duration:
  assumes "aligned t"
  shows "0 < window t" "window t < max_duration" "window t = int (length (buckets t)) * granularity t"
    "0 < length (buckets t)"
proof -
  from assms obtain k n where a: "granularity t = k * second" "0 < k" "n = int (length (buckets t))" "0 < n"
    "window t = n * (k * second)" "window t < max_duration" by (rule alignedE)
  then have "0 < k * second" by (simp add: nanosecond_per_second_def)
  with a show "0 < window t" by (simp add: mult_pos_pos)
  from a show "window t < max_duration" "window t = int (length (buckets t)) * granularity t"
    "0 < length (buckets t)" by auto
qed

text \<open>\<open>Record\<close> in terms of bucket indices, once something has been written.\<close>

lemma Record_index:
  assumes t: "aligned t" and now: "0 \<le> time_Unix now"
    and F: "firstWrite t = bucket_start (granularity t) F" "0 \<le> F" "F \<le> L"
    and L: "lastWrite t = bucket_start (granularity t) L"
    and j: "j = bucket_index (granularity t) now" and n: "n = int (length (buckets t))"
  shows "Record t now v =
    (if j + n \<le> L then Inr t
     else if j \<le> L then addValue (t\<lparr>firstWrite := bucket_start (granularity t) (min F j)\<rparr>) j v
     else if L + n \<le> j then
       addValue (t\<lparr>firstWrite := bucket_start (granularity t) j, buckets := map (\<lambda>_. 0) (buckets t),
                   windowTotal := 0, lastWrite := bucket_start (granularity t) j\<rparr>) j v
     else (case clear_loop (L + 1) j (buckets t) (windowTotal t) of
             Inl f \<Rightarrow> Inl f
           | Inr (bs, tot) \<Rightarrow>
               addValue (t\<lparr>buckets := bs, windowTotal := tot,
                           lastWrite := bucket_start (granularity t) j\<rparr>) j v))"
proof -
  let ?g = "granularity t"
  have g: "0 < ?g" using t by (rule aligned_granularity_pos)
  have L0: "0 \<le> L" using F by simp
  note w = window_in_duration [OF t]
  have after: "time_After (time_Add (bucket_start ?g j) (window t)) (bucket_start ?g L) \<longleftrightarrow> L < j + n"
    using g by (simp add: time_After_def time_Add_def w(3) n bucket_start_def flip: distrib_right)
  have sub: "window t \<le> time_Sub (bucket_start ?g j) (bucket_start ?g L) \<longleftrightarrow> L + n \<le> j"
  proof -
    have "window t \<le> time_Sub (bucket_start ?g j) (bucket_start ?g L) \<longleftrightarrow> n * ?g \<le> (j - L) * ?g"
      using w time_Sub_less_iff [of "window t"] by (simp add: min_duration_def bucket_start_diff n flip: not_less)
    with g show ?thesis by auto
  qed
  have fw0: "\<not> time_IsZero (bucket_start ?g F)"
    using bucket_start_pos [OF t F(2)] by (simp add: time_IsZero_def max_duration_def)
  have ord: "time_After (bucket_start ?g a) (bucket_start ?g b) \<longleftrightarrow> b < a"
    "bucket_start ?g a = bucket_start ?g b \<longleftrightarrow> a = b" for a b
    using g by (simp_all add: time_After_def bucket_start_less bucket_start_eq)
  have same: "t\<lparr>firstWrite := bucket_start ?g F\<rparr> = t" using F(1) by (cases t) simp
  have n0: "0 < n" using w(4) n by simp
  note start = Record_def Let_def Truncate_aligned [OF t] timeToIndex_aligned [OF t now] j [symmetric]
  consider "j + n \<le> L" | "\<not> j + n \<le> L" "j \<le> L" | "L + n \<le> j" | "L < j" "\<not> L + n \<le> j"
    by linarith
  then show ?thesis
  proof cases
    case 1
    with n0 show ?thesis by (simp add: start L after ord)
  next
    case 2
    with n0 F show ?thesis
      by (simp add: start L after ord fw0 min_def same)
  next
    case 3
    with n0 F show ?thesis by (simp add: start L after ord fw0 sub)
  next
    case 4
    with n0 F show ?thesis by (simp add: start L after ord fw0 sub index_start_aligned [OF t L0])
  qed
qed

section \<open>The operations implement the abstract window\<close>

lemma ring_index_inj:
  "0 < n \<Longrightarrow> i \<in> {L - n<..L} \<Longrightarrow> j \<in> {L - n<..L} \<Longrightarrow> nat (i mod n) = nat (j mod n) \<longleftrightarrow> i = j"
  using ring_bij [of n L] unfolding bij_betw_def by (auto dest: inj_onD)

lemma ring_index_less: "0 < length bs \<Longrightarrow> nat (i mod int (length bs)) < length bs"
  by (simp add: nat_less_iff)

lemma ring_rel_add:
  assumes "ring_rel bs L h" "0 < length bs" "j \<in> {L - int (length bs)<..L}"
  shows "ring_rel (bs[nat (j mod int (length bs)) := bs ! nat (j mod int (length bs)) + v]) L (h(j := h j + v))"
proof -
  have "nat (j mod int (length bs)) = nat (i mod int (length bs)) \<longleftrightarrow> j = i"
    if "i \<in> {L - int (length bs)<..L}" for i
    using assms(2,3) that by (intro ring_index_inj) simp_all
  with assms ring_index_less [OF assms(2)] show ?thesis
    by (simp add: ring_rel_def nth_list_update)
qed

lemma ring_rel_reset: "0 < length bs \<Longrightarrow> ring_rel (map (\<lambda>_. 0) bs) j (\<lambda>_. 0)"
  by (simp add: ring_rel_def nat_less_iff)

lemma ring_rel_advance:
  assumes "ring_rel bs L h" "0 < length bs" "L < j" "j < L + int (length bs)" "length bs' = length bs"
    and clr: "\<forall>p < length bs. bs' ! p = (if \<exists>i. L + 1 \<le> i \<and> i \<le> j \<and> nat (i mod int (length bs)) = p then 0 else bs ! p)"
  shows "ring_rel bs' j h"
proof -
  let ?n = "int (length bs)"
  have "bs' ! nat (i mod ?n) = h i" if i: "i \<in> {j - ?n<..j}" for i
  proof (cases "L < i")
    case True
    with assms(1) have "h i = 0" by (simp add: ring_rel_def)
    with clr True i ring_index_less [OF assms(2)] show ?thesis by (simp, metis add1_zle_eq)
  next
    case False
    have "nat (i' mod ?n) \<noteq> nat (i mod ?n)" if "L + 1 \<le> i'" "i' \<le> j" for i'
      using ring_index_inj [of ?n i' j i] that i False assms by auto
    with clr ring_index_less [OF assms(2)] have "bs' ! nat (i mod ?n) = bs ! nat (i mod ?n)" by auto
    also have "\<dots> = h i" using assms(1,3) i False by (simp add: ring_rel_def)
    finally show ?thesis .
  qed
  with assms show ?thesis by (auto simp: ring_rel_def)
qed

lemma addValue_ok:
  assumes "0 < length (buckets t)" "0 \<le> j" "p = nat (j mod int (length (buckets t)))"
  shows "addValue t j v = Inr (t\<lparr>buckets := (buckets t)[p := buckets t ! p + v], windowTotal := windowTotal t + v\<rparr>)"
  using assms by (simp add: addValue_def)

lemma window_rel_addValue:
  assumes t: "aligned t" "windowTotal t = sum_list (buckets t)"
    and f: "firstWrite t = bucket_start (granularity t) F" "0 \<le> F" "F \<le> L"
    and l: "lastWrite t = bucket_start (granularity t) L" "ring_rel (buckets t) L h"
    and j: "0 \<le> j" "j \<in> {L - int (length (buckets t))<..L}"
  shows "\<exists>t'. addValue t j v = Inr t' \<and>
    window_rel t' (Some \<lparr>wl_first = F, wl_last = L, wl_hist = h(j := h j + v)\<rparr>) \<and>
    granularity t' = granularity t \<and> window t' = window t \<and> length (buckets t') = length (buckets t)"
proof -
  note ne = window_in_duration(4) [OF t(1)]
  have "aligned (t\<lparr>buckets := bs, windowTotal := x\<rparr>)" if "length bs = length (buckets t)" for bs x
    using t(1) that by (simp add: aligned_def)
  with t f l j ring_rel_add [OF l(2) ne j(2)] show ?thesis
    by (simp add: addValue_ok [OF ne j(1) refl] window_rel_def sum_list_update_group ring_index_less [OF ne])
qed

lemma bucket_index_nonneg: "aligned t \<Longrightarrow> 0 \<le> time_Unix now \<Longrightarrow> 0 \<le> bucket_index (granularity t) now"
  by (erule alignedE) (simp add: bucket_index_def granularity_secs pos_imp_zdiv_nonneg_iff)

lemma aligned_cong:
  "granularity t' = granularity t \<Longrightarrow> window t' = window t \<Longrightarrow> length (buckets t') = length (buckets t) \<Longrightarrow>
   aligned t' = aligned t"
  by (simp add: aligned_def)

text \<open>The three ways in which \<open>Record\<close> prepares the ring before it adds the value: starting over, writing to
  an older bucket, and moving on to a later one.\<close>

definition restarted :: "RequestsBuckets \<Rightarrow> int \<Rightarrow> RequestsBuckets" where
  "restarted t j = t\<lparr>firstWrite := bucket_start (granularity t) j, buckets := map (\<lambda>_. 0) (buckets t), windowTotal := 0,
     lastWrite := bucket_start (granularity t) j\<rparr>"

abbreviation records_as :: "RequestsBuckets \<Rightarrow> window_log \<Rightarrow> fault + RequestsBuckets \<Rightarrow> bool" where
  "records_as t l x \<equiv> \<exists>t'. x = Inr t' \<and> window_rel t' (Some l) \<and> granularity t' = granularity t \<and> window t' = window t \<and>
     length (buckets t') = length (buckets t)"

lemma records_restart:
  assumes "aligned t" "0 \<le> j"
  shows "records_as t \<lparr>wl_first = j, wl_last = j, wl_hist = (\<lambda>_. 0)(j := v)\<rparr> (addValue (restarted t j) j v)"
proof -
  note w = window_in_duration [OF assms(1)]
  have "aligned (restarted t j)" unfolding restarted_def using assms(1) by (subst aligned_cong [of _ t]) simp_all
  then show ?thesis
    using window_rel_addValue [of "restarted t j" j j "\<lambda>_. 0" j v] assms(2) w(4) ring_rel_reset [OF w(4)]
    by (simp add: restarted_def sum_list_replicate map_replicate_const)
qed

lemma records_late:
  assumes rel: "window_rel t (Some l)" and j: "0 \<le> j" "j \<le> wl_last l" "wl_last l < j + int (length (buckets t))"
  shows "records_as t \<lparr>wl_first = min (wl_first l) j, wl_last = max (wl_last l) j, wl_hist = (wl_hist l)(j := wl_hist l j + v)\<rparr>
    (addValue (t\<lparr>firstWrite := bucket_start (granularity t) (min (wl_first l) j)\<rparr>) j v)"
proof -
  note r = window_rel_SomeD [OF rel]
  let ?t = "t\<lparr>firstWrite := bucket_start (granularity t) (min (wl_first l) j)\<rparr>"
  have "aligned ?t" using r(1) by (subst aligned_cong [of _ t]) simp_all
  then show ?thesis
    using j window_rel_addValue [of ?t "min (wl_first l) j" "wl_last l" "wl_hist l" j v] r window_in_duration(4) [OF r(1)]
    by (simp add: max_def)
qed

lemma records_later:
  assumes rel: "window_rel t (Some l)" and j: "wl_last l < j" "j < wl_last l + int (length (buckets t))"
  shows "records_as t \<lparr>wl_first = min (wl_first l) j, wl_last = max (wl_last l) j, wl_hist = (wl_hist l)(j := wl_hist l j + v)\<rparr>
    (case clear_loop (wl_last l + 1) j (buckets t) (windowTotal t) of
       Inl f \<Rightarrow> Inl f
     | Inr (bs, tot) \<Rightarrow> addValue (t\<lparr>buckets := bs, windowTotal := tot, lastWrite := bucket_start (granularity t) j\<rparr>) j v)"
proof -
  note r = window_rel_SomeD [OF rel]
  let ?n = "int (length (buckets t))" and ?L = "wl_last l"
  note w = window_in_duration [OF r(1)]
  obtain bs tot where c: "clear_loop (?L + 1) j (buckets t) (windowTotal t) = Inr (bs, tot)"
    "length bs = length (buckets t)" "tot - sum_list bs = windowTotal t - sum_list (buckets t)"
    "\<forall>p < length (buckets t). bs ! p =
      (if \<exists>i. ?L + 1 \<le> i \<and> i \<le> j \<and> nat (i mod ?n) = p then 0 else buckets t ! p)"
    using clear_loop_ok [OF w(4), of "?L + 1" j "windowTotal t"] r(5,6) by auto
  let ?t = "t\<lparr>buckets := bs, windowTotal := tot, lastWrite := bucket_start (granularity t) j\<rparr>"
  have "aligned ?t" using r(1) c(2) by (subst aligned_cong [of _ t]) simp_all
  moreover have "ring_rel bs j (wl_hist l)"
    using ring_rel_advance [OF r(7) w(4) _ _ c(2) c(4)] j by simp
  ultimately show ?thesis
    using j w(4) window_rel_addValue [of ?t "wl_first l" j "wl_hist l" j v] r c by (simp add: max_def min_def)
qed

lemma Record_simulates:
  assumes rel: "window_rel t s" and now: "0 \<le> time_Unix now"
  shows "\<exists>t'. Record t now v = Inr t' \<and>
    window_rel t' (log_record (int (length (buckets t))) (bucket_index (granularity t) now) v s) \<and>
    granularity t' = granularity t \<and> window t' = window t \<and> length (buckets t') = length (buckets t)"
proof (cases s)
  case None
  note r = window_rel_NoneD [OF rel [unfolded None]]
  let ?j = "bucket_index (granularity t) now"
  note w = window_in_duration [OF r(1)]
  have j: "0 \<le> ?j" using r(1) now by (rule bucket_index_nonneg)
  have "max_duration < bucket_start (granularity t) ?j" using r(1) j by (rule bucket_start_pos)
  then have "Record t now v = addValue (restarted t ?j) ?j v"
    using w by (simp add: Record_def Let_def Truncate_aligned [OF r(1)] timeToIndex_aligned [OF r(1) now] r restarted_def
        time_defs time_Sub_def max_duration_def min_duration_def)
  with records_restart [OF r(1) j, of v] show ?thesis by (simp add: None log_record_def)
next
  case (Some l)
  note r = window_rel_SomeD [OF rel [unfolded Some]]
  let ?j = "bucket_index (granularity t) now" and ?n = "int (length (buckets t))" and ?L = "wl_last l"
  have n: "0 < ?n" using window_in_duration(4) [OF r(1)] by simp
  have j: "0 \<le> ?j" using r(1) now by (rule bucket_index_nonneg)
  note rec = Record_index [OF r(1) now r(3,5,6,4) refl refl, of v, folded restarted_def]
  consider (old) "?j + ?n \<le> ?L" | (late) "\<not> ?j + ?n \<le> ?L" "?j \<le> ?L" | (idle) "?L + ?n \<le> ?j" "\<not> ?j + ?n \<le> ?L" "\<not> ?j \<le> ?L"
    | (later) "\<not> ?j + ?n \<le> ?L" "\<not> ?j \<le> ?L" "\<not> ?L + ?n \<le> ?j" using n by linarith
  then show ?thesis
  proof cases
    case old
    with rec rel Some show ?thesis by (simp add: log_record_def)
  next
    case late
    with rec records_late [OF rel [unfolded Some] j, of v] show ?thesis by (simp add: Some log_record_def)
  next
    case idle
    with rec records_restart [OF r(1) j, of v] show ?thesis by (simp add: Some log_record_def)
  next
    case later
    with rec records_later [OF rel [unfolded Some], of ?j v] show ?thesis by (simp add: Some log_record_def)
  qed
qed

definition log_average :: "int \<Rightarrow> int \<Rightarrow> window_log option \<Rightarrow> f64" where
  "log_average n c s =
     (case s of
        None \<Rightarrow> 0
      | Some l \<Rightarrow>
          if wl_last l + n \<le> c then 0
          else roundToNDigits precision
                 (f64_round (f64_of_int (sint (log_sum n (max c (wl_last l)) l)) /
                             of_int (min (wl_last l - wl_first l + 1) n))))"

lemma validBuckets_aligned:
  assumes rel: "window_rel t (Some l)"
  shows "validBuckets t = Inr (of_int (min (wl_last l - wl_first l + 1) (int (length (buckets t)))))"
proof -
  note r = window_rel_SomeD [OF rel]
  note w = window_in_duration [OF r(1)]
  let ?g = "granularity t" and ?m = "wl_last l - wl_first l" and ?n = "int (length (buckets t))"
  define q where "q = time_Sub (lastWrite t) (firstWrite t) div ?g"
  have g: "second \<le> ?g" using r(1) by (rule alignedE) (simp add: nanosecond_per_second_def)
  then have g0: "0 < ?g" using second_pos by linarith
  have m: "0 \<le> ?m" using r(6) by simp
  have sub: "time_Sub (lastWrite t) (firstWrite t) = min max_duration (?m * ?g)"
    unfolding time_Sub_def r(3,4) bucket_start_diff
    using mult_nonneg_nonneg [OF m less_imp_le [OF g0]]
    by (intro max_absorb2) (simp add: min_duration_def max_duration_def)
  have q: "q = ?m \<or> (?n \<le> q \<and> ?n \<le> ?m)"
  proof (cases "?m * ?g \<le> max_duration")
    case True
    with g0 show ?thesis by (simp add: q_def sub)
  next
    case False
    have "?n * ?g div ?g \<le> max_duration div ?g" using w(2,3) g0 by (intro zdiv_mono1) simp_all
    then have "?n \<le> max_duration div ?g" using g0 by simp
    moreover have "?n * ?g < ?m * ?g" using False w(2,3) by simp
    ultimately show ?thesis using False g0 by (simp add: q_def sub)
  qed
  have q0: "0 \<le> q" using m g0 by (simp add: q_def sub pos_imp_zdiv_nonneg_iff max_duration_def)
  have "q \<le> max_duration div ?g" using g0 by (simp add: q_def sub zdiv_mono1)
  also have "\<dots> \<le> max_duration div second" using g by (intro zdiv_mono2) (simp_all add: max_duration_def)
  finally have q1: "q + 1 \<le> 2 ^ 53" by (simp add: max_duration_def nanosecond_per_second_def)
  have "?n * second \<le> ?n * ?g" using g by (intro mult_left_mono) simp_all
  then have "?n * second < max_duration" using w(2,3) by linarith
  then have n1: "?n \<le> 2 ^ 53" by (simp add: max_duration_def nanosecond_per_second_def)
  have "go_div (time_Sub (lastWrite t) (firstWrite t)) ?g = Inr q"
    using m g0 by (simp add: q_def sub max_duration_def)
  moreover have "f64_add (f64_of_int q) 1 = of_int (q + 1)"
    using q0 q1 f64_round_of_int [of "q + 1"] by (simp add: f64_add_def)
  ultimately show ?thesis using q n1 by (auto simp: validBuckets_def min_def)
qed

lemma outdated_sum:
  assumes r: "ring_rel bs L h" "0 < length bs" and c: "L < c" "c < L + int (length bs)"
  shows "sum_list bs - (\<Sum>i\<in>{L + 1..c}. bs ! nat (i mod int (length bs))) = (\<Sum>i\<in>{c - int (length bs)<..L}. h i)"
proof -
  let ?n = "int (length bs)" and ?b = "\<lambda>i. bs ! nat (i mod int (length bs))"
  have "(\<Sum>i\<in>{L + 1..c}. ?b i) = (\<Sum>i\<in>{L - ?n<..c - ?n}. ?b i)"
    by (rule sum.reindex_bij_witness [of _ "\<lambda>i. i + ?n" "\<lambda>i. i - ?n"]) auto
  moreover have "{L - ?n<..L} = {L - ?n<..c - ?n} \<union> {c - ?n<..L}" using c by auto
  then have "(\<Sum>i\<in>{L - ?n<..L}. ?b i) = (\<Sum>i\<in>{L - ?n<..c - ?n}. ?b i) + (\<Sum>i\<in>{c - ?n<..L}. ?b i)"
    by (simp add: sum.union_disjoint [symmetric] disjnt_iff)
  moreover have "(\<Sum>i\<in>{c - ?n<..L}. ?b i) = (\<Sum>i\<in>{c - ?n<..L}. h i)"
    using r(1) c by (intro sum.cong) (auto simp: ring_rel_def)
  ultimately show ?thesis using ring_sum [OF r(2), of L] by simp
qed

lemma f64_div_count: "0 < m \<Longrightarrow> f64_div x (of_int m) = Inr (f64_round (x / of_int m))"
  by (simp add: f64_div_def)

lemma WindowAverage_simulates:
  assumes rel: "window_rel t s" and now: "0 \<le> time_Unix now"
  shows "WindowAverage t now = Inr (log_average (int (length (buckets t))) (bucket_index (granularity t) now) s)"
proof (cases s)
  case None
  note r = window_rel_NoneD [OF rel [unfolded None]]
  note w = window_in_duration [OF r(1)]
  have "max_duration < bucket_start (granularity t) (bucket_index (granularity t) now)"
    using r(1) now by (intro bucket_start_pos bucket_index_nonneg)
  with w show ?thesis
    by (simp add: None log_average_def WindowAverage_def Truncate_aligned [OF r(1)] r(4) time_Sub_def
        max_duration_def min_duration_def)
next
  case (Some l)
  note r = window_rel_SomeD [OF rel [unfolded Some]]
  note w = window_in_duration [OF r(1)] and g = aligned_granularity_pos [OF r(1)]
  let ?g = "granularity t" and ?c = "bucket_index (granularity t) now" and ?n = "int (length (buckets t))"
  let ?L = "wl_last l" and ?m = "min (wl_last l - wl_first l + 1) (int (length (buckets t)))"
  have m: "0 < ?m" using r(6) w(4) by simp
  have c: "0 \<le> ?c" using r(1) now by (rule bucket_index_nonneg)
  have d0: "time_Sub (bucket_start ?g ?c) (bucket_start ?g ?L) \<le> 0 \<longleftrightarrow> ?c \<le> ?L"
    using g by (simp add: time_Sub_def bucket_start_diff min_duration_def max_duration_def min_le_iff_disj mult_le_0_iff)
  have dw: "time_Sub (bucket_start ?g ?c) (bucket_start ?g ?L) < window t \<longleftrightarrow> ?c < ?L + ?n"
  proof -
    have "time_Sub (bucket_start ?g ?c) (bucket_start ?g ?L) < window t \<longleftrightarrow> (?c - ?L) * ?g < ?n * ?g"
      using w time_Sub_less_iff [of "window t"] by (simp add: min_duration_def bucket_start_diff)
    with g show ?thesis by auto
  qed
  note avg = WindowAverage_def Let_def Truncate_aligned [OF r(1)] r(4) d0 dw
    validBuckets_aligned [OF rel [unfolded Some]] f64_div_count [OF m] log_average_def Some
  consider "?c \<le> ?L" | "?L < ?c" "?c < ?L + ?n" | "?L + ?n \<le> ?c" by linarith
  then show ?thesis
  proof cases
    case 1
    have "windowTotal t = (\<Sum>i\<in>{?L - ?n<..?L}. wl_hist l i)"
      unfolding r(2) ring_sum [OF w(4), of ?L, symmetric] using r(7) by (intro sum.cong) (auto simp: ring_rel_def)
    moreover have "\<not> ?L + ?n \<le> ?c" using 1 w(4) by linarith
    ultimately show ?thesis using 1 by (simp add: avg log_sum_def max_def)
  next
    case 2
    have "0 \<le> ?L" using r(5,6) by simp
    with 2 c w(4) r(2) outdated_sum [OF r(7) w(4)] show ?thesis
      by (simp add: avg log_sum_def max_def index_start_aligned [OF r(1)] outdated_loop_ok [OF w(4)])
  next
    case 3
    with w(4) have "\<not> ?c \<le> ?L" "\<not> ?c < ?L + ?n" by linarith+
    with 3 show ?thesis by (simp add: avg)
  qed
qed


section \<open>Runs of the buffer\<close>

text \<open>A buffer after a sequence of calls \<open>Record(now, v)\<close>.\<close>

fun record_all :: "RequestsBuckets \<Rightarrow> (instant \<times> go_int) list \<Rightarrow> fault + RequestsBuckets" where
  "record_all t [] = Inr t"
| "record_all t ((now, v) # evs) =
     (case Record t now v of Inl f \<Rightarrow> Inl f | Inr t' \<Rightarrow> record_all t' evs)"

definition log_run :: "int \<Rightarrow> duration \<Rightarrow> (instant \<times> go_int) list \<Rightarrow> window_log option \<Rightarrow> window_log option" where
  "log_run n g evs s = foldl (\<lambda>s (now, v). log_record n (bucket_index g now) v s) s evs"

lemma log_run_simps [simp]:
  "log_run n g [] s = s"
  "log_run n g ((now, v) # evs) s = log_run n g evs (log_record n (bucket_index g now) v s)"
  "log_run n g (evs @ [(now, v)]) s = log_record n (bucket_index g now) v (log_run n g evs s)"
  by (simp_all add: log_run_def)

lemma record_all_refines:
  assumes "window_rel t s" "\<forall>(now, v)\<in>set evs. 0 \<le> time_Unix now"
  shows "\<exists>t'. record_all t evs = Inr t' \<and>
    window_rel t' (log_run (int (length (buckets t))) (granularity t) evs s) \<and>
    granularity t' = granularity t \<and> length (buckets t') = length (buckets t)"
  using assms
proof (induction evs arbitrary: t s)
  case Nil
  then show ?case by simp
next
  case (Cons e evs)
  obtain now v where e: "e = (now, v)" by force
  obtain t1 where t1: "Record t now v = Inr t1"
    "window_rel t1 (log_record (int (length (buckets t))) (bucket_index (granularity t) now) v s)"
    "granularity t1 = granularity t" "length (buckets t1) = length (buckets t)"
    using Record_simulates [OF Cons.prems(1), of now v] Cons.prems(2) e by auto
  with Cons.IH [OF t1(2)] Cons.prems(2) e show ?case by simp
qed

text \<open>The total of the values recorded for one index, and what the log keeps of it: everything in
  the last \<open>n\<close> indices, whatever the order in which the calls arrived.\<close>

definition recorded :: "duration \<Rightarrow> (instant \<times> go_int) list \<Rightarrow> int \<Rightarrow> go_int" where
  "recorded g evs i = sum_list (map snd (filter (\<lambda>(now, v). bucket_index g now = i) evs))"

lemma recorded_simps [simp]:
  "recorded g [] i = 0"
  "recorded g (evs @ [(now, v)]) i = recorded g evs i + (if bucket_index g now = i then v else 0)"
  by (simp_all add: recorded_def)

lemma recorded_outside: "\<forall>(now, v)\<in>set evs. bucket_index g now \<noteq> i \<Longrightarrow> recorded g evs i = 0"
  by (auto simp: recorded_def filter_empty_conv split_beta)

definition log_holds :: "int \<Rightarrow> duration \<Rightarrow> (instant \<times> go_int) list \<Rightarrow> window_log \<Rightarrow> bool" where
  "log_holds n g evs l \<longleftrightarrow>
     wl_last l = Max ((\<lambda>(now, v). bucket_index g now) ` set evs) \<and> wl_first l \<le> wl_last l \<and>
     (\<forall>i > wl_last l - n. wl_hist l i = recorded g evs i)"

lemma log_record_holds:
  assumes "0 < n" "log_holds n g evs l" "evs \<noteq> []"
  shows "\<exists>l'. log_record n (bucket_index g now) v (Some l) = Some l' \<and> log_holds n g (evs @ [(now, v)]) l'"
proof -
  let ?j = "bucket_index g now"
  have L: "wl_last l = Max ((\<lambda>(now, v). bucket_index g now) ` set evs)" "wl_first l \<le> wl_last l"
    using assms(2) by (auto simp: log_holds_def)
  have h: "wl_hist l i = recorded g evs i" if "wl_last l - n < i" for i
    using assms(2) that by (simp add: log_holds_def)
  have max: "Max ((\<lambda>(now, v). bucket_index g now) ` set (evs @ [(now, v)])) = max ?j (wl_last l)"
    using assms(3) by (simp add: L Max_insert)
  have "bucket_index g tm \<le> wl_last l" if "(tm, x) \<in> set evs" for tm x
    using that by (force simp: L(1) intro!: Max_ge)
  then have out: "recorded g evs i = 0" if "wl_last l < i" for i
    using that by (intro recorded_outside) fastforce
  have lh: "log_holds n g (evs @ [(now, v)]) l' \<longleftrightarrow> wl_last l' = max ?j (wl_last l) \<and> wl_first l' \<le> wl_last l' \<and>
    (\<forall>i > wl_last l' - n. wl_hist l' i = recorded g evs i + (if ?j = i then v else 0))" for l'
    unfolding log_holds_def max by simp
  consider "?j + n \<le> wl_last l" | "wl_last l + n \<le> ?j" | "\<not> ?j + n \<le> wl_last l" "\<not> wl_last l + n \<le> ?j"
    by linarith
  then show ?thesis
  proof cases
    case 1
    with assms(1) h L(2) show ?thesis by (auto simp: log_record_def lh)
  next
    case 2
    with assms(1) out show ?thesis by (auto simp: log_record_def lh)
  next
    case 3
    with assms(1) h L(2) show ?thesis by (auto simp: log_record_def lh)
  qed
qed

lemma log_run_holds:
  assumes "0 < n" "evs \<noteq> []"
  shows "\<exists>l. log_run n g evs None = Some l \<and> log_holds n g evs l"
  using assms(2)
proof (induction evs rule: rev_induct)
  case Nil
  then show ?case by simp
next
  case (snoc e evs)
  obtain now v where e: "e = (now, v)" by force
  show ?case
  proof (cases "evs = []")
    case True
    then show ?thesis by (simp add: e log_record_def log_holds_def recorded_def)
  next
    case False
    with snoc.IH log_record_holds [OF assms(1), of g evs _ now v] e show ?thesis by auto
  qed
qed

lemma log_sum_recorded:
  assumes "log_holds n g evs l" "wl_last l \<le> c" "evs \<noteq> []"
  shows "log_sum n c l = sum_list (map snd (filter (\<lambda>(now, v). c - n < bucket_index g now) evs))"
proof -
  have fin: "bucket_index g now \<le> wl_last l" if "(now, v) \<in> set evs" for now v
    using assms that by (force simp: log_holds_def intro!: Max_ge)
  have "log_sum n c l = (\<Sum>i\<in>{c - n<..wl_last l}. recorded g evs i)"
    unfolding log_sum_def
  proof (rule sum.cong)
    fix i assume "i \<in> {c - n<..wl_last l}"
    with assms(2) have "wl_last l - n < i" by simp
    with assms(1) show "wl_hist l i = recorded g evs i" by (simp add: log_holds_def)
  qed simp
  also have "\<dots> = sum_list (map snd (filter (\<lambda>(now, v). c - n < bucket_index g now) evs))"
    using fin
  proof (induction evs rule: rev_induct)
    case Nil
    then show ?case by simp
  next
    case (snoc e evs)
    obtain now v where e: "e = (now, v)" by force
    with snoc show ?case by (auto simp: sum.distrib)
  qed
  finally show ?thesis .
qed

lemma NewRequestsBuckets_aligned:
  assumes "g = k * second" "0 < k" "k dvd unix_offset" "w = int n * g" "0 < n" "w < 2 ^ 53"
  shows "\<exists>t. NewRequestsBuckets w g = Inr t \<and> window_rel t None \<and> granularity t = g \<and> length (buckets t) = n"
proof -
  have g: "0 < g" using assms by simp
  then have "1 * g \<le> int n * g" using assms(5) g by (intro mult_right_mono) simp_all
  then have gw: "g < 2 ^ 53" using assms(4,6) by linarith
  have w0: "0 < w" using assms g by simp
  have q: "(of_int w / of_int g :: rat) = of_int (int n)" using assms(4) g by simp
  have "\<lceil>f64_round (of_int w / of_int g)\<rceil> = int n"
    using ceiling_f64_quotient [of w g] w0 g assms(6) unfolding q by simp
  then have "NewRequestsBuckets w g = Inr \<lparr>buckets = replicate n 0, firstWrite = 0, lastWrite = 0,
      granularity = g, window = w, windowTotal = 0\<rparr>" (is "_ = Inr ?t")
    using g gw w0 assms(6) by (simp add: NewRequestsBuckets_def f64_div_def math_ceil_def f64_to_int_def)
  moreover have "aligned ?t"
    using assms granularity_secs [of k] by (simp add: aligned_def Let_def max_duration_def)
  ultimately show ?thesis by (simp add: window_rel_def sum_list_replicate)
qed


lemma window_empty_iff:
  assumes "log_holds n g evs l" "evs \<noteq> []"
  shows "wl_last l + n \<le> c \<longleftrightarrow> filter (\<lambda>(now, v). c - n < bucket_index g now) evs = []"
proof
  have m: "wl_last l = Max ((\<lambda>(now, v). bucket_index g now) ` set evs)" using assms(1) by (simp add: log_holds_def)
  have le: "bucket_index g tm \<le> wl_last l" if "(tm, x) \<in> set evs" for tm x
    using that by (force simp: m intro!: Max_ge)
  show "wl_last l + n \<le> c \<Longrightarrow> filter (\<lambda>(now, v). c - n < bucket_index g now) evs = []"
    by (fastforce simp: filter_empty_conv dest: le)
  have "wl_last l \<in> (\<lambda>(now, v). bucket_index g now) ` set evs" unfolding m using assms(2) by (intro Max_in) simp_all
  then show "filter (\<lambda>(now, v). c - n < bucket_index g now) evs = [] \<Longrightarrow> wl_last l + n \<le> c"
    by (fastforce simp: filter_empty_conv)
qed

lemma bucket_index_mono:
  assumes "0 < g div second" "tm \<le> now"
  shows "bucket_index g tm \<le> bucket_index g now"
  using assms by (simp add: bucket_index_def time_Unix_def zdiv_mono1)

lemma log_average_recorded:
  assumes "log_run n g evs None = Some l" "log_holds n g evs l" "evs \<noteq> []" "wl_last l \<le> c"
    "vals = map snd (filter (\<lambda>(tm, v). c - n < bucket_index g tm) evs)"
  shows "log_average n c (log_run n g evs None) =
    (if vals = [] then 0 else roundToNDigits precision (f64_round
       (f64_of_int (sint (sum_list vals)) / of_int (min (wl_last l - wl_first l + 1) n))))"
  using assms window_empty_iff [OF assms(2,3), of c] log_sum_recorded [OF assms(2,4,3)]
  by (simp add: log_average_def max_def)

section \<open>Properties\<close>

text \<open>C3: the request rate is right. For a granularity of \<open>k\<close> whole seconds (\<open>k\<close> dividing the
  seconds before 1970) and a window of \<open>n\<close> buckets, after any sequence of \<open>Record\<close> calls at
  instants up to \<open>now\<close>, in any order, nothing panics and \<open>WindowAverage(now)\<close> is the sum of
  exactly the values recorded in the last \<open>n\<close> buckets, divided by a number of buckets between 1
  and \<open>n\<close> and cut to three digits, or 0 when there are none.\<close>

theorem request_rate_correct:
  assumes cfg: "g = k * second" "0 < k" "k dvd unix_offset" "w = int n * g" "0 < n" "w < 2 ^ 53"
    and evs: "\<forall>(tm, v)\<in>set evs. 0 \<le> time_Unix tm \<and> tm \<le> now" and now: "0 \<le> time_Unix now"
    and vals: "vals = map snd (filter (\<lambda>(tm, v). bucket_index g now - int n < bucket_index g tm) evs)"
  shows "\<exists>t0 t m. NewRequestsBuckets w g = Inr t0 \<and> record_all t0 evs = Inr t \<and> 1 \<le> m \<and> m \<le> int n \<and>
    WindowAverage t now =
      Inr (if vals = [] then 0
           else roundToNDigits precision (f64_round (f64_of_int (sint (sum_list vals)) / of_int m)))"
proof -
  obtain t0 where t0: "NewRequestsBuckets w g = Inr t0" "window_rel t0 None" "granularity t0 = g" "length (buckets t0) = n"
    using NewRequestsBuckets_aligned [OF cfg] by blast
  obtain t where t: "record_all t0 evs = Inr t" "window_rel t (log_run (int n) g evs None)" "granularity t = g"
    "length (buckets t) = n"
    using record_all_refines [OF t0(2), of evs] evs t0(3,4) by fastforce
  have avg: "WindowAverage t now = Inr (log_average (int n) (bucket_index g now) (log_run (int n) g evs None))"
    using WindowAverage_simulates [OF t(2) now] t(3,4) by simp
  show ?thesis
  proof (cases "evs = []")
    case True
    with t0(1) t(1) avg vals cfg(5) show ?thesis by (auto simp: log_average_def intro!: exI [of _ 1])
  next
    case False
    obtain l where l: "log_run (int n) g evs None = Some l" "log_holds (int n) g evs l"
      using log_run_holds [of "int n" evs g] False cfg(5) by auto
    have "0 < g div second" using cfg(1,2) by (simp add: granularity_secs)
    then have "wl_last l \<le> bucket_index g now"
      using l(2) False evs by (auto simp: log_holds_def intro!: bucket_index_mono)
    then have "log_average (int n) (bucket_index g now) (log_run (int n) g evs None) = (if vals = [] then 0
        else roundToNDigits precision (f64_round (f64_of_int (sint (sum_list vals)) /
               of_int (min (wl_last l - wl_first l + 1) (int n)))))"
      using log_average_recorded [OF l False _ vals] by simp
    moreover have "1 \<le> min (wl_last l - wl_first l + 1) (int n)" using l(2) cfg(5) by (simp add: log_holds_def)
    ultimately show ?thesis using t0(1) t(1) avg by (auto intro!: exI [of _ "min (wl_last l - wl_first l + 1) (int n)"])
  qed
qed

theorem request_rate_correct_witness:
  "\<exists>t0 t m. NewRequestsBuckets (60 * second) second = Inr t0 \<and>
    record_all t0 [((unix_offset + 1000) * second, 7), ((unix_offset + 1050) * second, 2),
                   ((unix_offset + 1055) * second, 3)] = Inr t \<and> 1 \<le> m \<and> m \<le> 60 \<and>
    WindowAverage t ((unix_offset + 1070) * second) =
      Inr (roundToNDigits precision (f64_round (f64_of_int 5 / of_int m)))"
  using request_rate_correct [of second 1 "60 * second" 60
      "[((unix_offset + 1000) * second, 7), ((unix_offset + 1050) * second, 2), ((unix_offset + 1055) * second, 3)]"
      "(unix_offset + 1070) * second" "[2, 3]"]
  by (simp add: bucket_index_def time_Unix_def unix_offset_def nanosecond_per_second_def)

text \<open>C11: every \<open>Record\<close> on a buffer that represents an abstract window succeeds and gives a
  buffer that represents the abstract window with the value recorded.\<close>

theorem Record_refines:
  assumes "window_rel t s" "0 \<le> time_Unix now"
  shows "\<exists>t'. Record t now v = Inr t' \<and>
    window_rel t' (log_record (int (length (buckets t))) (bucket_index (granularity t) now) v s) \<and>
    granularity t' = granularity t \<and> window t' = window t \<and> length (buckets t') = length (buckets t)"
  using assms by (rule Record_simulates)

theorem Record_refines_witness:
  "\<exists>t'. Record \<lparr>buckets = [0, 0], firstWrite = 0, lastWrite = 0, granularity = second, window = 2 * second,
      windowTotal = 0\<rparr> ((unix_offset + 5) * second) 3 = Inr t' \<and>
    window_rel t' (Some \<lparr>wl_first = 5, wl_last = 5, wl_hist = (\<lambda>_. 0)(5 := 3)\<rparr>)"
  using Record_refines [of "\<lparr>buckets = [0, 0], firstWrite = 0, lastWrite = 0, granularity = second,
      window = 2 * second, windowTotal = 0\<rparr>" None "(unix_offset + 5) * second" 3]
  by (auto simp: window_rel_def [of _ None] aligned_def log_record_def bucket_index_def time_Unix_def max_duration_def
      nanosecond_per_second_def unix_offset_def)

lemma f64_round_999999999: "f64_round (999999999 / 1000000000) < 1" "f64_round (f64_round (999999999 / 1000000000)) < 1"
  by code_simp+

text \<open>With a granularity below one second every \<open>Record\<close> divides by zero: the seconds of the
  granularity are cut to the integer 0 before they divide the Unix time.\<close>

theorem subsecond_granularity_panics:
  assumes "0 \<le> granularity t" "granularity t < second"
  shows "Record t now v = Inl DivideByZero"
proof -
  let ?g = "granularity t"
  have "(of_int ?g / 1000000000 :: rat) \<le> 999999999 / 1000000000"
    using assms(2) by (simp add: nanosecond_per_second_def divide_right_mono)
  then have 1: "f64_round (of_int ?g / 1000000000) \<le> f64_round (999999999 / 1000000000)"
    using assms(1) by (intro f64_round_mono) simp_all
  have 0: "0 \<le> f64_round (of_int ?g / 1000000000)" using assms(1) by (intro f64_round_nonneg) simp
  have "f64_round (f64_round (of_int ?g / 1000000000)) < 1"
    using f64_round_mono [OF 0 1] f64_round_999999999(2) by simp
  moreover have "duration_Seconds ?g = f64_round (f64_round (of_int ?g / 1000000000))"
    using assms by (simp add: duration_Seconds_def f64_add_def sdiv_nonneg smod_nonneg nanosecond_per_second_def)
  ultimately have "f64_to_int (duration_Seconds ?g) = 0"
    using f64_round_nonneg [OF 0] by (simp add: f64_to_int_def floor_unique)
  then show ?thesis by (simp add: Record_def Let_def timeToIndex_def go_div_def)
qed

theorem subsecond_granularity_panics_witness:
  "Record \<lparr>buckets = replicate 10 0, firstWrite = 0, lastWrite = 0, granularity = 500 * millisecond,
      window = 5 * second, windowTotal = 0\<rparr> ((unix_offset + 5) * second) 1 = Inl DivideByZero"
  by (rule subsecond_granularity_panics) (simp_all add: millisecond_def nanosecond_per_second_def)

declare clear_loop.simps [code] outdated_loop.simps [code]


lemma math_pow10_3 [simp]: "math_pow10 precision = 1000"
  by code_simp

text \<open>the rounding of \<open>WindowAverage\<close> cuts at most one thousandth off an average, up to three
  units of the relative error of a \<open>float64\<close>.\<close>

theorem roundToNDigits_bounds:
  assumes "0 \<le> f"
  shows "f - 1 / 1000 - 3 * f / 2 ^ 53 \<le> roundToNDigits precision f \<and>
    roundToNDigits precision f \<le> f + 3 * f / 2 ^ 53"
proof -
  define y where "y = f64_round (f * 1000)"
  define x where "x = (of_int \<lfloor>y\<rfloor> :: rat) / 1000"
  have r: "roundToNDigits precision f = f64_round x"
    by (simp add: roundToNDigits_def Let_def f64_mul_def math_floor_def x_def y_def)
  have y: "f * 1000 * (1 - 1 / 2 ^ 53) \<le> y" "y \<le> f * 1000 * (1 + 1 / 2 ^ 53)" "0 \<le> y"
    unfolding y_def using assms f64_round_bounds [of "f * 1000"] by (simp_all add: f64_round_nonneg)
  have x: "0 \<le> x" "x \<le> y / 1000" "y / 1000 - 1 / 1000 \<le> x"
    unfolding x_def using y(3) of_int_floor_le [of y] real_of_int_floor_add_one_ge
    by (simp_all add: field_simps) linarith
  have "x * (1 - 1 / 2 ^ 53) \<le> f64_round x" "f64_round x \<le> x * (1 + 1 / 2 ^ 53)"
    using f64_round_bounds [OF x(1)] by simp_all
  then show ?thesis using x y assms unfolding r by (simp add: field_simps)
qed

theorem roundToNDigits_bounds_witness:
  "roundToNDigits precision (7 / 3) \<le> 7 / 3 + 3 * (7 / 3) / 2 ^ 53 \<and>
   7 / 3 - 1 / 1000 - 3 * (7 / 3) / 2 ^ 53 \<le> roundToNDigits precision (7 / 3)"
  using roundToNDigits_bounds [of "7 / 3"] by simp

lemma roundToNDigits_of_int:
  assumes "\<bar>m\<bar> \<le> 2 ^ 43"
  shows "roundToNDigits precision (of_int m) = of_int m"
proof -
  have "f64_round (of_int (m * 1000)) = of_int (m * 1000)" using assms by (intro f64_round_of_int) simp
  then have "f64_mul (of_int m) 1000 = of_int (m * 1000)" by (simp add: f64_mul_def)
  then show ?thesis using assms f64_round_of_int [of m]
    by (simp add: roundToNDigits_def Let_def math_floor_def)
qed

end
