(* ===== verification/Buckets_Safe.thy ===== *)
theory Buckets_Safe
  imports Buckets_Refine
begin

text \<open>
  When the ring buffer of \<^verbatim>\<open>pkg/queue/bucketing.go\<close> does not panic, aligned or not: a buffer is
  healthy when it has a bucket, a granularity of at least one second and was last written either
  never or after 1970. \<open>NewRequestsBuckets\<close> gives a healthy buffer for every positive window and
  every granularity of a second or more, and \<open>Record\<close> on a healthy buffer returns a healthy buffer.
\<close>

definition healthy :: "RequestsBuckets \<Rightarrow> bool" where
  "healthy t \<longleftrightarrow> buckets t \<noteq> [] \<and> second \<le> granularity t \<and> window t \<le> max_duration \<and>
     firstWrite t \<le> lastWrite t \<and> (lastWrite t = 0 \<or> 0 \<le> time_Unix (lastWrite t))"

text \<open>Instants that a wall clock shows: one granularity after 1970.\<close>

definition wall_clock :: "duration \<Rightarrow> instant \<Rightarrow> bool" where
  "wall_clock g now \<longleftrightarrow> unix_offset * second + g \<le> now"

lemma healthyD:
  assumes "healthy t"
  shows "buckets t \<noteq> []" "0 < length (buckets t)" "second \<le> granularity t" "0 < granularity t"
    "window t \<le> max_duration"
  using assms second_pos by (auto simp: healthy_def simp del: second_pos)

lemma duration_Seconds_ge_1:
  assumes "second \<le> g"
  shows "1 \<le> duration_Seconds g"
proof -
  have g: "0 \<le> g" using assms second_pos by linarith
  have "1 \<le> g div second" using zdiv_mono1 [OF assms, of second] by simp
  then have "f64_round (of_int 1) \<le> f64_of_int (g div second)"
    unfolding f64_of_int_def by (intro f64_round_mono) simp_all
  then have 1: "1 \<le> f64_of_int (g div second)" using f64_round_of_int [of 1] by simp
  have "0 \<le> f64_of_int (g mod second) / f64_of_int second"
    unfolding f64_of_int_def by (intro divide_nonneg_nonneg f64_round_nonneg) (simp_all add: less_imp_le)
  then have 2: "0 \<le> f64_round (f64_of_int (g mod second) / f64_of_int second)" by (rule f64_round_nonneg)
  have "f64_round (of_int 1) \<le> duration_Seconds g"
    unfolding duration_Seconds_def f64_add_def using 1 2 g
    by (intro f64_round_mono) (simp_all add: sdiv_nonneg smod_nonneg)
  then show ?thesis using f64_round_of_int [of 1] by simp
qed

lemma timeToIndex_healthy:
  assumes "second \<le> granularity t" "0 \<le> time_Unix tm"
  shows "\<exists>i. timeToIndex t tm = Inr i \<and> 0 \<le> i"
proof -
  let ?s = "f64_to_int (duration_Seconds (granularity t))"
  have "1 \<le> ?s" using duration_Seconds_ge_1 [OF assms(1)] by (simp add: f64_to_int_def le_floor_iff)
  with assms(2) show ?thesis by (simp add: timeToIndex_def pos_imp_zdiv_nonneg_iff)
qed

lemma addValue_healthy:
  assumes "healthy t" "0 \<le> i"
  shows "\<exists>t'. addValue t i v = Inr t' \<and> healthy t' \<and> window t' = window t \<and> granularity t' = granularity t"
  using healthyD [OF assms(1)] assms by (simp add: addValue_ok healthy_def)

lemma wall_clock_Truncate:
  assumes "second \<le> g" "wall_clock g now"
  shows "0 \<le> time_Unix now" "0 \<le> time_Unix (time_Truncate now g)" "max_duration < time_Truncate now g"
proof -
  have g: "0 < g" using assms(1) second_pos by linarith
  have le: "unix_offset * second \<le> now - g" using assms(2) by (simp add: wall_clock_def)
  also have "now - g \<le> time_Truncate now g" using g by (simp add: time_Truncate_def less_imp_le)
  finally have tr: "unix_offset * second \<le> time_Truncate now g" .
  then have "unix_offset \<le> time_Truncate now g div second"
    using zdiv_mono1 [OF tr, of second] by simp
  then show "0 \<le> time_Unix (time_Truncate now g)" by (simp add: time_Unix_def)
  have "unix_offset \<le> now div second" using le g zdiv_mono1 [of "unix_offset * second" now second] by simp
  then show "0 \<le> time_Unix now" by (simp add: time_Unix_def)
  show "max_duration < time_Truncate now g"
    using tr by (simp add: max_duration_def unix_offset_def nanosecond_per_second_def)
qed

lemma Record_healthy:
  assumes t: "healthy t" and now: "wall_clock (granularity t) now"
  shows "\<exists>t'. Record t now v = Inr t' \<and> healthy t' \<and> window t' = window t \<and> granularity t' = granularity t"
proof -
  let ?b = "time_Truncate now (granularity t)"
  note h = healthyD [OF t]
  note b = wall_clock_Truncate [OF h(3) now]
  obtain i where i: "timeToIndex t now = Inr i" "0 \<le> i" using timeToIndex_healthy [OF h(3) b(1)] by blast
  have ok: "\<exists>t'. addValue u i v = Inr t' \<and> healthy t' \<and> window t' = window t \<and> granularity t' = granularity t"
    if "healthy u" "window u = window t" "granularity u = granularity t" for u
    using addValue_healthy [OF that(1) i(2)] that by simp
  show ?thesis
  proof (cases "lastWrite t \<noteq> ?b \<and> time_After ?b (lastWrite t) \<and> \<not> window t \<le> time_Sub ?b (lastWrite t)
      \<and> time_After (time_Add ?b (window t)) (lastWrite t)")
    case True
    then have "lastWrite t \<noteq> 0"
      using b(3) h(5) by (auto simp: time_Sub_def max_duration_def min_duration_def)
    then have l: "0 \<le> time_Unix (lastWrite t)" using t by (simp add: healthy_def)
    have idx: "timeToIndex (t\<lparr>firstWrite := f\<rparr>) x = timeToIndex t x" for f x by (simp add: timeToIndex_def)
    obtain j where j: "timeToIndex t (lastWrite t) = Inr j" "0 \<le> j" using timeToIndex_healthy [OF h(3) l] by blast
    obtain bs tot where c: "clear_loop (j + 1) i (buckets t) (windowTotal t) = Inr (bs, tot)"
      "length bs = length (buckets t)"
      using clear_loop_ok [OF h(2), of "j + 1" i "windowTotal t"] j(2) by auto
    have "firstWrite t \<le> ?b" using t True by (simp add: healthy_def time_After_def)
    then have "healthy (t\<lparr>buckets := bs, windowTotal := tot, lastWrite := ?b\<rparr>)"
      "healthy (t\<lparr>firstWrite := ?b, buckets := bs, windowTotal := tot, lastWrite := ?b\<rparr>)"
      using t c(2) b(2) by (auto simp: healthy_def)
    with True i j c ok show ?thesis by (simp add: Record_def Let_def idx)
  next
    case False
    have "healthy t" "\<not> time_After ?b (lastWrite t) \<Longrightarrow> healthy (t\<lparr>firstWrite := ?b\<rparr>)"
      "healthy (t\<lparr>firstWrite := ?b, buckets := replicate (length (buckets t)) 0, windowTotal := 0, lastWrite := ?b\<rparr>)"
      using t b(2) by (auto simp: healthy_def time_After_def)
    note h3 = this
    consider "lastWrite t = ?b" | "\<not> time_After (time_Add ?b (window t)) (lastWrite t)"
      | "\<not> time_After ?b (lastWrite t)" | "window t \<le> time_Sub ?b (lastWrite t)" "time_After ?b (lastWrite t)"
      using False by blast
    then show ?thesis using h3 i ok by cases (simp_all add: Record_def Let_def map_replicate_const)
  qed
qed

lemma validBuckets_healthy:
  assumes "healthy t"
  shows "\<exists>m. validBuckets t = Inr m \<and> 1 \<le> m"
proof -
  note h = healthyD [OF assms]
  have "0 \<le> time_Sub (lastWrite t) (firstWrite t)"
    using assms by (simp add: healthy_def time_Sub_def max_duration_def le_max_iff_disj)
  then obtain q where q: "go_div (time_Sub (lastWrite t) (firstWrite t)) (granularity t) = Inr q" "0 \<le> q"
    using h(4) by (simp add: pos_imp_zdiv_nonneg_iff)
  have "f64_round (of_int 1) \<le> f64_of_int (int (length (buckets t)))"
    unfolding f64_of_int_def using h(2) by (intro f64_round_mono) (simp_all add: Suc_le_eq)
  moreover have "0 \<le> f64_of_int q" using q(2) by (simp add: f64_of_int_def f64_round_nonneg)
  then have "f64_round (of_int 1) \<le> f64_add (f64_of_int q) 1"
    unfolding f64_add_def by (intro f64_round_mono) simp_all
  ultimately show ?thesis using q f64_round_of_int [of 1] by (simp add: validBuckets_def)
qed

lemma WindowAverage_healthy:
  assumes t: "healthy t" and now: "wall_clock (granularity t) now"
  shows "\<exists>a. WindowAverage t now = Inr a"
proof -
  let ?b = "time_Truncate now (granularity t)"
  note h = healthyD [OF t]
  note b = wall_clock_Truncate [OF h(3) now]
  obtain m where m: "validBuckets t = Inr m" "m \<noteq> 0" using validBuckets_healthy [OF t] by force
  obtain i where i: "timeToIndex t ?b = Inr i" using timeToIndex_healthy [OF h(3) b(2)] by blast
  show ?thesis
  proof (cases "time_Sub ?b (lastWrite t) < window t")
    case True
    then have "lastWrite t \<noteq> 0" using b(3) h(5) by (auto simp: time_Sub_def max_duration_def min_duration_def)
    then have "0 \<le> time_Unix (lastWrite t)" using t by (simp add: healthy_def)
    then obtain j where "timeToIndex t (lastWrite t) = Inr j" "0 \<le> j" using timeToIndex_healthy [OF h(3)] by blast
    with True i m show ?thesis by (simp add: WindowAverage_def Let_def f64_div_def outdated_loop_ok [OF h(2)])
  next
    case False
    with m show ?thesis by (simp add: WindowAverage_def Let_def f64_div_def)
  qed
qed

lemma f64_round_pos: "0 < x \<Longrightarrow> 0 < f64_round x"
  using f64_round_sandwich(1) [of x] zero_less_power_int [of "2 :: rat" "f64_exp x"] by linarith

lemma NewRequestsBuckets_healthy:
  assumes "0 < w" "w \<le> max_duration" "second \<le> g"
  shows "\<exists>t. NewRequestsBuckets w g = Inr t \<and> healthy t \<and> window t = w \<and> granularity t = g"
proof -
  have g: "0 < g" using assms(3) second_pos by linarith
  let ?q = "f64_round (f64_of_int w / f64_of_int g)"
  have fg: "0 < f64_of_int g" "0 < f64_of_int w" using g assms(1) by (simp_all add: f64_of_int_def f64_round_pos)
  then have "0 < ?q" by (intro f64_round_pos) simp
  then have "1 \<le> \<lceil>?q\<rceil>" by linarith
  then show ?thesis using fg assms
    by (simp add: NewRequestsBuckets_def f64_div_def math_ceil_def f64_to_int_def healthy_def)
qed

end
