(* ===== verification/Queue_Memory.thy ===== *)
theory Queue_Memory
  imports Buckets_Safe
begin

text \<open>
  \<^verbatim>\<open>pkg/queue/queue.go\<close> and \<^verbatim>\<open>pkg/queue/queue_counts.go\<close>: the in-memory counter of pending
  requests and request rates per HTTPScaledObject. The mutex of \<open>Memory\<close> makes each method one
  step. A method returns the state it leaves behind together with its outcome; a fault is a panic,
  which in the goroutine of the counting middleware ends the process. After a panic inside
  \<open>Record\<close> the buffer is given as it was before the call.

  \<open>counter\<close> is the interface \<open>Counter\<close> that the routing table and the counting middleware rely on,
  interpreted on \<open>Memory\<close>.
\<close>

section \<open>The data and the operations\<close>

record Count =
  Concurrency :: go_int
  RPS :: f64

type_synonym Counts = "(string, Count) gomap"

definition NewCounts :: Counts where
  "NewCounts = []"

definition Aggregate :: "Counts \<Rightarrow> Count" where
  "Aggregate q =
     foldl (\<lambda>res (k, c). \<lparr>Concurrency = Concurrency res + Concurrency c, RPS = f64_add (RPS res) (RPS c)\<rparr>)
       \<lparr>Concurrency = 0, RPS = 0\<rparr> q"

record Memory =
  concurrentMap :: "(string, go_int) gomap"
  rpsMap :: "string \<rightharpoonup> RequestsBuckets"

definition NewMemory :: Memory where
  "NewMemory = \<lparr>concurrentMap = [], rpsMap = Map.empty\<rparr>"

text \<open>\<open>r.rpsMap[host].Record\<close> on an absent key dereferences a nil pointer, after the concurrency
  has been changed.\<close>

definition Increase :: "Memory \<Rightarrow> string \<Rightarrow> go_int \<Rightarrow> instant \<Rightarrow> Memory \<times> (fault + go_error option)" where
  "Increase r host delta now =
     (let current = (case map_of (concurrentMap r) host of None \<Rightarrow> 0 | Some c \<Rightarrow> c);
          r = r\<lparr>concurrentMap := AList.update host (current + delta) (concurrentMap r)\<rparr>
      in case rpsMap r host of
           None \<Rightarrow> (r, Inl NilDereference)
         | Some b \<Rightarrow>
             (case Record b now delta of
                Inl f \<Rightarrow> (r, Inl f)
              | Inr b' \<Rightarrow> (r\<lparr>rpsMap := (rpsMap r)(host \<mapsto> b')\<rparr>, Inr None)))"

definition Decrease :: "Memory \<Rightarrow> string \<Rightarrow> go_int \<Rightarrow> Memory \<times> (fault + go_error option)" where
  "Decrease r host delta =
     (case map_of (concurrentMap r) host of
        None \<Rightarrow> (r, Inr None)
      | Some current \<Rightarrow>
          (let newVal = current - delta;
               newVal = (if newVal <s 0 then 0 else newVal)
           in (r\<lparr>concurrentMap := AList.update host newVal (concurrentMap r)\<rparr>, Inr None)))"

definition EnsureKey :: "Memory \<Rightarrow> string \<Rightarrow> duration \<Rightarrow> duration \<Rightarrow> Memory \<times> (fault + unit)" where
  "EnsureKey r host w g =
     (let r = (if map_of (concurrentMap r) host = None
               then r\<lparr>concurrentMap := AList.update host 0 (concurrentMap r)\<rparr> else r)
      in if rpsMap r host = None then
           (case NewRequestsBuckets w g of
              Inl f \<Rightarrow> (r, Inl f)
            | Inr b \<Rightarrow> (r\<lparr>rpsMap := (rpsMap r)(host \<mapsto> b)\<rparr>, Inr ()))
         else (r, Inr ()))"

definition UpdateBuckets :: "Memory \<Rightarrow> string \<Rightarrow> duration \<Rightarrow> duration \<Rightarrow> Memory \<times> (fault + unit)" where
  "UpdateBuckets r host w g =
     (case EnsureKey r host w g of
        (r, Inl f) \<Rightarrow> (r, Inl f)
      | (r, Inr _) \<Rightarrow>
          (case rpsMap r host of
             None \<Rightarrow> (r, Inr ())
           | Some b \<Rightarrow>
               if window b \<noteq> w \<or> granularity b \<noteq> g then
                 (case NewRequestsBuckets w g of
                    Inl f \<Rightarrow> (r, Inl f)
                  | Inr b' \<Rightarrow> (r\<lparr>rpsMap := (rpsMap r)(host \<mapsto> b')\<rparr>, Inr ()))
               else (r, Inr ())))"

definition RemoveKey :: "Memory \<Rightarrow> string \<Rightarrow> Memory \<times> bool" where
  "RemoveKey r host =
     (r\<lparr>concurrentMap := AList.delete host (concurrentMap r), rpsMap := (rpsMap r)(host := None)\<rparr>,
      map_of (concurrentMap r) host \<noteq> None \<and> rpsMap r host \<noteq> None)"

text \<open>The loop of \<open>Current\<close>. Each iteration reads the clock: \<open>clk key\<close> is what it shows.\<close>

fun current_loop :: "(string \<rightharpoonup> RequestsBuckets) \<Rightarrow> (string \<Rightarrow> instant) \<Rightarrow> (string, go_int) gomap \<Rightarrow> Counts \<Rightarrow>
    fault + Counts result" where
  "current_loop rps clk [] cts = Inr (Inr cts)"
| "current_loop rps clk ((key, concurrency) # rest) cts =
     (case rps key of
        None \<Rightarrow> Inr (Inl (ErrMsg (''rps map doesn'' @ [CHR 0x27] @ ''t contain the key '' @ [CHR 0x27] @ key @ [CHR 0x27])))
      | Some rpsItem \<Rightarrow>
          (case WindowAverage rpsItem (clk key) of
             Inl f \<Rightarrow> Inl f
           | Inr rate \<Rightarrow>
               current_loop rps clk rest
                 (AList.update key \<lparr>Concurrency = concurrency, RPS = rate\<rparr> cts)))"

definition Current :: "Memory \<Rightarrow> (string \<Rightarrow> instant) \<Rightarrow> fault + Counts result" where
  "Current r clk = current_loop (rpsMap r) clk (concurrentMap r) NewCounts"

section \<open>The invariant of the counter\<close>

text \<open>A configuration of the request rate that no operation panics on: a positive window and a
  granularity between one second and one year. \<open>clock_ok\<close> holds of every instant after 1970.\<close>

definition year :: duration where
  "year = 365 * 24 * 60 * minute"

definition good_config :: "duration \<Rightarrow> duration \<Rightarrow> bool" where
  "good_config w g \<longleftrightarrow> 0 < w \<and> w \<le> max_duration \<and> second \<le> g \<and> g \<le> year"

definition clock_ok :: "instant \<Rightarrow> bool" where
  "clock_ok now \<longleftrightarrow> unix_offset * second + year \<le> now"

definition memory_inv :: "Memory \<Rightarrow> bool" where
  "memory_inv r \<longleftrightarrow> distinct (map fst (concurrentMap r)) \<and> dom (map_of (concurrentMap r)) = dom (rpsMap r) \<and>
     (\<forall>b\<in>ran (rpsMap r). healthy b \<and> granularity b \<le> year)"

definition memory_conc :: "Memory \<Rightarrow> string \<rightharpoonup> go_int" where
  "memory_conc r = map_of (concurrentMap r)"

definition memory_config :: "Memory \<Rightarrow> string \<rightharpoonup> duration \<times> duration" where
  "memory_config r = map_option (\<lambda>b. (window b, granularity b)) \<circ> rpsMap r"

lemmas memory_defs = memory_inv_def memory_conc_def memory_config_def

lemma memory_inv_new: "memory_inv NewMemory"
  by (simp add: memory_inv_def NewMemory_def)

lemma memory_inv_rps:
  assumes "memory_inv r" "memory_conc r h = Some c"
  obtains b where "rpsMap r h = Some b" "healthy b" "granularity b \<le> year"
proof -
  have "h \<in> dom (rpsMap r)" using assms by (auto simp: memory_defs)
  then obtain b where "rpsMap r h = Some b" by blast
  with assms(1) that show thesis by (auto simp: memory_inv_def ran_def)
qed

lemma memory_rps_None: "memory_inv r \<Longrightarrow> rpsMap r h = None \<longleftrightarrow> memory_conc r h = None"
  unfolding memory_inv_def memory_conc_def by (metis domIff)

lemma clock_ok_wall: "clock_ok now \<Longrightarrow> g \<le> year \<Longrightarrow> wall_clock g now"
  by (simp add: clock_ok_def wall_clock_def)

lemma ran_upd_subset: "b \<in> ran (m(k \<mapsto> v)) \<Longrightarrow> b = v \<or> b \<in> ran m"
  by (auto simp: ran_def split: if_splits)

lemma memory_inv_set_rps:
  assumes "memory_inv r" "memory_conc r h \<noteq> None" "healthy b" "granularity b \<le> year"
  shows "memory_inv (r\<lparr>rpsMap := (rpsMap r)(h \<mapsto> b)\<rparr>)"
  using assms by (auto simp: memory_defs dest: ran_upd_subset)

lemma memory_inv_set_conc:
  assumes "memory_inv r" "memory_conc r h \<noteq> None"
  shows "memory_inv (r\<lparr>concurrentMap := AList.update h c (concurrentMap r)\<rparr>)"
  using assms by (auto simp: memory_defs)

lemma Increase_spec:
  assumes "memory_inv r" "memory_conc r h = Some c" "clock_ok now"
  shows "\<exists>r'. Increase r h d now = (r', Inr None) \<and> memory_inv r' \<and>
    memory_conc r' = (memory_conc r)(h \<mapsto> c + d) \<and> memory_config r' = memory_config r"
proof -
  obtain b where b: "rpsMap r h = Some b" "healthy b" "granularity b \<le> year"
    using assms(1,2) by (rule memory_inv_rps)
  obtain b' where b': "Record b now d = Inr b'" "healthy b'" "window b' = window b" "granularity b' = granularity b"
    using Record_healthy [OF b(2) clock_ok_wall [OF assms(3) b(3)]] by blast
  let ?r = "r\<lparr>concurrentMap := AList.update h (c + d) (concurrentMap r)\<rparr>"
  have "memory_inv ?r" using assms(1,2) by (intro memory_inv_set_conc) simp_all
  then have "memory_inv (?r\<lparr>rpsMap := (rpsMap ?r)(h \<mapsto> b')\<rparr>)"
    by (rule memory_inv_set_rps) (use b' b assms in \<open>simp_all add: memory_conc_def\<close>)
  with b b' assms(2) show ?thesis
    by (auto simp: Increase_def Let_def memory_conc_def memory_config_def)
qed

lemma Decrease_spec:
  assumes "memory_inv r"
  shows "\<exists>r'. Decrease r h d = (r', Inr None) \<and> memory_inv r' \<and>
    memory_conc r' = (case memory_conc r h of None \<Rightarrow> memory_conc r
      | Some c \<Rightarrow> (memory_conc r)(h \<mapsto> (if c - d <s 0 then 0 else c - d))) \<and>
    memory_config r' = memory_config r"
  using assms memory_inv_set_conc [OF assms, of h]
  by (auto simp: Decrease_def Let_def memory_conc_def memory_config_def split: option.splits)

lemma NewRequestsBuckets_good:
  assumes "good_config w g"
  shows "\<exists>b. NewRequestsBuckets w g = Inr b \<and> healthy b \<and> window b = w \<and> granularity b = g \<and> granularity b \<le> year"
  using assms NewRequestsBuckets_healthy [of w g] by (auto simp: good_config_def)

lemma EnsureKey_spec:
  assumes "memory_inv r" "good_config w g"
  shows "\<exists>r'. EnsureKey r h w g = (r', Inr ()) \<and> memory_inv r' \<and>
    memory_conc r' = (if h \<in> dom (memory_conc r) then memory_conc r else (memory_conc r)(h \<mapsto> 0)) \<and>
    memory_config r' = (if h \<in> dom (memory_conc r) then memory_config r else (memory_config r)(h \<mapsto> (w, g)))"
proof (cases "memory_conc r h")
  case None
  obtain b where b: "NewRequestsBuckets w g = Inr b" "healthy b" "window b = w" "granularity b = g" "granularity b \<le> year"
    using NewRequestsBuckets_good [OF assms(2)] by blast
  let ?r = "r\<lparr>concurrentMap := AList.update h 0 (concurrentMap r), rpsMap := (rpsMap r)(h \<mapsto> b)\<rparr>"
  have "memory_inv ?r" using assms(1) b by (auto simp: memory_defs dest: ran_upd_subset)
  with None b assms(1) memory_rps_None [OF assms(1), of h] show ?thesis
    by (auto simp: EnsureKey_def Let_def memory_conc_def memory_config_def domIff)
next
  case (Some c)
  with assms(1) memory_rps_None [OF assms(1), of h] show ?thesis
    by (auto simp: EnsureKey_def Let_def memory_conc_def domIff)
qed

lemma UpdateBuckets_spec:
  assumes "memory_inv r" "good_config w g"
  shows "\<exists>r'. UpdateBuckets r h w g = (r', Inr ()) \<and> memory_inv r' \<and>
    memory_conc r' = (if h \<in> dom (memory_conc r) then memory_conc r else (memory_conc r)(h \<mapsto> 0)) \<and>
    memory_config r' = (memory_config r)(h \<mapsto> (w, g))"
proof -
  obtain r' where r': "EnsureKey r h w g = (r', Inr ())" "memory_inv r'"
    "memory_conc r' = (if h \<in> dom (memory_conc r) then memory_conc r else (memory_conc r)(h \<mapsto> 0))"
    "memory_config r' = (if h \<in> dom (memory_conc r) then memory_config r else (memory_config r)(h \<mapsto> (w, g)))"
    using EnsureKey_spec [OF assms] by blast
  have c: "memory_conc r' h \<noteq> None" using r'(3) by auto
  then obtain b where b: "rpsMap r' h = Some b" using memory_rps_None [OF r'(2), of h] by (cases "rpsMap r' h") simp_all
  obtain n where n: "NewRequestsBuckets w g = Inr n" "healthy n" "window n = w" "granularity n = g" "granularity n \<le> year"
    using NewRequestsBuckets_good [OF assms(2)] by blast
  have "memory_config r' = (memory_config r')(h \<mapsto> (window b, granularity b))"
    using b by (auto simp: memory_config_def fun_eq_iff)
  moreover have "(memory_config r')(h \<mapsto> (w, g)) = (memory_config r)(h \<mapsto> (w, g))" using r'(4) by simp
  moreover have "memory_config (r'\<lparr>rpsMap := (rpsMap r')(h \<mapsto> n)\<rparr>) = (memory_config r')(h \<mapsto> (w, g))"
    using n by (auto simp: memory_config_def)
  moreover have "UpdateBuckets r h w g =
      (if window b = w \<and> granularity b = g then r' else r'\<lparr>rpsMap := (rpsMap r')(h \<mapsto> n)\<rparr>, Inr ())"
    using r'(1) b n by (simp add: UpdateBuckets_def)
  ultimately show ?thesis
    using r'(2,3) memory_inv_set_rps [OF r'(2) c n(2,5)]
    by (cases "window b = w \<and> granularity b = g") (simp_all add: memory_conc_def)
qed

lemma RemoveKey_spec:
  assumes "memory_inv r"
  shows "\<exists>r'. RemoveKey r h = (r', h \<in> dom (memory_conc r)) \<and> memory_inv r' \<and>
    memory_conc r' = (memory_conc r)(h := None) \<and> memory_config r' = (memory_config r)(h := None)"
proof -
  have "ran ((rpsMap r)(h := None)) \<subseteq> ran (rpsMap r)" by (auto simp: ran_def)
  with assms show ?thesis
    using memory_rps_None [OF assms, of h]
    by (auto simp: RemoveKey_def memory_defs domIff)
qed

section \<open>Reading the counts\<close>

lemma current_loop_ok:
  assumes "distinct (map fst m)" "\<forall>(k, c)\<in>set m. \<exists>b. rps k = Some b \<and> WindowAverage b (clk k) = Inr (rate k)"
    "distinct (map fst cts)"
  shows "\<exists>cts'. current_loop rps clk m cts = Inr (Inr cts') \<and> distinct (map fst cts') \<and>
    map_of cts' = map_of cts ++ (\<lambda>k. map_option (\<lambda>c. \<lparr>Concurrency = c, RPS = rate k\<rparr>) (map_of m k))"
  using assms
proof (induction m arbitrary: cts)
  case Nil
  then show ?case by (auto simp: map_add_def)
next
  case (Cons e m)
  obtain k c where e: "e = (k, c)" by force
  have "k \<notin> fst ` set m" using Cons.prems(1) e by simp
  then have k: "map_of m k = None" by (simp add: map_of_eq_None_iff)
  from Cons.prems(2) e obtain b where "rps k = Some b" "WindowAverage b (clk k) = Inr (rate k)" by auto
  with Cons.IH [of "AList.update k \<lparr>Concurrency = c, RPS = rate k\<rparr> cts"] Cons.prems e
  obtain cts' where i: "current_loop rps clk (e # m) cts = Inr (Inr cts')" "distinct (map fst cts')"
    "map_of cts' = (map_of cts)(k \<mapsto> \<lparr>Concurrency = c, RPS = rate k\<rparr>) ++
       (\<lambda>k. map_option (\<lambda>c. \<lparr>Concurrency = c, RPS = rate k\<rparr>) (map_of m k))" by (auto simp: fun_upd_def)
  have "map_of cts' = map_of cts ++ (\<lambda>k. map_option (\<lambda>c. \<lparr>Concurrency = c, RPS = rate k\<rparr>) (map_of (e # m) k))"
    unfolding i(3) e using k by (intro ext) (simp add: map_add_def split: option.split)
  with i show ?case by blast
qed

lemma Current_spec:
  assumes "memory_inv r" "\<forall>k. clock_ok (clk k)"
  shows "\<exists>cts rate. Current r clk = Inr (Inr cts) \<and> distinct (map fst cts) \<and>
    (\<forall>k b. rpsMap r k = Some b \<longrightarrow> WindowAverage b (clk k) = Inr (rate k)) \<and>
    map_of cts = (\<lambda>k. map_option (\<lambda>c. \<lparr>Concurrency = c, RPS = rate k\<rparr>) (memory_conc r k))"
proof -
  define rate where "rate k = projr (WindowAverage (the (rpsMap r k)) (clk k))" for k
  have w: "WindowAverage b (clk k) = Inr (rate k)" if b: "rpsMap r k = Some b" for k b
  proof -
    have "b \<in> ran (rpsMap r)" using b by (rule ranI)
    then have h: "healthy b" "granularity b \<le> year" using assms(1) by (simp_all add: memory_inv_def)
    have "wall_clock (granularity b) (clk k)" using assms(2) h(2) by (simp add: clock_ok_wall)
    then obtain a where "WindowAverage b (clk k) = Inr a" using WindowAverage_healthy [OF h(1)] by blast
    then show ?thesis using b by (simp add: rate_def)
  qed
  have "\<forall>(k, c)\<in>set (concurrentMap r). \<exists>b. rpsMap r k = Some b \<and> WindowAverage b (clk k) = Inr (rate k)"
  proof clarify
    fix k c assume "(k, c) \<in> set (concurrentMap r)"
    then have "memory_conc r k = Some c" using assms(1) by (simp add: memory_defs)
    then obtain b where "rpsMap r k = Some b" using assms(1) by (elim memory_inv_rps)
    with w show "\<exists>b. rpsMap r k = Some b \<and> WindowAverage b (clk k) = Inr (rate k)" by blast
  qed
  moreover have "distinct (map fst (concurrentMap r))" using assms(1) by (simp add: memory_inv_def)
  ultimately show ?thesis
    using w current_loop_ok [of "concurrentMap r" "rpsMap r" clk rate NewCounts]
    by (auto simp: Current_def NewCounts_def memory_conc_def)
qed

lemma current_loop_missing:
  assumes "\<forall>(k, c)\<in>set m. \<forall>b. rps k = Some b \<longrightarrow> (\<exists>a. WindowAverage b (clk k) = Inr a)"
    "(h, c) \<in> set m" "rps h = None"
  shows "\<exists>e. current_loop rps clk m cts = Inr (Inl e)"
  using assms
proof (induction m arbitrary: cts)
  case (Cons e m)
  obtain k x where e: "e = (k, x)" by force
  show ?case
  proof (cases "rps k")
    case None
    then show ?thesis by (simp add: e)
  next
    case (Some b)
    with Cons.prems e have "(h, c) \<in> set m" by auto
    with Some Cons e show ?thesis by fastforce
  qed
qed simp

section \<open>The Counter interface\<close>

text \<open>What a client of \<open>queue.Counter\<close> relies on: \<open>conc\<close> is the concurrency per key, \<open>config\<close> the
  window and granularity of its request rate.\<close>

locale counter =
  fixes inv :: "'s \<Rightarrow> bool"
    and conc :: "'s \<Rightarrow> string \<rightharpoonup> go_int"
    and config :: "'s \<Rightarrow> string \<rightharpoonup> duration \<times> duration"
    and increase :: "'s \<Rightarrow> string \<Rightarrow> go_int \<Rightarrow> instant \<Rightarrow> 's \<times> (fault + go_error option)"
    and decrease :: "'s \<Rightarrow> string \<Rightarrow> go_int \<Rightarrow> 's \<times> (fault + go_error option)"
    and ensure :: "'s \<Rightarrow> string \<Rightarrow> duration \<Rightarrow> duration \<Rightarrow> 's \<times> (fault + unit)"
    and update :: "'s \<Rightarrow> string \<Rightarrow> duration \<Rightarrow> duration \<Rightarrow> 's \<times> (fault + unit)"
    and remove :: "'s \<Rightarrow> string \<Rightarrow> 's \<times> bool"
  assumes increase_law: "inv s \<Longrightarrow> conc s h = Some c \<Longrightarrow> clock_ok now \<Longrightarrow>
      \<exists>s'. increase s h d now = (s', Inr None) \<and> inv s' \<and> conc s' = (conc s)(h \<mapsto> c + d) \<and> config s' = config s"
    and decrease_law: "inv s \<Longrightarrow> \<exists>s'. decrease s h d = (s', Inr None) \<and> inv s' \<and>
      conc s' = (case conc s h of None \<Rightarrow> conc s | Some c \<Rightarrow> (conc s)(h \<mapsto> (if c - d <s 0 then 0 else c - d))) \<and>
      config s' = config s"
    and ensure_law: "inv s \<Longrightarrow> good_config w g \<Longrightarrow> \<exists>s'. ensure s h w g = (s', Inr ()) \<and> inv s' \<and>
      conc s' = (if h \<in> dom (conc s) then conc s else (conc s)(h \<mapsto> 0)) \<and>
      config s' = (if h \<in> dom (conc s) then config s else (config s)(h \<mapsto> (w, g)))"
    and update_law: "inv s \<Longrightarrow> good_config w g \<Longrightarrow> \<exists>s'. update s h w g = (s', Inr ()) \<and> inv s' \<and>
      conc s' = (if h \<in> dom (conc s) then conc s else (conc s)(h \<mapsto> 0)) \<and> config s' = (config s)(h \<mapsto> (w, g))"
    and remove_law: "inv s \<Longrightarrow> \<exists>s'. remove s h = (s', h \<in> dom (conc s)) \<and> inv s' \<and>
      conc s' = (conc s)(h := None) \<and> config s' = (config s)(h := None)"

interpretation mem: counter memory_inv memory_conc memory_config Increase Decrease EnsureKey UpdateBuckets RemoveKey
  by unfold_locales (rule Increase_spec Decrease_spec EnsureKey_spec UpdateBuckets_spec RemoveKey_spec; assumption)+

section \<open>The counter as a finite map\<close>

text \<open>The specification of the counter: a map from keys to a concurrency and the configuration of a
  request rate. An operation is allowed where the program may call it without a panic: an increase only
  on a key that is there.\<close>

datatype counter_op =
    OpIncrease string go_int instant
  | OpDecrease string go_int
  | OpEnsure string duration duration
  | OpUpdate string duration duration
  | OpRemove string

type_synonym counter_spec = "string \<rightharpoonup> go_int \<times> duration \<times> duration"

fun spec_op :: "counter_spec \<Rightarrow> counter_op \<Rightarrow> counter_spec" where
  "spec_op m (OpIncrease k d now) = (case m k of None \<Rightarrow> m | Some (c, wg) \<Rightarrow> m(k \<mapsto> (c + d, wg)))"
| "spec_op m (OpDecrease k d) =
     (case m k of None \<Rightarrow> m | Some (c, wg) \<Rightarrow> m(k \<mapsto> (if c - d <s 0 then 0 else c - d, wg)))"
| "spec_op m (OpEnsure k w g) = (case m k of None \<Rightarrow> m(k \<mapsto> (0, w, g)) | Some _ \<Rightarrow> m)"
| "spec_op m (OpUpdate k w g) = (case m k of None \<Rightarrow> m(k \<mapsto> (0, w, g)) | Some (c, _) \<Rightarrow> m(k \<mapsto> (c, w, g)))"
| "spec_op m (OpRemove k) = m(k := None)"

fun op_allowed :: "counter_spec \<Rightarrow> counter_op \<Rightarrow> bool" where
  "op_allowed m (OpIncrease k d now) \<longleftrightarrow> m k \<noteq> None \<and> clock_ok now"
| "op_allowed m (OpDecrease k d) \<longleftrightarrow> True"
| "op_allowed m (OpEnsure k w g) \<longleftrightarrow> good_config w g"
| "op_allowed m (OpUpdate k w g) \<longleftrightarrow> good_config w g"
| "op_allowed m (OpRemove k) \<longleftrightarrow> True"

fun ops_allowed :: "counter_spec \<Rightarrow> counter_op list \<Rightarrow> bool" where
  "ops_allowed m [] \<longleftrightarrow> True"
| "ops_allowed m (x # xs) \<longleftrightarrow> op_allowed m x \<and> ops_allowed (spec_op m x) xs"

fun memory_op :: "Memory \<Rightarrow> counter_op \<Rightarrow> Memory \<times> (fault + unit)" where
  "memory_op r (OpIncrease k d now) = apsnd (map_sum id (\<lambda>_. ())) (Increase r k d now)"
| "memory_op r (OpDecrease k d) = apsnd (map_sum id (\<lambda>_. ())) (Decrease r k d)"
| "memory_op r (OpEnsure k w g) = EnsureKey r k w g"
| "memory_op r (OpUpdate k w g) = UpdateBuckets r k w g"
| "memory_op r (OpRemove k) = (fst (RemoveKey r k), Inr ())"

fun memory_run :: "Memory \<Rightarrow> counter_op list \<Rightarrow> Memory \<times> (fault + unit)" where
  "memory_run r [] = (r, Inr ())"
| "memory_run r (x # xs) = (case memory_op r x of (r, Inl f) \<Rightarrow> (r, Inl f) | (r, Inr _) \<Rightarrow> memory_run r xs)"

definition memory_abs :: "Memory \<Rightarrow> counter_spec" where
  "memory_abs r k =
     (case memory_conc r k of None \<Rightarrow> None | Some c \<Rightarrow> map_option (Pair c) (memory_config r k))"

lemma memory_abs_dom:
  assumes "memory_inv r"
  shows "memory_abs r k = None \<longleftrightarrow> memory_conc r k = None"
    "memory_conc r k = None \<longleftrightarrow> memory_config r k = None"
  using memory_rps_None [OF assms, of k]
  by (auto simp: memory_abs_def memory_config_def memory_conc_def split: option.splits)

lemma memory_op_refines:
  assumes "memory_inv r" "op_allowed (memory_abs r) x"
  shows "\<exists>r'. memory_op r x = (r', Inr ()) \<and> memory_inv r' \<and> memory_abs r' = spec_op (memory_abs r) x"
proof (cases x)
  case (OpIncrease k d now)
  then obtain c wg where c: "memory_conc r k = Some c" "memory_config r k = Some wg"
    using assms memory_abs_dom [OF assms(1), of k] by auto
  moreover obtain r' where "Increase r k d now = (r', Inr None)" "memory_inv r'"
    "memory_conc r' = (memory_conc r)(k \<mapsto> c + d)" "memory_config r' = memory_config r"
    using Increase_spec [OF assms(1) c(1), of now d] assms(2) OpIncrease by auto
  ultimately show ?thesis using OpIncrease by (intro exI [of _ r'] conjI ext) (simp_all add: memory_abs_def split: option.split)
next
  case (OpDecrease k d)
  then obtain r' where "memory_op r x = (r', Inr ())" "memory_inv r'" "memory_config r' = memory_config r"
    "memory_conc r' = (case memory_conc r k of None \<Rightarrow> memory_conc r
       | Some c \<Rightarrow> (memory_conc r)(k \<mapsto> (if c - d <s 0 then 0 else c - d)))"
    using Decrease_spec [OF assms(1), of k d] by auto
  with OpDecrease memory_abs_dom [OF assms(1), of k] show ?thesis
    by (intro exI [of _ r'] conjI ext) (auto simp: memory_abs_def split: option.split)
next
  case (OpEnsure k w g)
  then obtain r' where "memory_op r x = (r', Inr ())" "memory_inv r'"
    "memory_conc r' = (if k \<in> dom (memory_conc r) then memory_conc r else (memory_conc r)(k \<mapsto> 0))"
    "memory_config r' = (if k \<in> dom (memory_conc r) then memory_config r else (memory_config r)(k \<mapsto> (w, g)))"
    using EnsureKey_spec [OF assms(1), of w g k] assms(2) by auto
  with OpEnsure memory_abs_dom [OF assms(1), of k] show ?thesis
    by (intro exI [of _ r'] conjI ext) (auto simp: memory_abs_def split: option.split)
next
  case (OpUpdate k w g)
  then obtain r' where "memory_op r x = (r', Inr ())" "memory_inv r'" "memory_config r' = (memory_config r)(k \<mapsto> (w, g))"
    "memory_conc r' = (if k \<in> dom (memory_conc r) then memory_conc r else (memory_conc r)(k \<mapsto> 0))"
    using UpdateBuckets_spec [OF assms(1), of w g k] assms(2) by auto
  with OpUpdate memory_abs_dom [OF assms(1), of k] show ?thesis
    by (intro exI [of _ r'] conjI ext) (auto simp: memory_abs_def split: option.split)
next
  case (OpRemove k)
  then obtain r' where "memory_op r x = (r', Inr ())" "memory_inv r'"
    "memory_conc r' = (memory_conc r)(k := None)" "memory_config r' = (memory_config r)(k := None)"
    using RemoveKey_spec [OF assms(1), of k] by auto
  with OpRemove show ?thesis
    by (intro exI [of _ r'] conjI ext) (auto simp: memory_abs_def split: option.split)
qed

lemma memory_run_refines:
  assumes "memory_inv r" "ops_allowed (memory_abs r) xs"
  shows "\<exists>r'. memory_run r xs = (r', Inr ()) \<and> memory_inv r' \<and> memory_abs r' = foldl spec_op (memory_abs r) xs"
  using assms
proof (induction xs arbitrary: r)
  case (Cons x xs)
  then obtain r' where "memory_op r x = (r', Inr ())" "memory_inv r'" "memory_abs r' = spec_op (memory_abs r) x"
    using memory_op_refines [of r x] by auto
  with Cons.IH [of r'] Cons.prems show ?case by simp
qed simp

text \<open>C10: the counter implements a map from keys to concurrencies. Every sequence of operations that
  never increases an absent key and uses valid rate windows runs without a panic or an error, and
  \<open>Current\<close> then returns without an error exactly the keys of that map, each with its concurrency.\<close>

theorem Memory_refines_map:
  assumes "ops_allowed Map.empty ops" "\<And>k. clock_ok (clk k)"
  shows "\<exists>r cts. memory_run NewMemory ops = (r, Inr ()) \<and> Current r clk = Inr (Inr cts) \<and>
    (\<forall>k. map_option Concurrency (map_of cts k) = map_option fst (foldl spec_op Map.empty ops k))"
proof -
  have e: "memory_abs NewMemory = Map.empty" by (rule ext) (simp add: memory_abs_def memory_conc_def NewMemory_def)
  obtain r where r: "memory_run NewMemory ops = (r, Inr ())" "memory_inv r" "memory_abs r = foldl spec_op Map.empty ops"
    using memory_run_refines [OF memory_inv_new, of ops] assms(1) by (auto simp: e)
  obtain cts rate where cts: "Current r clk = Inr (Inr cts)"
    "map_of cts = (\<lambda>k. map_option (\<lambda>c. \<lparr>Concurrency = c, RPS = rate k\<rparr>) (memory_conc r k))"
    using Current_spec [OF r(2)] assms(2) by blast
  have "map_option Concurrency (map_of cts k) = map_option fst (memory_abs r k)" for k
    using memory_abs_dom [OF r(2), of k] by (cases "memory_conc r k") (auto simp: cts(2) memory_abs_def)
  with r cts show ?thesis by metis
qed

theorem Memory_refines_map_witness:
  "\<exists>r cts. memory_run NewMemory [OpEnsure ''a'' minute second, OpIncrease ''a'' 3 (2 ^ 70), OpDecrease ''a'' 1] = (r, Inr ()) \<and>
     Current r (\<lambda>_. 2 ^ 70) = Inr (Inr cts) \<and> map_option Concurrency (map_of cts ''a'') = Some 2"
proof -
  have "clock_ok (2 ^ 70)" "good_config minute second"
    by (simp_all add: clock_ok_def good_config_def year_def minute_def unix_offset_def nanosecond_per_second_def max_duration_def)
  then have "ops_allowed Map.empty [OpEnsure ''a'' minute second, OpIncrease ''a'' 3 (2 ^ 70), OpDecrease ''a'' 1]" by simp
  moreover have "foldl spec_op Map.empty [OpEnsure ''a'' minute second, OpIncrease ''a'' 3 (2 ^ 70), OpDecrease ''a'' 1] ''a'' =
      Some (2, minute, second)"
    by (simp add: word_sless_alt)
  ultimately show ?thesis
    using Memory_refines_map [of "[OpEnsure ''a'' minute second, OpIncrease ''a'' 3 (2 ^ 70), OpDecrease ''a'' 1]" "\<lambda>_. 2 ^ 70"]
      \<open>clock_ok (2 ^ 70)\<close> by (metis fst_conv option.simps(9))
qed

end
