(* ===== verification/Go_Duration.thy ===== *)
theory Go_Duration
  imports Go_Time
begin

text \<open>
  \<open>time.ParseDuration\<close> and \<open>Duration.String\<close>, which the program reads its leader election settings and prints durations
  with. Numbers before and after the decimal point are \<open>uint64\<close>, kept below or at \<open>2 ^ 63\<close> by the checks of the code; only
  their sum can wrap around. The fraction of a unit is computed in floating point.

  The last section shows that what \<open>String\<close> prints is read back by \<open>ParseDuration\<close>, for all \<open>2 ^ 64\<close> durations.
\<close>

section \<open>Parsing\<close>

fun leadingInt :: "nat \<Rightarrow> string \<Rightarrow> (nat \<times> string) option" where
  "leadingInt x [] = Some (x, [])"
| "leadingInt x (c # s) =
     (case digit_val c of
        None \<Rightarrow> Some (x, c # s)
      | Some d \<Rightarrow>
          if 2 ^ 63 div 10 < x then None
          else if 2 ^ 63 < 10 * x + d then None
          else leadingInt (10 * x + d) s)"

fun leadingFraction :: "nat \<Rightarrow> f64 \<Rightarrow> bool \<Rightarrow> string \<Rightarrow> nat \<times> f64 \<times> string" where
  "leadingFraction x scale overflow [] = (x, scale, [])"
| "leadingFraction x scale overflow (c # s) =
     (case digit_val c of
        None \<Rightarrow> (x, scale, c # s)
      | Some d \<Rightarrow>
          if overflow \<or> (2 ^ 63 - 1) div 10 < x \<or> 2 ^ 63 < 10 * x + d then leadingFraction x scale True s
          else leadingFraction (10 * x + d) (f64_mul scale 10) False s)"

definition micro_sign :: string where
  "micro_sign = [CHR 0xC2, CHR 0xB5]"

definition unitMap :: "string \<Rightarrow> nat option" where
  "unitMap u =
     (if u = ''ns'' then Some 1
      else if u = ''us'' \<or> u = micro_sign @ ''s'' \<or> u = [CHR 0xCE, CHR 0xBC] @ ''s'' then Some 1000
      else if u = ''ms'' then Some 1000000
      else if u = ''s'' then Some 1000000000
      else if u = ''m'' then Some 60000000000
      else if u = ''h'' then Some 3600000000000
      else None)"

definition hex_digit :: "nat \<Rightarrow> char" where
  "hex_digit n = (if n < 10 then char_of (48 + n) else char_of (87 + n))"

definition quote_char :: "char \<Rightarrow> string" where
  "quote_char c =
     (let n = of_char c :: nat
      in if 128 \<le> n \<or> n < 32 then [CHR 0x5C, CHR ''x'', hex_digit (n div 16), hex_digit (n mod 16)]
         else if c = CHR 0x22 \<or> c = CHR 0x5C then [CHR 0x5C, c] else [c])"

definition quote :: "string \<Rightarrow> string" where
  "quote s = [CHR 0x22] @ concat (map quote_char s) @ [CHR 0x22]"

definition invalidDuration :: "string \<Rightarrow> go_error" where
  "invalidDuration orig = ErrMsg (''time: invalid duration '' @ quote orig)"

definition number_char :: "char \<Rightarrow> bool" where
  "number_char c \<longleftrightarrow> c = CHR ''.'' \<or> digit_val c \<noteq> None"

text \<open>The optional fraction at the start of \<open>s\<close>: its digits as a number, the power of ten to divide by, the rest, and whether
  there are digits.\<close>

definition parse_fraction :: "string \<Rightarrow> nat \<times> f64 \<times> string \<times> bool" where
  "parse_fraction s =
     (if s \<noteq> [] \<and> hd s = CHR ''.''
      then (case leadingFraction 0 1 False (tl s) of (f, scale, rest) \<Rightarrow> (f, scale, rest, length rest \<noteq> length (tl s)))
      else (0, 1, s, False))"

text \<open>The nanoseconds of \<open>v + f / scale\<close> units.\<close>

definition unit_value :: "nat \<Rightarrow> nat \<Rightarrow> f64 \<Rightarrow> nat \<Rightarrow> nat" where
  "unit_value v f scale unit =
     (if 0 < f then v * unit + nat (f64_to_int (f64_mul (f64_of_int (int f)) (f64_round (f64_of_int (int unit) / scale))))
      else v * unit)"

text \<open>One round of the loop: a number with its unit at the start of \<open>s\<close>, as nanoseconds, and the rest.\<close>

definition parse_component :: "string \<Rightarrow> string \<Rightarrow> (nat \<times> string) result" where
  "parse_component orig s =
     (if s = [] \<or> \<not> number_char (hd s) then Inl (invalidDuration orig)
      else case leadingInt 0 s of
        None \<Rightarrow> Inl (invalidDuration orig)
      | Some (v, s1) \<Rightarrow>
          (case parse_fraction s1 of
             (f, scale, s2, post) \<Rightarrow>
               if length s1 = length s \<and> \<not> post then Inl (invalidDuration orig)
               else if takeWhile (Not \<circ> number_char) s2 = [] then Inl (ErrMsg (''time: missing unit in duration '' @ quote orig))
               else case unitMap (takeWhile (Not \<circ> number_char) s2) of
                 None \<Rightarrow> Inl (ErrMsg (''time: unknown unit '' @ quote (takeWhile (Not \<circ> number_char) s2) @ '' in duration '' @ quote orig))
               | Some unit \<Rightarrow>
                   if 2 ^ 63 div unit < v then Inl (invalidDuration orig)
                   else if 2 ^ 63 < unit_value v f scale unit then Inl (invalidDuration orig)
                   else Inr (unit_value v f scale unit, dropWhile (Not \<circ> number_char) s2)))"

lemma leadingInt_length: "leadingInt x s = Some (v, s') \<Longrightarrow> length s' \<le> length s"
  by (induction x s rule: leadingInt.induct) (auto split: option.splits if_splits)

lemma leadingFraction_length: "leadingFraction x sc ov s = (f, sc', s') \<Longrightarrow> length s' \<le> length s"
  by (induction x sc ov s rule: leadingFraction.induct) (auto split: option.splits if_splits)

lemma parse_fraction_length: "parse_fraction s = (f, scale, rest, post) \<Longrightarrow> length rest \<le> length s"
  using leadingFraction_length [of 0 1 False "tl s"] by (cases s) (auto simp: parse_fraction_def le_SucI split: if_splits prod.splits)

lemma dropWhile_shorter: "takeWhile P s \<noteq> [] \<Longrightarrow> length (dropWhile P s) < length s"
  by (cases s) (auto simp: less_Suc_eq_le length_dropWhile_le split: if_splits)

lemma parse_component_shorter:
  assumes "parse_component orig s = Inr (v, r)"
  shows "length r < length s"
proof -
  obtain n s1 where i: "leadingInt 0 s = Some (n, s1)"
    using assms by (auto simp: parse_component_def split: if_splits option.splits)
  obtain f scale s2 post where f: "parse_fraction s1 = (f, scale, s2, post)" using prod_cases4 by blast
  have "takeWhile (Not \<circ> number_char) s2 \<noteq> []" "r = dropWhile (Not \<circ> number_char) s2"
    using assms i f by (auto simp: parse_component_def split: if_splits option.splits)
  then have "length r < length s2" by (simp add: dropWhile_shorter)
  with parse_fraction_length [OF f] leadingInt_length [OF i] show ?thesis by simp
qed

function parse_components :: "string \<Rightarrow> nat \<Rightarrow> string \<Rightarrow> nat result" where
  "parse_components orig d s =
     (if s = [] then Inr d
      else case parse_component orig s of
        Inl e \<Rightarrow> Inl e
      | Inr vr \<Rightarrow>
          if 2 ^ 63 < (d + fst vr) mod 2 ^ 64 then Inl (invalidDuration orig)
          else parse_components orig ((d + fst vr) mod 2 ^ 64) (snd vr))"
  by pat_completeness auto
termination
  by (relation "measure (length \<circ> snd \<circ> snd)") (auto simp: parse_component_shorter)

declare parse_components.simps [simp del]

definition ParseDuration :: "string \<Rightarrow> duration result" where
  "ParseDuration orig =
     (let (neg, s) = (case orig of [] \<Rightarrow> (False, []) | c # r \<Rightarrow> if c = CHR ''-'' \<or> c = CHR ''+'' then (c = CHR ''-'', r) else (False, orig))
      in if s = ''0'' then Inr 0
         else if s = [] then Inl (invalidDuration orig)
         else case parse_components orig 0 s of
                Inl e \<Rightarrow> Inl e
              | Inr d \<Rightarrow>
                  if neg then Inr (wrap64 (- int d))
                  else if 2 ^ 63 - 1 < d then Inl (invalidDuration orig)
                  else Inr (int d))"

section \<open>Printing\<close>

text \<open>\<open>fmtFrac\<close> writes the digits of the fraction from the last to the first, without the zeros at the end.\<close>

fun fmtFrac_loop :: "nat \<Rightarrow> bool \<Rightarrow> string \<Rightarrow> nat \<Rightarrow> bool \<times> string \<times> nat" where
  "fmtFrac_loop 0 print buf v = (print, buf, v)"
| "fmtFrac_loop (Suc k) print buf v =
     (let digit = v mod 10; print = (print \<or> digit \<noteq> 0)
      in fmtFrac_loop k print (if print then digit_char digit # buf else buf) (v div 10))"

lemma fmtFrac_loop_numeral:
  "fmtFrac_loop (numeral k) print buf v =
     (let digit = v mod 10; print = (print \<or> digit \<noteq> 0)
      in fmtFrac_loop (pred_numeral k) print (if print then digit_char digit # buf else buf) (v div 10))"
  by (simp only: numeral_eq_Suc [of k] fmtFrac_loop.simps)

definition fmtFrac :: "nat \<Rightarrow> nat \<Rightarrow> string \<times> nat" where
  "fmtFrac v prec = (let (print, buf, v) = fmtFrac_loop prec False [] v in (if print then CHR ''.'' # buf else buf, v))"

definition fmtSeconds :: "nat \<Rightarrow> string" where
  "fmtSeconds u =
     (let (frac, u) = fmtFrac u 9;
          buf = show_nat (u mod 60) @ frac @ ''s'';
          u = u div 60
      in if 0 < u then
           (let buf = show_nat (u mod 60) @ ''m'' @ buf; u = u div 60
            in if 0 < u then show_nat u @ ''h'' @ buf else buf)
         else buf)"

definition Duration_String :: "duration \<Rightarrow> string" where
  "Duration_String d =
     (let u = nat \<bar>d\<bar>;
          small = (\<lambda>prec unit. let (frac, u) = fmtFrac u prec in show_nat u @ frac @ unit)
      in if u = 0 then ''0s''
         else (if d < 0 then ''-'' else []) @
           (if u < 1000 then small 0 ''ns''
            else if u < 1000000 then small 3 (micro_sign @ ''s'')
            else if u < 1000000000 then small 6 ''ms''
            else fmtSeconds u))"

section \<open>Reading back what is printed\<close>

text \<open>The number that a string of digits denotes.\<close>

definition dval :: "string \<Rightarrow> nat" where
  "dval s = foldl (\<lambda>a c. 10 * a + the (digit_val c)) 0 s"

definition digits :: "string \<Rightarrow> bool" where
  "digits s \<longleftrightarrow> (\<forall>c\<in>set s. digit_val c \<noteq> None)"

lemma foldl_dval: "foldl (\<lambda>a c. 10 * a + the (digit_val c)) a s = a * 10 ^ length s + dval s"
proof (induction s arbitrary: a)
  case (Cons c s)
  show ?case using Cons [of "10 * a + the (digit_val c)"] Cons [of "the (digit_val c)"]
    by (simp add: dval_def algebra_simps)
qed (simp add: dval_def)

lemma dval_simps [simp]:
  "dval [] = 0" "dval (c # s) = the (digit_val c) * 10 ^ length s + dval s" "dval (s @ [c]) = 10 * dval s + the (digit_val c)"
  using foldl_dval [of "the (digit_val c)" s] by (simp_all add: dval_def)

lemma digits_simps [simp]:
  "digits []" "digits (c # s) \<longleftrightarrow> digit_val c \<noteq> None \<and> digits s" "digits (s @ t) \<longleftrightarrow> digits s \<and> digits t"
  by (auto simp: digits_def)

lemma show_nat_digits_val: "digits (show_nat n) \<and> dval (show_nat n) = n"
proof (induction n rule: show_nat.induct)
  case (1 n)
  then show ?case by (subst (1 2) show_nat.simps) (auto simp: digit_val_char)
qed

lemma leadingInt_digits:
  assumes "digits ds" "x * 10 ^ length ds + dval ds \<le> 2 ^ 63" "r = [] \<or> digit_val (hd r) = None"
  shows "leadingInt x (ds @ r) = Some (x * 10 ^ length ds + dval ds, r)"
  using assms
proof (induction ds arbitrary: x)
  case Nil
  then show ?case by (cases r) auto
next
  case (Cons c ds)
  then obtain d where d: "digit_val c = Some d" by auto
  have eq: "x * 10 ^ length (c # ds) + dval (c # ds) = (10 * x + d) * 10 ^ length ds + dval ds" using d by (simp add: algebra_simps)
  have "10 * x + d \<le> (10 * x + d) * 10 ^ length ds" by simp
  with Cons.prems(2) eq have le: "10 * x + d \<le> 2 ^ 63" by linarith
  then have "x \<le> 2 ^ 63 div 10" by simp
  with le d Cons.prems eq Cons.IH [of "10 * x + d"] show ?case by simp
qed

lemma f64_round_pow10: "k \<le> 15 \<Longrightarrow> f64_round (10 ^ k) = 10 ^ k"
proof -
  assume "k \<le> 15"
  then have "(10::int) ^ k \<le> 10 ^ 15" by (intro power_increasing) auto
  then have "\<bar>(10::int) ^ k\<bar> \<le> 2 ^ 53" by simp
  from f64_round_of_int [OF this] show ?thesis by simp
qed

lemma leadingFraction_digits:
  assumes "digits ds" "x * 10 ^ length ds + dval ds < 10 ^ 9" "k + length ds \<le> 9" "r = [] \<or> digit_val (hd r) = None"
  shows "leadingFraction x (10 ^ k) False (ds @ r) = (x * 10 ^ length ds + dval ds, 10 ^ (k + length ds), r)"
  using assms
proof (induction ds arbitrary: x k)
  case Nil
  then show ?case by (cases r) auto
next
  case (Cons c ds)
  then obtain d where d: "digit_val c = Some d" by auto
  have eq: "x * 10 ^ length (c # ds) + dval (c # ds) = (10 * x + d) * 10 ^ length ds + dval ds" using d by (simp add: algebra_simps)
  have "10 * x + d \<le> (10 * x + d) * 10 ^ length ds" by simp
  with Cons.prems(2) eq have le: "10 * x + d < 10 ^ 9" by linarith
  have "f64_mul (10 ^ k) 10 = 10 ^ Suc k" using Cons.prems(3) f64_round_pow10 [of "Suc k"] by (simp add: f64_mul_def mult.commute)
  with le d Cons.prems eq Cons.IH [of "10 * x + d" "Suc k"] show ?case by simp
qed

text \<open>The digits of a fraction that \<open>fmtFrac\<close> has written so far stand for \<open>m\<close> of \<open>10 ^ i\<close> parts.\<close>

definition frac_inv :: "nat \<Rightarrow> nat \<Rightarrow> bool \<Rightarrow> string \<Rightarrow> bool" where
  "frac_inv i m print buf \<longleftrightarrow> digits buf \<and> length buf \<le> i \<and> dval buf * 10 ^ (i - length buf) = m \<and> (print \<longleftrightarrow> m \<noteq> 0) \<and> (print \<longleftrightarrow> buf \<noteq> [])"

lemma frac_inv_step:
  assumes "frac_inv i m print buf" "d < 10"
  shows "frac_inv (Suc i) (d * 10 ^ i + m) (print \<or> d \<noteq> 0) (if print \<or> d \<noteq> 0 then digit_char d # buf else buf)"
proof (cases "print \<or> d \<noteq> 0")
  case True
  have "d * 10 ^ length buf * 10 ^ (i - length buf) = d * 10 ^ i" using assms(1) by (simp add: frac_inv_def flip: power_add)
  with True assms show ?thesis by (auto simp: frac_inv_def digit_val_char add_mult_distrib)
next
  case False
  with assms show ?thesis by (auto simp: frac_inv_def)
qed

lemma fmtFrac_loop_inv:
  assumes "frac_inv i m print buf" "fmtFrac_loop p print buf v = (print', buf', v')"
  shows "v' = v div 10 ^ p \<and> frac_inv (i + p) (m + 10 ^ i * (v mod 10 ^ p)) print' buf'"
  using assms
proof (induction p arbitrary: i m print buf v)
  case (Suc p)
  have step: "frac_inv (Suc i) (v mod 10 * 10 ^ i + m) (print \<or> v mod 10 \<noteq> 0) (if print \<or> v mod 10 \<noteq> 0 then digit_char (v mod 10) # buf else buf)"
    using Suc.prems(1) by (intro frac_inv_step) simp_all
  from Suc.IH [OF step] Suc.prems(2)
  have "v' = v div 10 div 10 ^ p" "frac_inv (Suc i + p) (v mod 10 * 10 ^ i + m + 10 ^ Suc i * (v div 10 mod 10 ^ p)) print' buf'"
    by (simp_all add: Let_def)
  moreover have "v mod 10 ^ Suc p = v mod 10 + 10 * (v div 10 mod 10 ^ p)" by (simp add: mod_mult2_eq)
  ultimately show ?case by (simp add: div_mult2_eq algebra_simps)
qed simp

lemma fmtFrac_parts:
  obtains ds where "fmtFrac v p = (if v mod 10 ^ p = 0 then [] else CHR ''.'' # ds, v div 10 ^ p)"
    "digits ds" "length ds \<le> p" "dval ds * 10 ^ (p - length ds) = v mod 10 ^ p" "v mod 10 ^ p \<noteq> 0 \<longrightarrow> ds \<noteq> []"
proof -
  obtain pr buf v' where l: "fmtFrac_loop p False [] v = (pr, buf, v')" using prod_cases3 by blast
  have "frac_inv 0 0 False []" by (simp add: frac_inv_def)
  from fmtFrac_loop_inv [OF this l] have "v' = v div 10 ^ p" "frac_inv p (v mod 10 ^ p) pr buf" by simp_all
  then show ?thesis using l by (intro that [of buf]) (auto simp: fmtFrac_def frac_inv_def)
qed

text \<open>The units, whose letters belong to no number.\<close>

definition unit_ok :: "string \<Rightarrow> nat \<Rightarrow> bool" where
  "unit_ok u n \<longleftrightarrow> u \<noteq> [] \<and> unitMap u = Some n \<and> (\<forall>c\<in>set u. \<not> number_char c)"

lemma unit_ok_units:
  "unit_ok ''ns'' 1" "unit_ok (micro_sign @ ''s'') 1000" "unit_ok ''ms'' 1000000" "unit_ok ''s'' 1000000000"
  "unit_ok ''m'' 60000000000" "unit_ok ''h'' 3600000000000"
  by (simp_all add: unit_ok_def unitMap_def micro_sign_def number_char_def digit_val_def)

definition next_number :: "string \<Rightarrow> bool" where
  "next_number r \<longleftrightarrow> r = [] \<or> number_char (hd r)"

lemma split_unit:
  assumes "unit_ok u n" "next_number r"
  shows "takeWhile (Not \<circ> number_char) (u @ r) = u" "dropWhile (Not \<circ> number_char) (u @ r) = r"
  using assms by (cases r; simp add: unit_ok_def next_number_def)+

lemma show_nat_number: "next_number (show_nat n @ t)"
  using show_nat_digits [of "hd (show_nat n)" n] show_nat_not_empty [of n] by (auto simp: next_number_def number_char_def)

lemma parse_component_show:
  assumes "unit_ok u n" "next_number r" "fr = [] \<or> hd fr = CHR ''.''" "parse_fraction (fr @ u @ r) = (f, scale, u @ r, post)"
    "q * n \<le> 2 ^ 63" "unit_value q f scale n \<le> 2 ^ 63"
  shows "parse_component orig (show_nat q @ fr @ u @ r) = Inr (unit_value q f scale n, r)"
proof -
  let ?s = "show_nat q @ fr @ u @ r"
  have n: "0 < n" using assms(1) by (auto simp: unit_ok_def unitMap_def split: if_splits)
  have q: "q \<le> 2 ^ 63 div n" using assms(5) n by (simp add: less_eq_div_iff_mult_less_eq)
  also have "\<dots> \<le> 2 ^ 63" by simp
  finally have q63: "q \<le> 2 ^ 63" .
  have rest: "fr @ u @ r = [] \<or> digit_val (hd (fr @ u @ r)) = None"
    using assms(1,3) by (cases fr; cases u) (auto simp: unit_ok_def number_char_def digit_val_def)
  have int: "leadingInt 0 ?s = Some (q, fr @ u @ r)"
    using leadingInt_digits [of "show_nat q" 0 "fr @ u @ r"] show_nat_digits_val [of q] q63 rest by simp
  have hd: "?s \<noteq> []" "number_char (hd ?s)" using show_nat_number [of q "fr @ u @ r"] show_nat_not_empty [of q]
    by (auto simp: next_number_def)
  have len: "length (fr @ u @ r) \<noteq> length ?s" using show_nat_not_empty [of q] by simp
  show ?thesis
    using assms(1,4,6) q int hd len split_unit [OF assms(1,2)] by (simp add: parse_component_def unit_ok_def)
qed

text \<open>A whole number of units, and a number with a fraction of \<open>10 ^ p\<close> parts.\<close>

lemma parse_component_whole:
  assumes "unit_ok u n" "next_number r" "q * n \<le> 2 ^ 63"
  shows "parse_component orig (show_nat q @ u @ r) = Inr (q * n, r)"
proof -
  have "hd (u @ r) \<noteq> CHR ''.''" using assms(1) by (cases u) (auto simp: unit_ok_def number_char_def)
  then have "parse_fraction ([] @ u @ r) = (0, 1, u @ r, False)" by (auto simp: parse_fraction_def)
  from parse_component_show [OF assms(1,2) _ this] assms(3) show ?thesis by (simp add: unit_value_def)
qed

lemma unit_value_exact:
  assumes "k \<le> p" "p \<le> 9" "f < 10 ^ 9" "f * 10 ^ (p - k) < 10 ^ 9"
  shows "unit_value q f (10 ^ k) (10 ^ p) = q * 10 ^ p + f * 10 ^ (p - k)"
proof -
  have "f64_of_int (int (10 ^ p)) = 10 ^ p" using f64_round_pow10 [of p] assms(2) by (simp add: f64_of_int_def)
  then have "f64_round (f64_of_int (int (10 ^ p)) / 10 ^ k) = 10 ^ (p - k)"
    using f64_round_pow10 [of "p - k"] assms(1,2) by (simp add: power_diff)
  moreover have "f64_of_int (int f) = of_nat f" using assms(3) by simp
  moreover have "f64_mul (of_nat f) (10 ^ (p - k)) = of_nat (f * 10 ^ (p - k))"
  proof -
    have "int (f * 10 ^ (p - k)) < int (10 ^ 9)" using assms(4) by (simp only: of_nat_less_iff)
    then have "\<bar>int (f * 10 ^ (p - k))\<bar> \<le> 2 ^ 53" by simp
    from f64_round_of_int [OF this] show ?thesis by (simp add: f64_mul_def)
  qed
  ultimately have "f64_mul (f64_of_int (int f)) (f64_round (f64_of_int (int (10 ^ p)) / 10 ^ k)) = of_nat (f * 10 ^ (p - k))"
    by (simp only:)
  moreover have "f64_to_int (of_nat n) = int n" for n by (simp add: f64_to_int_def)
  ultimately show ?thesis by (simp only: unit_value_def nat_int) simp
qed

lemma parse_component_frac:
  assumes "unit_ok u (10 ^ p)" "next_number r" "p \<le> 9" "v \<le> 2 ^ 63" "fmtFrac v p = (fr, q)"
  shows "parse_component orig (show_nat q @ fr @ u @ r) = Inr (v, r)"
proof -
  obtain ds where ds: "fmtFrac v p = (if v mod 10 ^ p = 0 then [] else CHR ''.'' # ds, v div 10 ^ p)"
    "digits ds" "length ds \<le> p" "dval ds * 10 ^ (p - length ds) = v mod 10 ^ p" "v mod 10 ^ p \<noteq> 0 \<longrightarrow> ds \<noteq> []"
    by (rule fmtFrac_parts)
  have q: "q = v div 10 ^ p" "q * 10 ^ p \<le> 2 ^ 63" using ds(1) assms(4,5) by (auto intro: order_trans [OF div_times_less_eq_dividend])
  show ?thesis
  proof (cases "v mod 10 ^ p = 0")
    case True
    then have "q * 10 ^ p = v" using q(1) by (metis add.right_neutral div_mult_mod_eq)
    then show ?thesis using True ds(1) assms parse_component_whole [OF assms(1,2) q(2)] by simp
  next
    case False
    have "(10::nat) ^ p \<le> 10 ^ 9" using assms(3) by (intro power_increasing) auto
    then have small: "dval ds * 10 ^ (p - length ds) < 10 ^ 9"
      unfolding ds(4) using mod_less_divisor [of "10 ^ p" v] by (simp del: mod_less_divisor)
    have "dval ds \<le> dval ds * 10 ^ (p - length ds)" by simp
    with small have small': "dval ds < 10 ^ 9" by linarith
    have "u @ r = [] \<or> digit_val (hd (u @ r)) = None" using assms(1) by (cases u) (auto simp: unit_ok_def number_char_def)
    then have "parse_fraction ((CHR ''.'' # ds) @ u @ r) = (dval ds, 10 ^ length ds, u @ r, True)"
      using leadingFraction_digits [of ds 0 0 "u @ r"] ds False small' assms(3) by (auto simp: parse_fraction_def)
    moreover have "unit_value q (dval ds) (10 ^ length ds) (10 ^ p) = v"
      using unit_value_exact [OF ds(3) assms(3) small' small, of q] ds(4) q(1) div_mult_mod_eq [of v "10 ^ p"] by simp
    ultimately show ?thesis
      using parse_component_show [OF assms(1,2) _ _ q(2), of "CHR ''.'' # ds"] ds(1) False assms(4,5) by auto
  qed
qed

lemma parse_components_Cons:
  assumes "parse_component orig s = Inr (v, r)" "d + v \<le> 2 ^ 63"
  shows "parse_components orig d s = parse_components orig (d + v) r"
proof -
  have "s \<noteq> []" using assms(1) by (auto simp: parse_component_def)
  moreover have "(d + v) mod 2 ^ 64 = d + v" using assms(2) by simp
  ultimately show ?thesis using assms by (subst parse_components.simps) simp
qed

lemma parse_components_Nil [simp]: "parse_components orig d [] = Inr d"
  by (subst parse_components.simps) simp

lemma fmtFrac_loop_cong:
  assumes "v mod 10 ^ p = w mod 10 ^ p"
  shows "fst (fmtFrac_loop p pr buf v) = fst (fmtFrac_loop p pr buf w) \<and>
    fst (snd (fmtFrac_loop p pr buf v)) = fst (snd (fmtFrac_loop p pr buf w))"
  using assms
proof (induction p arbitrary: pr buf v w)
  case (Suc p)
  have split: "x mod 10 ^ Suc p = 10 * (x div 10 mod 10 ^ p) + x mod 10" for x :: nat by (simp add: mod_mult2_eq)
  then have "v mod 10 = w mod 10" using Suc.prems by (metis mod_mult_self4 mod_mod_trivial)
  moreover from this have "v div 10 mod 10 ^ p = w div 10 mod 10 ^ p" using Suc.prems split [of v] split [of w] by simp
  ultimately show ?case using Suc.IH [of "v div 10" "w div 10"] by (simp add: Let_def)
qed simp

lemma fmtFrac_cong:
  assumes "v mod 10 ^ p = w mod 10 ^ p"
  shows "fst (fmtFrac v p) = fst (fmtFrac w p)"
  using fmtFrac_loop_cong [OF assms, of False "[]"] by (auto simp: fmtFrac_def split: prod.split)

lemma fmtFrac_snd: "snd (fmtFrac v p) = v div 10 ^ p"
  by (rule fmtFrac_parts [of v p]) simp

text \<open>The seconds with their fraction, then the minutes, then the hours.\<close>

lemma parse_fmtSeconds:
  assumes "u \<le> 2 ^ 63"
  shows "parse_components orig 0 (fmtSeconds u) = Inr u"
proof -
  define s where "s = u div 10 ^ 9"
  define w where "w = s mod 60 * 10 ^ 9 + u mod 10 ^ 9"
  define fr where "fr = fst (fmtFrac u 9)"
  have fr: "fmtFrac u 9 = (fr, s)" using fmtFrac_snd [of u 9] by (simp add: fr_def s_def prod_eq_iff)
  have "w mod 10 ^ 9 = u mod 10 ^ 9" "w div 10 ^ 9 = s mod 60" by (simp_all add: w_def)
  then have fw: "fmtFrac w 9 = (fr, s mod 60)" using fmtFrac_cong [of w 9 u] fmtFrac_snd [of w 9] by (simp add: fr_def prod_eq_iff)
  define m where "m = s div 60"
  have us: "u = s * 10 ^ 9 + u mod 10 ^ 9" by (simp add: s_def)
  have sm: "s = m * 60 + s mod 60" by (simp add: m_def)
  have mh: "m = m div 60 * 60 + m mod 60" by simp
  have um: "u = m * 60000000000 + w" using us sm unfolding w_def by (simp add: algebra_simps)
  have "m * 60000000000 = m div 60 * 3600000000000 + m mod 60 * 60000000000" using mh by linarith
  then have uh: "u = m div 60 * 3600000000000 + m mod 60 * 60000000000 + w" using um by simp
  have w: "w \<le> 2 ^ 63" "unit_ok ''s'' (10 ^ 9)" using um assms unit_ok_units(4) by simp_all
  have secs: "parse_components orig d (show_nat (s mod 60) @ fr @ ''s'') = Inr (d + w)" if "d + w \<le> 2 ^ 63" for d
    using parse_components_Cons [OF parse_component_frac [OF w(2) _ _ w(1) fw, of "[]"], of d] that by (simp add: next_number_def)
  have mins: "parse_components orig d (show_nat k @ ''m'' @ show_nat (s mod 60) @ fr @ ''s'') = Inr (d + k * 60000000000 + w)"
    if "d + k * 60000000000 + w \<le> 2 ^ 63" for d k
    using parse_components_Cons [OF parse_component_whole [OF unit_ok_units(5) show_nat_number], of k d] secs that by simp
  have hours: "parse_components orig 0 (show_nat h @ ''h'' @ show_nat k @ ''m'' @ show_nat (s mod 60) @ fr @ ''s'') =
      Inr (h * 3600000000000 + k * 60000000000 + w)" if "h * 3600000000000 + k * 60000000000 + w \<le> 2 ^ 63" for h k
    using parse_components_Cons [OF parse_component_whole [OF unit_ok_units(6) show_nat_number], of h 0] mins that by simp
  have shown: "fmtSeconds u =
      (if 0 < m then
         if 0 < m div 60 then show_nat (m div 60) @ ''h'' @ show_nat (m mod 60) @ ''m'' @ show_nat (s mod 60) @ fr @ ''s''
         else show_nat (m mod 60) @ ''m'' @ show_nat (s mod 60) @ fr @ ''s''
       else show_nat (s mod 60) @ fr @ ''s'')"
    by (simp add: fmtSeconds_def fr m_def Let_def)
  consider "m = 0" | "0 < m" "m div 60 = 0" | "0 < m" "0 < m div 60" by linarith
  then show ?thesis
  proof cases
    case 1
    then show ?thesis using secs [of 0] um assms unfolding shown by simp
  next
    case 2
    then have "m mod 60 = m" by (simp add: div_eq_0_iff)
    with 2 show ?thesis using mins [of 0 m] um assms unfolding shown by simp
  next
    case 3
    then show ?thesis using hours [of "m div 60" "m mod 60"] uh assms unfolding shown by simp
  qed
qed

lemma parse_small:
  assumes "unit_ok u (10 ^ p)" "p \<le> 9" "v \<le> 2 ^ 63"
  shows "parse_components orig 0 (let (fr, q) = fmtFrac v p in show_nat q @ fr @ u) = Inr v"
proof -
  obtain fr q where f: "fmtFrac v p = (fr, q)" by force
  show ?thesis
    using parse_components_Cons [OF parse_component_frac [OF assms(1) _ assms(2,3) f, of "[]"], of 0] assms(3)
    by (simp add: f next_number_def)
qed

text \<open>What \<open>String\<close> prints after the sign starts with a digit and is not just a zero.\<close>

definition unsigned_text :: "string \<Rightarrow> bool" where
  "unsigned_text s \<longleftrightarrow> (\<exists>n t. s = show_nat n @ t \<and> t \<noteq> [])"

lemma unsigned_text_small: "u \<noteq> [] \<Longrightarrow> unsigned_text (let (fr, q) = fmtFrac v p in show_nat q @ fr @ u)"
  by (auto simp: unsigned_text_def split: prod.split)

lemma unsigned_text_seconds: "unsigned_text (fmtSeconds u)"
  unfolding fmtSeconds_def Let_def unsigned_text_def by (auto split: prod.split)

lemma unsigned_text_facts:
  assumes "unsigned_text s"
  shows "s \<noteq> []" "s \<noteq> ''0''" "hd s \<noteq> CHR ''-''" "hd s \<noteq> CHR ''+''"
proof -
  obtain n t where s: "s = show_nat n @ t" "t \<noteq> []" using assms by (auto simp: unsigned_text_def)
  have ne: "show_nat n \<noteq> []" by (rule show_nat_not_empty)
  then have "length s \<noteq> length ''0''" using s by (cases "show_nat n"; cases t) auto
  then show "s \<noteq> []" "s \<noteq> ''0''" using s(1) ne by (blast, metis)
  have "digit_val (hd s) \<noteq> None" using show_nat_digits [of "hd (show_nat n)" n] ne s by simp
  then show "hd s \<noteq> CHR ''-''" "hd s \<noteq> CHR ''+''" by (auto simp: digit_val_def)
qed

lemma ParseDuration_text:
  assumes "unsigned_text s" "\<And>orig. parse_components orig 0 s = Inr u"
  shows "ParseDuration (''-'' @ s) = Inr (wrap64 (- int u))" "u < 2 ^ 63 \<Longrightarrow> ParseDuration s = Inr (int u)"
  using assms(2) unsigned_text_facts [OF assms(1)] by (auto simp: ParseDuration_def split: list.split)

lemma ParseDuration_String:
  assumes "- (2 ^ 63) \<le> d" "d < 2 ^ 63"
  shows "ParseDuration (Duration_String d) = Inr d"
proof (cases "d = 0")
  case True
  have "parse_components orig 0 (show_nat 0 @ ''s'') = Inr 0" for orig
    using parse_components_Cons [OF parse_component_whole [OF unit_ok_units(4), of "[]" 0], of 0] by (simp add: next_number_def)
  moreover have zero: "show_nat 0 = ''0''" by code_simp
  moreover have "unsigned_text (show_nat 0 @ ''s'')" unfolding unsigned_text_def by blast
  ultimately show ?thesis
    using True ParseDuration_text(2) [of "show_nat 0 @ ''s''" 0] by (simp add: Duration_String_def)
next
  case False
  define u where "u = nat \<bar>d\<bar>"
  define body where "body =
    (if u < 1000 then let (fr, q) = fmtFrac u 0 in show_nat q @ fr @ ''ns''
     else if u < 1000000 then let (fr, q) = fmtFrac u 3 in show_nat q @ fr @ micro_sign @ ''s''
     else if u < 1000000000 then let (fr, q) = fmtFrac u 6 in show_nat q @ fr @ ''ms''
     else fmtSeconds u)"
  have u: "u \<le> 2 ^ 63" "u \<noteq> 0" using assms False by (auto simp: u_def)
  have "unsigned_text body"
    using unsigned_text_small unsigned_text_seconds by (auto simp: body_def)
  moreover have "parse_components orig 0 body = Inr u" for orig
    using parse_small [of "''ns''" 0 u] parse_small [of "micro_sign @ ''s''" 3 u] parse_small [of "''ms''" 6 u] parse_fmtSeconds [OF u(1)]
      unit_ok_units u(1) by (simp add: body_def)
  moreover have "Duration_String d = (if d < 0 then ''-'' else []) @ body"
    using u(2) by (simp add: Duration_String_def body_def u_def Let_def)
  ultimately show ?thesis
    using ParseDuration_text [of body u] assms wrap64_id [of d] by (auto simp: u_def)
qed

lemma Duration_String_not_empty: "Duration_String d \<noteq> []"
  by (auto simp: Duration_String_def fmtSeconds_def show_nat_not_empty Let_def split: prod.split)

end
