(* ===== verification/Util.thy ===== *)
theory Util
  imports Go_Duration
begin

text \<open>
  \<^verbatim>\<open>pkg/util\<close> and \<^verbatim>\<open>pkg/env\<close>: signals, atomic values, ignored errors, the stopwatch, environment
  variables and the validation of the leader election. The environment is a map from names to
  values; \<open>os.Getenv\<close> of an unset name is the empty string.
\<close>

section \<open>Signals and atomic values\<close>

text \<open>A signaler is a channel of capacity one: whether a signal is pending. \<open>Wait\<close> selects between the
  signal and the end of the context; the list holds its possible outcomes, the new channel and the
  error, and is empty while it blocks.\<close>

type_synonym signaler = bool

definition NewSignaler :: signaler where
  "NewSignaler = False"

definition Signal :: "signaler \<Rightarrow> signaler" where
  "Signal s = True"

definition Wait :: "signaler \<Rightarrow> go_error option \<Rightarrow> (signaler \<times> go_error option) list" where
  "Wait s ctxErr = (if s then [(False, None)] else []) @
     (case ctxErr of None \<Rightarrow> [] | Some e \<Rightarrow> [(s, Some e)])"

text \<open>\<open>AtomicValue[V]\<close> for an interface type \<open>V\<close>: the value stored last, nil before the first store.\<close>

type_synonym 'v AtomicValue = "'v option"

definition AtomicValue_Get :: "'v AtomicValue \<Rightarrow> 'v option" where
  "AtomicValue_Get av = av"

definition AtomicValue_Set :: "'v AtomicValue \<Rightarrow> 'v \<Rightarrow> 'v AtomicValue" where
  "AtomicValue_Set av v = Some v"

lemmas signal_defs = NewSignaler_def Signal_def Wait_def AtomicValue_Get_def AtomicValue_Set_def

section \<open>Errors and the stopwatch\<close>

definition IsIgnoredErr :: "go_error option \<Rightarrow> bool" where
  "IsIgnoredErr err = (case err of None \<Rightarrow> True | Some e \<Rightarrow> errors_is e Canceled \<or> errors_is e ErrServerClosed)"

record Stopwatch =
  startTime :: instant
  stopTime :: instant

definition Stopwatch_Start :: "Stopwatch \<Rightarrow> instant \<Rightarrow> Stopwatch" where
  "Stopwatch_Start sw now = sw\<lparr>startTime := now\<rparr>"

definition Stopwatch_Stop :: "Stopwatch \<Rightarrow> instant \<Rightarrow> Stopwatch" where
  "Stopwatch_Stop sw now = sw\<lparr>stopTime := now\<rparr>"

definition ElapsedTime :: "Stopwatch \<Rightarrow> duration" where
  "ElapsedTime sw = time_Sub (stopTime sw) (startTime sw)"

text \<open>A wrapped cancellation is ignored too.\<close>

lemma IsIgnoredErr_wrap: "IsIgnoredErr (Some (WrapErr m e)) = IsIgnoredErr (Some e)"
  by (simp add: IsIgnoredErr_def)

section \<open>Functions as values\<close>

text \<open>\<^verbatim>\<open>functional.go\<close>: a function without arguments is a function from unit, its effects are a change of the state \<open>'s\<close>.\<close>

definition ApplyContext :: "('c \<Rightarrow> 's \<Rightarrow> 's \<times> go_error option) \<Rightarrow> 'c \<Rightarrow> unit \<Rightarrow> 's \<Rightarrow> 's \<times> go_error option" where
  "ApplyContext f ctx = (\<lambda>_. f ctx)"

definition DeapplyError :: "(unit \<Rightarrow> 's \<Rightarrow> 's) \<Rightarrow> go_error option \<Rightarrow> unit \<Rightarrow> 's \<Rightarrow> 's \<times> go_error option" where
  "DeapplyError f err = (\<lambda>u s. (f u s, err))"

definition IgnoringError :: "(unit \<Rightarrow> 's \<Rightarrow> 's \<times> go_error option) \<Rightarrow> 's \<Rightarrow> 's" where
  "IgnoringError f s = fst (f () s)"

section \<open>Running with a time limit\<close>

text \<open>\<^verbatim>\<open>async.go\<close>: \<open>WithTimeout\<close> runs a function in a goroutine and waits for its error on an unbuffered channel or for
  the time limit; the deferred call closes the channel when it returns. The caller waits in the \<open>select\<close> or has returned; the
  goroutine runs the function, waits to send its error, or is done. Sending on a closed channel panics, also for a
  sender that waits when the channel is closed.\<close>

datatype timeout_caller = Selecting | TimeoutReturned "go_error option"

datatype timeout_worker = Working | Sending "go_error option" | Sent | SendPanics

definition timeoutError :: "duration \<Rightarrow> go_error" where
  "timeoutError d = ErrMsg (''timed out after '' @ Duration_String d)"

inductive WithTimeout :: "duration \<Rightarrow> timeout_caller \<times> timeout_worker \<Rightarrow> timeout_caller \<times> timeout_worker \<Rightarrow> bool" for d where
  finishes: "WithTimeout d (c, Working) (c, Sending err)"
| receives: "WithTimeout d (Selecting, Sending err) (TimeoutReturned err, Sent)"
| times_out: "WithTimeout d (Selecting, w) (TimeoutReturned (Some (timeoutError d)), w)"
| send_closed: "WithTimeout d (TimeoutReturned r, Sending err) (TimeoutReturned r, SendPanics)"

definition timeout_inv :: "duration \<Rightarrow> timeout_caller \<times> timeout_worker \<Rightarrow> bool" where
  "timeout_inv d s \<longleftrightarrow>
     (case s of
        (Selecting, w) \<Rightarrow> w = Working \<or> (\<exists>e. w = Sending e)
      | (TimeoutReturned r, w) \<Rightarrow> w = Sent \<or> r = Some (timeoutError d))"

lemma timeout_inv_step: "WithTimeout d s s' \<Longrightarrow> timeout_inv d s \<Longrightarrow> timeout_inv d s'"
  by (induction rule: WithTimeout.induct) (auto simp: timeout_inv_def split: timeout_caller.splits)

lemma timeout_inv_steps:
  assumes "(WithTimeout d)\<^sup>*\<^sup>* (Selecting, Working) s"
  shows "timeout_inv d s"
  using assms
proof (induction rule: rtranclp_induct)
  case (step y z)
  then show ?case using timeout_inv_step by blast
qed (simp add: timeout_inv_def)

section \<open>Numbers in strings\<close>

fun parse_digits :: "nat \<Rightarrow> string \<Rightarrow> nat option" where
  "parse_digits acc [] = Some acc"
| "parse_digits acc (c # s) =
     (case digit_val c of None \<Rightarrow> None | Some d \<Rightarrow> parse_digits (10 * acc + d) s)"

text \<open>\<open>strconv.ParseInt(s, 10, bits)\<close>.\<close>

definition ParseInt :: "string \<Rightarrow> nat \<Rightarrow> int result" where
  "ParseInt s bits =
     (let (neg, ds) = (case s of c # r \<Rightarrow> if c = CHR ''-'' then (True, r) else if c = CHR ''+'' then (False, r) else (False, s)
                      | [] \<Rightarrow> (False, []))
      in if ds = [] then Inl (ErrMsg ''invalid syntax'')
         else case parse_digits 0 ds of
                None \<Rightarrow> Inl (ErrMsg ''invalid syntax'')
              | Some n \<Rightarrow>
                  (let i = (if neg then - int n else int n)
                   in if - (2 ^ (bits - 1)) \<le> i \<and> i < 2 ^ (bits - 1) then Inr i else Inl ErrRange))"

definition Atoi :: "string \<Rightarrow> int result" where
  "Atoi s = ParseInt s 64"

definition ParseBool :: "string \<Rightarrow> bool result" where
  "ParseBool s =
     (if s \<in> {''1'', ''t'', ''T'', ''TRUE'', ''true'', ''True''} then Inr True
      else if s \<in> {''0'', ''f'', ''F'', ''FALSE'', ''false'', ''False''} then Inr False
      else Inl (ErrMsg ''invalid syntax''))"

section \<open>Environment variables\<close>

type_synonym environment = "string \<rightharpoonup> string"

definition Getenv :: "environment \<Rightarrow> string \<Rightarrow> string" where
  "Getenv env k = (case env k of None \<Rightarrow> [] | Some v \<Rightarrow> v)"

definition env_Get :: "environment \<Rightarrow> string \<Rightarrow> string result" where
  "env_Get env envName =
     (let fromEnv = Getenv env envName
      in if fromEnv = [] then Inl (ErrMsg (''environnment variable '' @ envName @ '' not found'')) else Inr fromEnv)"

definition GetOr :: "environment \<Rightarrow> string \<Rightarrow> string \<Rightarrow> string" where
  "GetOr env envName otherwise = (case env_Get env envName of Inl _ \<Rightarrow> otherwise | Inr v \<Rightarrow> v)"

definition GetInt32Or :: "environment \<Rightarrow> string \<Rightarrow> int32 \<Rightarrow> int32" where
  "GetInt32Or env envName otherwise =
     (case env_Get env envName of
        Inl _ \<Rightarrow> otherwise
      | Inr strVal \<Rightarrow> (case ParseInt strVal 32 of Inl _ \<Rightarrow> otherwise | Inr val \<Rightarrow> word_of_int val))"

definition GetIntOr :: "environment \<Rightarrow> string \<Rightarrow> go_int \<Rightarrow> go_int" where
  "GetIntOr env envName otherwise =
     (case env_Get env envName of
        Inl _ \<Rightarrow> otherwise
      | Inr strVal \<Rightarrow> (case Atoi strVal of Inl _ \<Rightarrow> otherwise | Inr val \<Rightarrow> word_of_int val))"

definition ResolveOsEnvBool :: "environment \<Rightarrow> string \<Rightarrow> bool \<Rightarrow> bool result" where
  "ResolveOsEnvBool env envName defaultValue =
     (case env envName of
        Some valueStr \<Rightarrow> if valueStr \<noteq> [] then ParseBool valueStr else Inr defaultValue
      | None \<Rightarrow> Inr defaultValue)"

definition ResolveOsEnvInt :: "environment \<Rightarrow> string \<Rightarrow> go_int \<Rightarrow> go_int result" where
  "ResolveOsEnvInt env envName defaultValue =
     (case env envName of
        Some valueStr \<Rightarrow> if valueStr \<noteq> [] then map_sum id word_of_int (Atoi valueStr) else Inr defaultValue
      | None \<Rightarrow> Inr defaultValue)"

text \<open>The pointer is returned with the error too: to a zero duration.\<close>

definition ResolveOsEnvDuration :: "environment \<Rightarrow> string \<Rightarrow> duration option \<times> go_error option" where
  "ResolveOsEnvDuration env envName =
     (case env envName of
        Some valueStr \<Rightarrow>
          if valueStr \<noteq> []
          then (case ParseDuration valueStr of Inl err \<Rightarrow> (Some 0, Some err) | Inr d \<Rightarrow> (Some d, None))
          else (None, None)
      | None \<Rightarrow> (None, None))"

section \<open>Leader election\<close>

definition defaultLeaseDuration :: duration where
  "defaultLeaseDuration = 15 * second"

definition defaultRenewDeadline :: duration where
  "defaultRenewDeadline = 10 * second"

definition defaultRetryPeriod :: duration where
  "defaultRetryPeriod = 2 * second"

definition ValidateLeaderElectionConfig :: "duration option \<Rightarrow> duration option \<Rightarrow>
    duration option \<Rightarrow> go_error option" where
  "ValidateLeaderElectionConfig leaseDuration renewDeadline retryPeriod =
     (let lease = (case leaseDuration of None \<Rightarrow> defaultLeaseDuration | Some d \<Rightarrow> d);
          renew = (case renewDeadline of None \<Rightarrow> defaultRenewDeadline | Some d \<Rightarrow> d);
          retry = (case retryPeriod of None \<Rightarrow> defaultRetryPeriod | Some d \<Rightarrow> d)
      in if lease \<le> 0 then Some (ErrMsg (''lease duration must be greater than 0, got '' @ Duration_String lease))
         else if renew \<le> 0 then Some (ErrMsg (''renew deadline must be greater than 0, got '' @ Duration_String renew))
         else if retry \<le> 0 then Some (ErrMsg (''retry period must be greater than 0, got '' @ Duration_String retry))
         else if lease \<le> renew then
           Some (ErrMsg (''lease duration ('' @ Duration_String lease @ '') must be greater than renew deadline ('' @ Duration_String renew @ '')''))
         else if renew \<le> retry then
           Some (ErrMsg (''renew deadline ('' @ Duration_String renew @ '') must be greater than retry period ('' @ Duration_String retry @ '')''))
         else None)"

section \<open>Printed numbers parse back\<close>

lemma parse_digits_append:
  "parse_digits acc (s @ t) = (case parse_digits acc s of None \<Rightarrow> None | Some a \<Rightarrow> parse_digits a t)"
  by (induction acc s rule: parse_digits.induct) (auto split: option.splits)

lemma parse_digits_show: "parse_digits 0 (show_nat n) = Some n"
proof (induction n rule: show_nat.induct)
  case (1 n)
  then show ?case
    by (subst show_nat.simps) (auto simp: parse_digits_append digit_val_char)
qed

lemma hd_show_nat: "hd (show_nat n) \<noteq> CHR ''-''" "hd (show_nat n) \<noteq> CHR ''+''"
proof -
  have "digit_val (hd (show_nat n)) \<noteq> None" using show_nat_digits [of "hd (show_nat n)" n] show_nat_not_empty [of n] by simp
  then show "hd (show_nat n) \<noteq> CHR ''-''" "hd (show_nat n) \<noteq> CHR ''+''" by (auto simp: digit_val_def)
qed

lemma ParseInt_itoa:
  assumes "- (2 ^ (bits - 1)) \<le> i" "i < 2 ^ (bits - 1)"
  shows "ParseInt (itoa i) bits = Inr i"
proof (cases "i < 0")
  case True
  then show ?thesis using assms by (simp add: itoa_def ParseInt_def Let_def parse_digits_show show_nat_not_empty)
next
  case False
  obtain c s where "show_nat (nat i) = c # s" using show_nat_not_empty by (cases "show_nat (nat i)") auto
  with False assms hd_show_nat [of "nat i"] parse_digits_show [of "nat i"] show ?thesis
    by (simp add: itoa_def ParseInt_def Let_def)
qed

text \<open>The validation of the leader election accepts exactly the configurations whose effective values
  satisfy \<open>0 < retry < renew < lease\<close>, with the defaults of controller-runtime for what is not set.\<close>

lemma ValidateLeaderElectionConfig_iff:
  "ValidateLeaderElectionConfig leaseDuration renewDeadline retryPeriod = None \<longleftrightarrow>
     0 < case_option defaultRetryPeriod id retryPeriod \<and>
     case_option defaultRetryPeriod id retryPeriod < case_option defaultRenewDeadline id renewDeadline \<and>
     case_option defaultRenewDeadline id renewDeadline < case_option defaultLeaseDuration id leaseDuration"
  by (auto simp: ValidateLeaderElectionConfig_def Let_def split: option.splits)

text \<open>A duration in the environment as Go prints it, for instance \<open>1m30s\<close> or \<open>-1.5ms\<close>, is read exactly, whichever of the \<open>2 ^ 64\<close>
  durations it is; without the variable or with an empty one there is no duration and no error.\<close>

theorem ResolveOsEnvDuration_reads:
  "(- (2 ^ 63) \<le> d \<and> d < 2 ^ 63 \<longrightarrow> ResolveOsEnvDuration (env(nm \<mapsto> Duration_String d)) nm = (Some d, None)) \<and>
   ResolveOsEnvDuration (env(nm \<mapsto> [])) nm = (None, None) \<and> ResolveOsEnvDuration (env(nm := None)) nm = (None, None)"
  using ParseDuration_String [of d] Duration_String_not_empty [of d] by (simp add: ResolveOsEnvDuration_def)

theorem ResolveOsEnvDuration_reads_witness:
  "ResolveOsEnvDuration [''LEASE'' \<mapsto> ''1m30.5s''] ''LEASE'' = (Some (90 * second + 500 * millisecond), None)"
proof -
  have "Duration_String (90 * second + 500 * millisecond) = ''1m30.5s''"
    by (simp add: Duration_String_def fmtSeconds_def fmtFrac_def nanosecond_per_second_def millisecond_def show_nat.simps
        digit_char_values digit_char_values(2) [simplified] fmtFrac_loop_numeral Let_def)
  then show ?thesis
    using ResolveOsEnvDuration_reads [of "90 * second + 500 * millisecond" Map.empty "''LEASE''"]
    by (simp add: nanosecond_per_second_def millisecond_def)
qed

text \<open>\<open>WithTimeout\<close> crashes the process when the time limit is passed: once nothing more can happen, either the caller has got
  the error of the function, or it has got the time-out and the goroutine has panicked, since the function returned to
  a closed channel.\<close>

theorem WithTimeout_outcome:
  assumes "(WithTimeout d)\<^sup>*\<^sup>* (Selecting, Working) s" "\<And>s'. \<not> WithTimeout d s s'"
  shows "(\<exists>err. s = (TimeoutReturned err, Sent)) \<or> s = (TimeoutReturned (Some (timeoutError d)), SendPanics)"
proof -
  obtain c w where s: "s = (c, w)" by force
  have "c \<noteq> Selecting" "w \<noteq> Working" using assms(2) WithTimeout.times_out WithTimeout.finishes unfolding s by blast+
  moreover have "w \<noteq> Sending e" if "c \<noteq> Selecting" for e
    using that assms(2) WithTimeout.send_closed unfolding s by (cases c) blast+
  ultimately show ?thesis using timeout_inv_steps [OF assms(1)] by (cases c; cases w) (auto simp: s timeout_inv_def)
qed

end
