(* ===== verification/Route_Table.thy ===== *)
theory Route_Table
  imports Table_Memory Queue_Memory Util "HOL-Library.Multiset"
begin

text \<open>
  \<^verbatim>\<open>pkg/routing/table.go\<close>: the table that the informer of HTTPScaledObjects feeds and requests are routed
  by. \<open>OnAdd\<close>, \<open>OnUpdate\<close> and \<open>OnDelete\<close> run one after the other in the goroutine of the informer;
  \<open>refreshMemory\<close> runs in its own goroutine, waits for a signal and publishes a table built from the
  current objects. The step relation \<open>table_step\<close> interleaves the two at the points where they touch
  shared state: the counter, the map under its mutex, the signal and the published table.
\<close>

section \<open>The data and the operations\<close>

text \<open>The object of an informer event; anything but an HTTPScaledObject, such as the tombstone of a missed
  deletion, fails the type assertion of the handlers.\<close>

datatype informer_object =
    ObjHTTPSO HTTPScaledObject
  | ObjOther

record 't table =
  httpScaledObjects :: "(NamespacedName, HTTPScaledObject) gomap"
  memoryHolder :: "'t tableMemory AtomicValue"
  memorySignaler :: signaler
  queueCounter :: Memory

definition NewTable :: "Memory \<Rightarrow> 't table" where
  "NewTable q = \<lparr>httpScaledObjects = [], memoryHolder = None, memorySignaler = NewSignaler, queueCounter = q\<rparr>"

text \<open>The constructor with its errors: \<open>shared\<close> tells whether the informer of the factory is a shared one, \<open>addErr\<close> is what the
  registration of the handlers returns.\<close>

definition errUnknownSharedIndexInformer :: go_error where
  "errUnknownSharedIndexInformer = ErrMsg ''informer is not cache.sharedIndexInformer''"

definition newTable :: "bool \<Rightarrow> go_error option \<Rightarrow> Memory \<Rightarrow> 't table result" where
  "newTable shared addErr q =
     (if \<not> shared then Inl errUnknownSharedIndexInformer
      else case addErr of Some err \<Rightarrow> Inl err | None \<Rightarrow> Inr (NewTable q))"

text \<open>The window and granularity of the request rate, one minute and one second unless given.\<close>

definition rate_window :: "HTTPScaledObject \<Rightarrow> duration \<times> duration" where
  "rate_window h =
     (case ScalingMetric (Spec h) of
        None \<Rightarrow> (minute, second)
      | Some sm \<Rightarrow> (case Rate sm of None \<Rightarrow> (minute, second) | Some r \<Rightarrow> (Window r, Granularity r)))"

text \<open>The three parts of a handler: what it does to the counter before it takes the mutex, what it does
  under the mutex, and the deferred signal.\<close>

datatype informer_event =
    Add HTTPScaledObject
  | Update HTTPScaledObject HTTPScaledObject
  | Delete HTTPScaledObject

definition handler_count :: "(NamespacedName \<Rightarrow> string) \<Rightarrow> informer_event \<Rightarrow> 't table \<Rightarrow> 't table \<times> (fault + unit)" where
  "handler_count str ev t =
     (case ev of
        Add h \<Rightarrow>
          (case EnsureKey (queueCounter t) (str (name_of h)) (fst (rate_window h)) (snd (rate_window h)) of
             (q, res) \<Rightarrow> (t\<lparr>queueCounter := q\<rparr>, res))
      | Update old new \<Rightarrow>
          (case UpdateBuckets (queueCounter t) (str (name_of new)) (fst (rate_window new)) (snd (rate_window new)) of
             (q, res) \<Rightarrow> (t\<lparr>queueCounter := q\<rparr>, res))
      | Delete h \<Rightarrow> (t, Inr ()))"

definition handler_store :: "(NamespacedName \<Rightarrow> string) \<Rightarrow> informer_event \<Rightarrow> 't table \<Rightarrow> 't table" where
  "handler_store str ev t =
     (case ev of
        Add h \<Rightarrow> t\<lparr>httpScaledObjects := AList.update (name_of h) h (httpScaledObjects t)\<rparr>
      | Update old new \<Rightarrow>
          (let t = t\<lparr>httpScaledObjects := AList.update (name_of new) new (httpScaledObjects t)\<rparr>
           in if name_of old \<noteq> name_of new then
                t\<lparr>httpScaledObjects := AList.delete (name_of old) (httpScaledObjects t),
                  queueCounter := fst (RemoveKey (queueCounter t) (str (name_of old)))\<rparr>
              else t)
      | Delete h \<Rightarrow>
          t\<lparr>httpScaledObjects := AList.delete (name_of h) (httpScaledObjects t),
            queueCounter := fst (RemoveKey (queueCounter t) (str (name_of h)))\<rparr>)"

definition handler_signal :: "'t table \<Rightarrow> 't table" where
  "handler_signal t = t\<lparr>memorySignaler := Signal (memorySignaler t)\<rparr>"

definition handle :: "(NamespacedName \<Rightarrow> string) \<Rightarrow> informer_event \<Rightarrow> 't table \<Rightarrow> 't table \<times> (fault + unit)" where
  "handle str ev t =
     (case handler_count str ev t of
        (t, Inl f) \<Rightarrow> (t, Inl f)
      | (t, Inr _) \<Rightarrow> (handler_signal (handler_store str ev t), Inr ()))"

definition OnAdd :: "(NamespacedName \<Rightarrow> string) \<Rightarrow> 't table \<Rightarrow> informer_object \<Rightarrow> 't table \<times> (fault + unit)" where
  "OnAdd str t obj = (case obj of ObjOther \<Rightarrow> (t, Inr ()) | ObjHTTPSO h \<Rightarrow> handle str (Add h) t)"

definition OnUpdate :: "(NamespacedName \<Rightarrow> string) \<Rightarrow> 't table \<Rightarrow> informer_object \<Rightarrow> informer_object \<Rightarrow>
    't table \<times> (fault + unit)" where
  "OnUpdate str t oldObj newObj =
     (case (oldObj, newObj) of
        (ObjHTTPSO old, ObjHTTPSO new) \<Rightarrow> handle str (Update old new) t
      | _ \<Rightarrow> (t, Inr ()))"

definition OnDelete :: "(NamespacedName \<Rightarrow> string) \<Rightarrow> 't table \<Rightarrow> informer_object \<Rightarrow> 't table \<times> (fault + unit)" where
  "OnDelete str t obj = (case obj of ObjOther \<Rightarrow> (t, Inr ()) | ObjHTTPSO h \<Rightarrow> handle str (Delete h) t)"

text \<open>The table built from the objects in the order of one iteration over the map.\<close>

definition newMemoryFromHTTPSOs :: "(NamespacedName \<Rightarrow> string) \<Rightarrow> ('t, HTTPScaledObject) radix_ops \<Rightarrow>
    (NamespacedName, HTTPScaledObject) gomap \<Rightarrow> 't tableMemory" where
  "newMemoryFromHTTPSOs str T objs = foldl (\<lambda>tm e. Remember str T tm (Some (snd e))) (NewTableMemory T) objs"

definition Route :: "('t, HTTPScaledObject) radix_ops \<Rightarrow> 't table \<Rightarrow> Request option \<Rightarrow> HTTPScaledObject option" where
  "Route T t req =
     (case req of
        None \<Rightarrow> None
      | Some r \<Rightarrow>
          (case AtomicValue_Get (memoryHolder t) of
             None \<Rightarrow> None
           | Some tm \<Rightarrow> RouteKey T tm (NewKeyFromRequest (Some r))))"

definition HasSynced :: "'t table \<Rightarrow> bool" where
  "HasSynced t \<longleftrightarrow> AtomicValue_Get (memoryHolder t) \<noteq> None"

definition errNotSyncedTable :: go_error where
  "errNotSyncedTable = ErrMsg ''table has not synced''"

definition HealthCheck :: "'t table \<Rightarrow> go_error option" where
  "HealthCheck t = (if \<not> HasSynced t then Some errNotSyncedTable else None)"

section \<open>The goroutines\<close>

text \<open>Where \<open>refreshMemory\<close> is: waiting for the first sync, about to build, about to publish, or waiting
  for a signal. Where the handler is: between events, about to take the mutex, about to signal.
  \<open>E\<close> tells which events the informer delivers.\<close>

datatype 't refresher = RSync | RBuild | RSet "'t tableMemory" | RWait

datatype handler = HIdle | HStore informer_event | HSignal

record 't table_state =
  tab :: "'t table"
  refr :: "'t refresher"
  hand :: handler

inductive table_step :: "(informer_event \<Rightarrow> bool) \<Rightarrow> (NamespacedName \<Rightarrow> string) \<Rightarrow>
    ('t, HTTPScaledObject) radix_ops \<Rightarrow> 't table_state \<Rightarrow> 't table_state \<Rightarrow> bool" for E str T where
  deliver: "hand s = HIdle \<Longrightarrow> E ev \<Longrightarrow> handler_count str ev (tab s) = (t, Inr ()) \<Longrightarrow>
    table_step E str T s (s\<lparr>tab := t, hand := HStore ev\<rparr>)"
| store: "hand s = HStore ev \<Longrightarrow>
    table_step E str T s (s\<lparr>tab := handler_store str ev (tab s), hand := HSignal\<rparr>)"
| signal: "hand s = HSignal \<Longrightarrow> table_step E str T s (s\<lparr>tab := handler_signal (tab s), hand := HIdle\<rparr>)"
| synced: "refr s = RSync \<Longrightarrow> table_step E str T s (s\<lparr>refr := RBuild\<rparr>)"
| build: "refr s = RBuild \<Longrightarrow> mset order = mset (httpScaledObjects (tab s)) \<Longrightarrow>
    table_step E str T s (s\<lparr>refr := RSet (newMemoryFromHTTPSOs str T order)\<rparr>)"
| publish: "refr s = RSet m \<Longrightarrow>
    table_step E str T s (s\<lparr>tab := (tab s)\<lparr>memoryHolder := AtomicValue_Set (memoryHolder (tab s)) m\<rparr>, refr := RWait\<rparr>)"
| wake: "refr s = RWait \<Longrightarrow> (sig, None) \<in> set (Wait (memorySignaler (tab s)) None) \<Longrightarrow>
    table_step E str T s (s\<lparr>tab := (tab s)\<lparr>memorySignaler := sig\<rparr>, refr := RBuild\<rparr>)"

definition table_init :: "Memory \<Rightarrow> 't table_state" where
  "table_init q = \<lparr>tab = NewTable q, refr = RSync, hand = HIdle\<rparr>"

lemmas handler_defs = handler_count_def handler_store_def handler_signal_def

section \<open>No update is lost\<close>

definition fresh :: "(NamespacedName \<Rightarrow> string) \<Rightarrow> ('t, HTTPScaledObject) radix_ops \<Rightarrow>
    (NamespacedName, HTTPScaledObject) gomap \<Rightarrow> 't tableMemory \<Rightarrow> bool" where
  "fresh str T objs m \<longleftrightarrow> (\<exists>order. mset order = mset objs \<and> m = newMemoryFromHTTPSOs str T order)"

definition up_to_date :: "(NamespacedName \<Rightarrow> string) \<Rightarrow> ('t, HTTPScaledObject) radix_ops \<Rightarrow> 't table_state \<Rightarrow> bool" where
  "up_to_date str T s \<longleftrightarrow>
     memorySignaler (tab s) \<or> hand s = HSignal \<or>
     (case refr s of
        RSync \<Rightarrow> True
      | RBuild \<Rightarrow> True
      | RSet m \<Rightarrow> fresh str T (httpScaledObjects (tab s)) m
      | RWait \<Rightarrow> \<exists>m. memoryHolder (tab s) = Some m \<and> fresh str T (httpScaledObjects (tab s)) m)"

lemma handler_count_frame:
  assumes "handler_count str ev t = (t', r)"
  shows "httpScaledObjects t' = httpScaledObjects t" "memoryHolder t' = memoryHolder t" "memorySignaler t' = memorySignaler t"
  using assms by (auto simp: handler_count_def split: informer_event.splits prod.splits)

lemma up_to_date_step:
  assumes "table_step E str T s s'" "up_to_date str T s"
  shows "up_to_date str T s'"
  using assms
proof (induction rule: table_step.induct)
  case (deliver s ev t)
  then show ?case using handler_count_frame [of str ev "tab s" t "Inr ()"]
    by (cases "refr s") (auto simp: up_to_date_def)
qed (auto simp: up_to_date_def fresh_def handler_defs signal_defs)

lemma up_to_date_reachable:
  assumes "(table_step E str T)\<^sup>*\<^sup>* (table_init q) s"
  shows "up_to_date str T s"
  using assms
proof (induction rule: rtranclp_induct)
  case base
  then show ?case by (simp add: up_to_date_def table_init_def)
next
  case (step y z)
  then show ?case by (auto intro: up_to_date_step)
qed

lemma newMemory_remember_all: "newMemoryFromHTTPSOs str T objs = remember_all str T (map snd objs)"
  by (simp add: newMemoryFromHTTPSOs_def remember_all_def foldl_map)

text \<open>A refresh from the moment the refresher is about to build.\<close>

lemma refresh_from_build:
  assumes "refr s = RBuild"
  shows "\<exists>s'. (table_step E str T)\<^sup>*\<^sup>* s s' \<and> refr s' = RWait \<and> hand s' = hand s \<and>
    memorySignaler (tab s') = memorySignaler (tab s) \<and> httpScaledObjects (tab s') = httpScaledObjects (tab s) \<and>
    queueCounter (tab s') = queueCounter (tab s) \<and>
    memoryHolder (tab s') = Some (newMemoryFromHTTPSOs str T (httpScaledObjects (tab s)))"
proof -
  let ?m = "newMemoryFromHTTPSOs str T (httpScaledObjects (tab s))"
  have "table_step E str T s (s\<lparr>refr := RSet ?m\<rparr>)" using assms by (rule table_step.build) simp
  moreover have "table_step E str T (s\<lparr>refr := RSet ?m\<rparr>) (s\<lparr>tab := (tab s)\<lparr>memoryHolder := Some ?m\<rparr>, refr := RWait\<rparr>)"
    using table_step.publish [of "s\<lparr>refr := RSet ?m\<rparr>" ?m E str T] by (simp add: AtomicValue_Set_def)
  ultimately have "(table_step E str T)\<^sup>*\<^sup>* s (s\<lparr>tab := (tab s)\<lparr>memoryHolder := Some ?m\<rparr>, refr := RWait\<rparr>)"
    by (meson converse_rtranclp_into_rtranclp rtranclp.rtrancl_refl)
  then show ?thesis
    by (intro exI [of _ "s\<lparr>tab := (tab s)\<lparr>memoryHolder := Some ?m\<rparr>, refr := RWait\<rparr>"]) simp
qed

section \<open>Properties\<close>



lemma refresh_step:
  assumes "refr s = RSync \<or> refr s = RWait \<and> memorySignaler (tab s)"
  shows "\<exists>s'. table_step E str T s s' \<and> refr s' = RBuild \<and> hand s' = hand s \<and>
    httpScaledObjects (tab s') = httpScaledObjects (tab s) \<and>
    memorySignaler (tab s') = (refr s = RSync \<and> memorySignaler (tab s))"
  using assms
proof
  assume "refr s = RSync"
  with table_step.synced [of s E str T] show ?thesis by force
next
  assume "refr s = RWait \<and> memorySignaler (tab s)"
  with table_step.wake [of s False E str T] show ?thesis by (force simp: Wait_def)
qed

text \<open>The refresher waiting with no signal pending and the table of the current objects published.\<close>

definition settled :: "(NamespacedName \<Rightarrow> string) \<Rightarrow> ('t, HTTPScaledObject) radix_ops \<Rightarrow> 't table_state \<Rightarrow> bool" where
  "settled str T s \<longleftrightarrow> refr s = RWait \<and> \<not> memorySignaler (tab s) \<and> hand s = HIdle \<and>
     (\<exists>m. memoryHolder (tab s) = Some m \<and> fresh str T (httpScaledObjects (tab s)) m)"

lemma settle_from_RWait:
  assumes "up_to_date str T s" "refr s = RWait" "hand s = HIdle"
  shows "\<exists>s'. (table_step E str T)\<^sup>*\<^sup>* s s' \<and> settled str T s' \<and> httpScaledObjects (tab s') = httpScaledObjects (tab s)"
proof (cases "memorySignaler (tab s)")
  case True
  then obtain s1 where s1: "table_step E str T s s1" "refr s1 = RBuild" "hand s1 = HIdle"
    "httpScaledObjects (tab s1) = httpScaledObjects (tab s)" "\<not> memorySignaler (tab s1)"
    using refresh_step [of s E str T] assms(2,3) by auto
  then obtain s2 where s2: "(table_step E str T)\<^sup>*\<^sup>* s1 s2" "refr s2 = RWait" "hand s2 = HIdle" "\<not> memorySignaler (tab s2)"
    "httpScaledObjects (tab s2) = httpScaledObjects (tab s)"
    "memoryHolder (tab s2) = Some (newMemoryFromHTTPSOs str T (httpScaledObjects (tab s)))"
    using refresh_from_build [OF s1(2), of E str T] by auto
  then have "settled str T s2" by (auto simp: settled_def fresh_def)
  with s1(1) s2(1,5) show ?thesis by (meson converse_rtranclp_into_rtranclp)
next
  case False
  with assms have "settled str T s" by (auto simp: settled_def up_to_date_def)
  then show ?thesis by blast
qed

text \<open>C13: the refresher always catches up. From every reachable state with the handler between events the
  refresher, without another event, reaches a state in which it waits, no signal is pending and the
  published routing table is the one of the current objects.\<close>

theorem refresh_catches_up:
  assumes r: "(table_step E str T)\<^sup>*\<^sup>* (table_init q) s" and idle: "hand s = HIdle"
  shows "\<exists>s'. (table_step E str T)\<^sup>*\<^sup>* s s' \<and> settled str T s' \<and> httpScaledObjects (tab s') = httpScaledObjects (tab s)"
proof -
  have "\<exists>s1. (table_step E str T)\<^sup>*\<^sup>* s s1 \<and> refr s1 = RWait \<and> hand s1 = HIdle \<and>
      httpScaledObjects (tab s1) = httpScaledObjects (tab s)"
  proof (cases "refr s")
    case RSync
    then obtain s1 where "table_step E str T s s1" "refr s1 = RBuild" "hand s1 = HIdle"
      "httpScaledObjects (tab s1) = httpScaledObjects (tab s)" using refresh_step [of s E str T] idle by auto
    then show ?thesis using refresh_from_build [of s1 E str T] by (metis converse_rtranclp_into_rtranclp)
  next
    case RBuild
    then show ?thesis using refresh_from_build [of s E str T] idle by metis
  next
    case (RSet m)
    then have "table_step E str T s (s\<lparr>tab := (tab s)\<lparr>memoryHolder := AtomicValue_Set (memoryHolder (tab s)) m\<rparr>, refr := RWait\<rparr>)"
      by (rule table_step.publish)
    then show ?thesis using idle by (intro exI conjI) (erule r_into_rtranclp, simp_all)
  next
    case RWait
    with idle show ?thesis by blast
  qed
  then obtain s1 where s1: "(table_step E str T)\<^sup>*\<^sup>* s s1" "refr s1 = RWait" "hand s1 = HIdle"
    "httpScaledObjects (tab s1) = httpScaledObjects (tab s)" by blast
  have "up_to_date str T s1" using r s1(1) by (intro up_to_date_reachable) (rule rtranclp_trans)
  from settle_from_RWait [OF this s1(2,3)] s1(1,4) show ?thesis by (metis rtranclp_trans)
qed

theorem refresh_catches_up_witness:
  "\<exists>s'. (table_step (\<lambda>_. True) demo_str trie_ops)\<^sup>*\<^sup>* (table_init NewMemory) s' \<and> settled demo_str trie_ops s' \<and>
     httpScaledObjects (tab s') = []"
  using refresh_catches_up [of "\<lambda>_. True" demo_str trie_ops NewMemory "table_init NewMemory"]
  by (simp add: table_init_def NewTable_def)

end
