(* ===== verification/Config.thy ===== *)
theory Config
  imports Util
begin

text \<open>
  \<^verbatim>\<open>interceptor/config\<close> and \<^verbatim>\<open>pkg/net\<close>: the configuration of the interceptor with its defaults, the
  validation of it, and dialling with retries. Reading the structs from the environment is the work of
  the \<open>envconfig\<close> library; the records hold what it leaves, the constants the \<open>default\<close> tags.

  \<open>wait.Backoff\<close> of \<open>k8s.io/apimachinery\<close> is a record of the fields the program sets; its method \<open>Step\<close>,
  which mutates the value and returns a sleep, is the argument \<open>step\<close> of \<open>DialContextWithRetry\<close>.
\<close>

section \<open>The configuration\<close>

record TimeoutsConfig =
  Connect :: duration
  KeepAlive :: duration
  CfgResponseHeader :: duration
  WorkloadReplicas :: duration
  ForceHTTP2 :: bool
  MaxIdleConns :: go_int
  IdleConnTimeout :: duration
  TLSHandshakeTimeout :: duration
  ExpectContinueTimeout :: duration

definition defaultTimeouts :: TimeoutsConfig where
  "defaultTimeouts = \<lparr>Connect = 500 * millisecond, KeepAlive = second, CfgResponseHeader = 500 * millisecond,
     WorkloadReplicas = 1500 * millisecond, ForceHTTP2 = False, MaxIdleConns = 100, IdleConnTimeout = 90 * second,
     TLSHandshakeTimeout = 10 * second, ExpectContinueTimeout = second\<rparr>"

record Backoff =
  BackoffDuration :: duration
  Factor :: f64
  Jitter :: f64
  Steps :: go_int

definition Timeouts_Backoff :: "TimeoutsConfig \<Rightarrow> f64 \<Rightarrow> f64 \<Rightarrow> go_int \<Rightarrow> Backoff" where
  "Timeouts_Backoff t factor jitter steps =
     \<lparr>BackoffDuration = Connect t, Factor = factor, Jitter = jitter, Steps = steps\<rparr>"

definition DefaultBackoff :: "TimeoutsConfig \<Rightarrow> Backoff" where
  "DefaultBackoff t = Timeouts_Backoff t 2 (1 / 2) 5"

record ServingConfig =
  CurrentNamespace :: string
  WatchNamespace :: string
  ProxyPort :: go_int
  AdminPort :: go_int
  ConfigMapCacheRsyncPeriod :: duration
  DeploymentCachePollIntervalMS :: go_int
  EndpointsCachePollIntervalMS :: go_int
  ProxyTLSEnabled :: bool
  TLSCertPath :: string
  TLSKeyPath :: string
  TLSCertStorePaths :: string
  TLSSkipVerify :: bool
  TLSPort :: go_int
  ProfilingAddr :: string
  EnableColdStartHeader :: bool
  LogRequests :: bool

text \<open>The defaults of the serving configuration; the namespace and the two ports are required.\<close>

definition defaultServing :: "string \<Rightarrow> go_int \<Rightarrow> go_int \<Rightarrow> ServingConfig" where
  "defaultServing ns proxyPort adminPort =
     \<lparr>CurrentNamespace = ns, WatchNamespace = [], ProxyPort = proxyPort, AdminPort = adminPort,
      ConfigMapCacheRsyncPeriod = 60 * minute, DeploymentCachePollIntervalMS = 250, EndpointsCachePollIntervalMS = 250,
      ProxyTLSEnabled = False, TLSCertPath = ''/certs/tls.crt'', TLSKeyPath = ''/certs/tls.key'', TLSCertStorePaths = [],
      TLSSkipVerify = False, TLSPort = 8443, ProfilingAddr = [], EnableColdStartHeader = True, LogRequests = False\<rparr>"

text \<open>\<open>Validate\<close> changes the serving configuration in place.\<close>

definition deploymentPollEnv :: string where
  "deploymentPollEnv = ''KEDA_HTTP_DEPLOYMENT_CACHE_POLLING_INTERVAL_MS''"

definition endpointsPollEnv :: string where
  "endpointsPollEnv = ''KEDA_HTTP_ENDPOINTS_CACHE_POLLING_INTERVAL_MS''"

definition Validate :: "environment \<Rightarrow> ServingConfig \<Rightarrow> TimeoutsConfig \<Rightarrow> ServingConfig \<times> go_error option" where
  "Validate env srvCfg timeoutsCfg =
     (let deploymentEnvExist = (env deploymentPollEnv \<noteq> None);
          endpointsEnvExist = (env endpointsPollEnv \<noteq> None)
      in if deploymentEnvExist \<and> endpointsEnvExist then
           (srvCfg, Some (ErrMsg (deploymentPollEnv @ '' and '' @ endpointsPollEnv @ '' are mutual exclusive'')))
         else
           (let srvCfg = (if deploymentEnvExist \<and> \<not> endpointsEnvExist
                          then srvCfg\<lparr>EndpointsCachePollIntervalMS := DeploymentCachePollIntervalMS srvCfg,
                                      DeploymentCachePollIntervalMS := 0\<rparr>
                          else srvCfg);
                endpointsCachePollInterval = wrap64 (sint (EndpointsCachePollIntervalMS srvCfg) * millisecond)
            in if WorkloadReplicas timeoutsCfg < endpointsCachePollInterval then
                 (srvCfg, Some (ErrMsg (''workload replicas timeout ('' @ Duration_String (WorkloadReplicas timeoutsCfg) @
                    '') should not be less than the Endpoints Cache Poll Interval ('' @ Duration_String endpointsCachePollInterval @ '')'')))
               else (srvCfg, None)))"

section \<open>Dialling with retries\<close>

text \<open>The loop of \<open>MinTotalBackoffDuration\<close>; \<open>k\<close> is the number of rounds left.\<close>

fun backoff_loop :: "nat \<Rightarrow> int \<Rightarrow> go_int \<Rightarrow> go_int \<Rightarrow> go_int" where
  "backoff_loop 0 i initial retMS = retMS"
| "backoff_loop (Suc k) i initial retMS = backoff_loop k (i + 1) initial (retMS + initial * word_of_int i)"

definition MinTotalBackoffDuration :: "Backoff \<Rightarrow> duration" where
  "MinTotalBackoffDuration backoff =
     (let initial = word_of_int (duration_Milliseconds (BackoffDuration backoff));
          retMS = backoff_loop (nat (sint (Steps backoff) - 1)) 2 initial initial
      in wrap64 (sint retMS * millisecond))"

text \<open>\<open>DialContextWithRetry\<close>. The dialer and the context are what they do in each round: \<open>dial i\<close> is the
  result of the \<open>i\<close>-th \<open>DialContext\<close> and \<open>ended i\<close> the error of the context when the \<open>i\<close>-th \<open>select\<close> takes
  the branch of its end. The result is the connection, the error and the timers that were started.\<close>

fun dial_loop :: "('b \<Rightarrow> 'b \<times> duration) \<Rightarrow> (nat \<Rightarrow> 'c result) \<Rightarrow> (nat \<Rightarrow> go_error option) \<Rightarrow> nat \<Rightarrow> nat \<Rightarrow> 'b \<Rightarrow>
    go_error option \<Rightarrow> 'c option \<times> go_error option \<times> duration list" where
  "dial_loop step dial ended 0 i backoff lastError = (None, lastError, [])"
| "dial_loop step dial ended (Suc k) i backoff lastError =
     (case dial i of
        Inr conn \<Rightarrow> (Some conn, None, [])
      | Inl err \<Rightarrow>
          (let (backoff, sleepDur) = step backoff
           in case ended i of
                Some e \<Rightarrow> (None, Some (WrapErr ''context timed out: '' e), [sleepDur])
              | None \<Rightarrow>
                  (case dial_loop step dial ended k (Suc i) backoff (Some err) of
                     (conn, err', sleeps) \<Rightarrow> (conn, err', sleepDur # sleeps))))"

definition DialContextWithRetry :: "(Backoff \<Rightarrow> Backoff \<times> duration) \<Rightarrow> (nat \<Rightarrow> 'c result) \<Rightarrow> (nat \<Rightarrow> go_error option) \<Rightarrow>
    Backoff \<Rightarrow> 'c option \<times> go_error option \<times> duration list" where
  "DialContextWithRetry step dial ended backoff =
     dial_loop step dial ended (nat (sint (Steps backoff))) 0 backoff None"

section \<open>Lemmas and properties\<close>

text \<open>The sleeps of the first \<open>k\<close> calls of \<open>Step\<close>.\<close>

fun step_sleeps :: "('b \<Rightarrow> 'b \<times> duration) \<Rightarrow> nat \<Rightarrow> 'b \<Rightarrow> duration list" where
  "step_sleeps step 0 b = []"
| "step_sleeps step (Suc k) b = snd (step b) # step_sleeps step k (fst (step b))"

text \<open>The round that ends the dialling early: a connection, or the end of the context.\<close>

definition dial_stop :: "(nat \<Rightarrow> 'c result) \<Rightarrow> (nat \<Rightarrow> go_error option) \<Rightarrow> nat \<Rightarrow> bool" where
  "dial_stop dial ended i \<longleftrightarrow> \<not> isl (dial i) \<or> ended i \<noteq> None"

lemma dial_loop_rounds:
  "dial_loop step dial ended k i b lastError =
     (case find (dial_stop dial ended) [i..<i + k] of
        None \<Rightarrow> (None, if k = 0 then lastError else Some (projl (dial (i + k - 1))), step_sleeps step k b)
      | Some j \<Rightarrow>
          (case dial j of
             Inr conn \<Rightarrow> (Some conn, None, step_sleeps step (j - i) b)
           | Inl _ \<Rightarrow> (None, Some (WrapErr ''context timed out: '' (the (ended j))), step_sleeps step (Suc j - i) b)))"
proof (induction k arbitrary: i b lastError)
  case (Suc k)
  have u: "[i..<i + Suc k] = i # [Suc i..<Suc i + k]" by (simp add: upt_conv_Cons)
  show ?case
  proof (cases "dial_stop dial ended i")
    case True
    then show ?thesis
      unfolding u by (cases "dial i") (auto simp: dial_stop_def split: prod.split)
  next
    case False
    then obtain e where e: "dial i = Inl e" "ended i = None" by (cases "dial i") (auto simp: dial_stop_def)
    have later: "Suc i \<le> j" if "find (dial_stop dial ended) [Suc i..<Suc i + k] = Some j" for j
      using find_Some_mem [OF that] by auto
    have "step_sleeps step (j - i) b = snd (step b) # step_sleeps step (j - Suc i) (fst (step b))"
      "step_sleeps step (Suc j - i) b = snd (step b) # step_sleeps step (Suc j - Suc i) (fst (step b))"
      if "Suc i \<le> j" for j
      using that by (simp_all add: Suc_diff_le flip: Suc_diff_Suc)
    then show ?thesis
      unfolding u using False e later
      by (cases "step b") (auto simp: Suc.IH simp del: upt_Suc split: option.splits sum.splits)
  qed
qed simp

text \<open>Dialling stops at the first round that connects or sees the end of the context, and otherwise
  fails with the error of the last of \<open>Steps\<close> attempts. A connection comes with no error, an ended
  context wraps its error, and every failed attempt, the last one too, is followed by the next sleep of the
  backoff.\<close>

theorem DialContextWithRetry_outcome:
  "DialContextWithRetry step dial ended b =
     (case find (dial_stop dial ended) [0..<nat (sint (Steps b))] of
        None \<Rightarrow> (None, if sint (Steps b) \<le> 0 then None else Some (projl (dial (nat (sint (Steps b)) - 1))),
                  step_sleeps step (nat (sint (Steps b))) b)
      | Some j \<Rightarrow>
          (case dial j of
             Inr conn \<Rightarrow> (Some conn, None, step_sleeps step j b)
           | Inl _ \<Rightarrow> (None, Some (WrapErr ''context timed out: '' (the (ended j))), step_sleeps step (Suc j) b)))"
  using dial_loop_rounds [of step dial ended "nat (sint (Steps b))" 0 b None]
  by (simp add: DialContextWithRetry_def split: option.split sum.split)

lemma backoff_loop_sum:
  "backoff_loop k i initial retMS = retMS + initial * word_of_int (\<Sum>j = 0..<k. i + int j)"
proof (induction k arbitrary: i retMS)
  case (Suc k)
  have "(\<Sum>j = 0..<Suc k. i + int j) = i + (\<Sum>j = 0..<k. i + 1 + int j)"
    by (simp add: sum.atLeast0_lessThan_Suc_shift ac_simps del: sum.op_ivl_Suc)
  then show ?case by (simp add: Suc.IH algebra_simps)
qed simp

lemma triangle: "1 + (\<Sum>j = 0..<k. 2 + int j) = (int k + 1) * (int k + 2) div 2"
proof (induction k)
  case (Suc k)
  have "(int k + 2) * (int k + 3) = (int k + 1) * (int k + 2) + 2 * (int k + 2)" by (simp add: algebra_simps)
  then have "(int k + 2) * (int k + 3) div 2 = (int k + 1) * (int k + 2) div 2 + (int k + 2)" by simp
  then show ?case using Suc by (simp add: algebra_simps)
qed simp

lemma triangle_le_power: "(int n * (int n + 1)) div 2 \<le> 2 ^ n - 1"
proof (induction n)
  case (Suc n)
  have s: "int (Suc n) * (int (Suc n) + 1) = int n * (int n + 1) + 2 * (int n + 1)" by (simp add: algebra_simps)
  have "int n + 1 \<le> 2 ^ n" using less_exp [of n] by (metis Suc_leI of_nat_Suc of_nat_le_iff of_nat_numeral of_nat_power add.commute)
  moreover have "int (Suc n) * (int (Suc n) + 1) div 2 = int n * (int n + 1) div 2 + (int n + 1)" unfolding s by simp
  ultimately show ?case using Suc by simp
qed simp

text \<open>for a backoff of \<open>n \<ge> 1\<close> steps that starts with \<open>d\<close> milliseconds, \<open>MinTotalBackoffDuration\<close> is the
  triangular \<open>d * n * (n + 1) / 2\<close>, which is at most the \<open>d * (2\<^sup>n - 1)\<close> of sleeps that double, as the
  default backoff's do.\<close>

theorem MinTotalBackoffDuration_bound:
  assumes "sint (Steps b) = int n" "1 \<le> n" "0 \<le> BackoffDuration b"
    "duration_Milliseconds (BackoffDuration b) * (2 ^ n - 1) * millisecond < 2 ^ 63"
  shows "MinTotalBackoffDuration b = duration_Milliseconds (BackoffDuration b) * (int n * (int n + 1) div 2) * millisecond \<and>
    MinTotalBackoffDuration b \<le> duration_Milliseconds (BackoffDuration b) * (2 ^ n - 1) * millisecond"
proof -
  let ?d = "duration_Milliseconds (BackoffDuration b)" and ?t = "int n * (int n + 1) div 2"
  have d: "0 \<le> ?d" using assms(3) by (simp add: duration_Milliseconds_def sdiv_nonneg millisecond_def)
  have le: "?d * ?t * millisecond \<le> ?d * (2 ^ n - 1) * millisecond"
    using d triangle_le_power [of n] by (intro mult_mono) (auto simp: millisecond_def)
  have n: "int (n - 1) = int n - 1" using assms(2) by simp
  have "backoff_loop (nat (sint (Steps b) - 1)) 2 (word_of_int ?d) (word_of_int ?d) =
      (word_of_int (?d * (1 + (\<Sum>j = 0..<n - 1. 2 + int j))) :: go_int)"
    using assms(1,2) by (simp add: backoff_loop_sum nat_diff_distrib' algebra_simps)
  also have "1 + (\<Sum>j = 0..<n - 1. 2 + int j) = ?t" unfolding triangle n by (simp add: algebra_simps)
  finally have loop: "backoff_loop (nat (sint (Steps b) - 1)) 2 (word_of_int ?d) (word_of_int ?d) = (word_of_int (?d * ?t) :: go_int)" .
  have t: "0 \<le> ?t" by simp
  have small: "0 \<le> ?d * ?t" "?d * ?t * millisecond < 2 ^ 63" using d t le assms(4) by simp_all
  then have "?d * ?t < 2 ^ 63" by (simp add: millisecond_def)
  then have "sint (word_of_int (?d * ?t) :: go_int) = ?d * ?t"
    using small wrap64_id [of "?d * ?t"] by (simp add: wrap64_def)
  then have eq: "MinTotalBackoffDuration b = ?d * ?t * millisecond"
    using small wrap64_id [of "?d * ?t * millisecond"] by (simp add: MinTotalBackoffDuration_def Let_def loop millisecond_def)
  with le show ?thesis by simp
qed

theorem MinTotalBackoffDuration_bound_witness:
  "MinTotalBackoffDuration (DefaultBackoff defaultTimeouts) = 7500 * millisecond \<and>
   MinTotalBackoffDuration (DefaultBackoff defaultTimeouts) \<le> 15500 * millisecond"
  using MinTotalBackoffDuration_bound [of "DefaultBackoff defaultTimeouts" 5]
  by (simp add: DefaultBackoff_def Timeouts_Backoff_def defaultTimeouts_def millisecond_def duration_Milliseconds_def sdiv_nonneg)

text \<open>the validation accepts a configuration exactly when not both polling intervals are set and the
  timeout for replicas is at least the interval that is in force, the deprecated one when only that is set;
  then it leaves the interval in force in \<open>EndpointsCachePollIntervalMS\<close>.\<close>

theorem Validate_accepts:
  "(\<exists>srv'. Validate env srv ts = (srv', None) \<and>
      EndpointsCachePollIntervalMS srv' =
        (if env deploymentPollEnv = None then EndpointsCachePollIntervalMS srv else DeploymentCachePollIntervalMS srv)) \<longleftrightarrow>
   (env deploymentPollEnv = None \<or> env endpointsPollEnv = None) \<and>
   wrap64 (sint (if env deploymentPollEnv = None then EndpointsCachePollIntervalMS srv else DeploymentCachePollIntervalMS srv) *
     millisecond) \<le> WorkloadReplicas ts"
  by (auto simp: Validate_def Let_def)

end
