(* ===== verification/K8s.thy ===== *)
theory K8s
  imports Go_HTTP "HOL-Library.Multiset"
begin

text \<open>
  \<^verbatim>\<open>pkg/k8s\<close>: endpoint slices, the addresses behind a service, and the two caches of the interceptor. The
  listers of client-go, the API server and the construction of a label selector are arguments of the
  definitions. The broadcaster of the endpoints cache is the list of the events it has been given; a
  watcher receives them through its filter. \<open>maps.Keys\<close> yields the keys of a map in an order that Go
  leaves open, the argument \<open>ord\<close>.
\<close>

section \<open>Endpoint slices\<close>

record endpoint =
  EpReady :: "bool option"
  EpAddresses :: "string list"

record EndpointSlice =
  EsNamespace :: string
  EsLabels :: "string \<rightharpoonup> string"
  EsEndpoints :: "endpoint list"

definition labelServiceName :: string where
  "labelServiceName = ''kubernetes.io/service-name''"

text \<open>\<open>depl.GetLabels()[discov1.LabelServiceName]\<close> is the empty string without the label.\<close>

definition service_label :: "EndpointSlice \<Rightarrow> string" where
  "service_label s = (case EsLabels s labelServiceName of None \<Rightarrow> [] | Some v \<Rightarrow> v)"

section \<open>The addresses of a service\<close>

record Endpoints =
  ReadyAddresses :: "string list"
  NotReadyAddresses :: "string list"

text \<open>A \<open>map[string]bool\<close> whose values are all true is the list of its keys.\<close>

definition add_addresses :: "endpoint \<Rightarrow> string list \<times> string list \<Rightarrow> string list \<times> string list" where
  "add_addresses addr maps =
     (let (ready, notReady) = maps
      in if EpReady addr = None \<or> EpReady addr = Some True
         then (fold List.insert (EpAddresses addr) ready, notReady)
         else (ready, fold List.insert (EpAddresses addr) notReady))"

definition extractAddresses :: "(string list \<Rightarrow> string list) \<Rightarrow> EndpointSlice list \<Rightarrow> Endpoints" where
  "extractAddresses ord eps =
     (let (ready, notReady) = fold (\<lambda>ep. fold add_addresses (EsEndpoints ep)) eps ([], [])
      in \<lparr>ReadyAddresses = ord ready, NotReadyAddresses = ord notReady\<rparr>)"

text \<open>A \<open>GetEndpointsFunc\<close> for a client that lists the slices of a service.\<close>

type_synonym GetEndpointsFunc = "string \<Rightarrow> string \<Rightarrow> Endpoints result"

definition EndpointsFuncForK8sClientset :: "(string list \<Rightarrow> string list) \<Rightarrow>
    (string \<Rightarrow> string \<Rightarrow> EndpointSlice list result) \<Rightarrow> GetEndpointsFunc" where
  "EndpointsFuncForK8sClientset ord list_slices ns serviceName =
     (case list_slices ns (labelServiceName @ ''='' @ serviceName) of
        Inl err \<Rightarrow> Inl err
      | Inr ess \<Rightarrow> Inr (extractAddresses ord ess))"

definition EndpointsFuncForControllerClient :: "(string list \<Rightarrow> string list) \<Rightarrow>
    (string \<Rightarrow> (string \<times> string) list \<Rightarrow> EndpointSlice list result) \<Rightarrow> GetEndpointsFunc" where
  "EndpointsFuncForControllerClient ord list_matching ns serviceName =
     (case list_matching ns [(labelServiceName, serviceName)] of
        Inl err \<Rightarrow> Inl err
      | Inr ess \<Rightarrow> Inr (extractAddresses ord ess))"

definition EndpointsForService :: "string \<Rightarrow> string \<Rightarrow> string \<Rightarrow> GetEndpointsFunc \<Rightarrow> URL list result" where
  "EndpointsForService ns serviceName servicePort endpointsFn =
     (case endpointsFn ns serviceName of
        Inl err \<Rightarrow> Inl (WrapErr ''pkg.k8s.EndpointsForService: '' err)
      | Inr endpoints \<Rightarrow>
          Inr (map (\<lambda>addr. \<lparr>Scheme = ''http'', URLHost = addr @ '':'' @ servicePort, Path = [], RawPath = [], RawQuery = []\<rparr>)
                 (ReadyAddresses endpoints)))"

section \<open>The endpoints cache\<close>

datatype watch_type = Added | Modified | Deleted

text \<open>What an informer hands to a handler: an endpoint slice, or something else such as the tombstone of a
  missed deletion.\<close>

datatype slice_object = SliceObject EndpointSlice | OtherSliceObject

type_synonym broadcaster = "(watch_type \<times> EndpointSlice) list"

definition broadcast :: "watch_type \<Rightarrow> slice_object \<Rightarrow> broadcaster \<Rightarrow> broadcaster" where
  "broadcast ty obj bcaster = (case obj of SliceObject depl \<Rightarrow> bcaster @ [(ty, depl)] | OtherSliceObject \<Rightarrow> bcaster)"

definition addEvtHandler :: "slice_object \<Rightarrow> broadcaster \<Rightarrow> broadcaster" where
  "addEvtHandler obj = broadcast Added obj"

definition updateEvtHandler :: "slice_object \<Rightarrow> slice_object \<Rightarrow> broadcaster \<Rightarrow> broadcaster" where
  "updateEvtHandler oldObj newObj = broadcast Modified newObj"

definition deleteEvtHandler :: "slice_object \<Rightarrow> broadcaster \<Rightarrow> broadcaster" where
  "deleteEvtHandler obj = broadcast Deleted obj"

text \<open>The events a watcher opened when the broadcaster had seen \<open>n\<close> events receives.\<close>

definition watchFilter :: "string \<Rightarrow> string \<Rightarrow> watch_type \<times> EndpointSlice \<Rightarrow> bool" where
  "watchFilter ns nm e \<longleftrightarrow> EsNamespace (snd e) = ns \<and> service_label (snd e) = nm"

definition EndpointsCache_Watch :: "string \<Rightarrow> string \<Rightarrow> nat \<Rightarrow> broadcaster \<Rightarrow> (watch_type \<times> EndpointSlice) list" where
  "EndpointsCache_Watch ns nm n bcaster = filter (watchFilter ns nm) (drop n bcaster)"

definition EndpointsCache_Get :: "(string \<Rightarrow> go_error option) \<Rightarrow> (string \<Rightarrow> string \<Rightarrow> EndpointSlice list result) \<Rightarrow>
    string \<Rightarrow> string \<Rightarrow> EndpointSlice result" where
  "EndpointsCache_Get newRequirement lister ns nm =
     (case newRequirement nm of
        Some err \<Rightarrow> Inl err
      | None \<Rightarrow>
          (case lister ns nm of
             Inl err \<Rightarrow> Inl err
           | Inr [] \<Rightarrow> Inl (ErrMsg ''no matching endpoints found'')
           | Inr (depl # _) \<Rightarrow> Inr depl))"

text \<open>The dump of the cache; \<open>listed\<close> is what the lister has for all labels.\<close>

definition EndpointsCache_MarshalJSON :: "(EndpointSlice list \<Rightarrow> string result) \<Rightarrow> EndpointSlice list result \<Rightarrow> string result" where
  "EndpointsCache_MarshalJSON encode listed = (case listed of Inl err \<Rightarrow> Inl err | Inr depls \<Rightarrow> encode depls)"

text \<open>The cache as its constructor makes it: an empty broadcaster, and whether the handlers are registered. That they are not is
  only logged. The informer then delivers its events to the handlers that are there.\<close>

record endpoints_cache =
  bcaster :: broadcaster
  registered :: bool

definition NewInformerBackedEndpointsCache :: "go_error option \<Rightarrow> endpoints_cache" where
  "NewInformerBackedEndpointsCache addErr = \<lparr>bcaster = [], registered = (addErr = None)\<rparr>"

datatype slice_event = SliceAdd slice_object | SliceUpdate slice_object slice_object | SliceDelete slice_object

definition deliver_slice :: "slice_event \<Rightarrow> endpoints_cache \<Rightarrow> endpoints_cache" where
  "deliver_slice ev i =
     (if registered i then
        i\<lparr>bcaster := (case ev of
           SliceAdd obj \<Rightarrow> addEvtHandler obj (bcaster i)
         | SliceUpdate oldObj newObj \<Rightarrow> updateEvtHandler oldObj newObj (bcaster i)
         | SliceDelete obj \<Rightarrow> deleteEvtHandler obj (bcaster i))\<rparr>
      else i)"

section \<open>The service cache\<close>

text \<open>A service: the names and numbers of its ports.\<close>

type_synonym service = "(string \<times> int32) list"
type_synonym service_cache = "string \<Rightarrow> string \<Rightarrow> service result"

definition ServicesCache_Get :: "service_cache \<Rightarrow> service_cache \<Rightarrow> service_cache" where
  "ServicesCache_Get svcLister api ns nm = (case svcLister ns nm of Inr svc \<Rightarrow> Inr svc | Inl _ \<Rightarrow> api ns nm)"

section \<open>Lemmas and properties\<close>

text \<open>A watcher that is opened at once sees every event about its service in the order of the informer, unless the handlers could not be
  registered, and then it never sees any.\<close>

definition sent_event :: "slice_event \<Rightarrow> (watch_type \<times> EndpointSlice) list" where
  "sent_event ev =
     (case ev of
        SliceAdd (SliceObject s) \<Rightarrow> [(Added, s)]
      | SliceUpdate _ (SliceObject s) \<Rightarrow> [(Modified, s)]
      | SliceDelete (SliceObject s) \<Rightarrow> [(Deleted, s)]
      | _ \<Rightarrow> [])"

lemma watch_sees_events:
  "EndpointsCache_Watch ns nm 0 (bcaster (fold deliver_slice evs (NewInformerBackedEndpointsCache addErr))) =
     (if addErr = None then filter (watchFilter ns nm) (concat (map sent_event evs)) else [])"
proof -
  have "bcaster (fold deliver_slice evs i) = bcaster i @ (if registered i then concat (map sent_event evs) else [])" for i
  proof (induction evs arbitrary: i)
    case (Cons ev evs)
    have "bcaster (deliver_slice ev i) = bcaster i @ (if registered i then sent_event ev else [])"
      "registered (deliver_slice ev i) = registered i"
      by (auto simp: deliver_slice_def sent_event_def addEvtHandler_def updateEvtHandler_def deleteEvtHandler_def broadcast_def
          split: slice_event.split slice_object.split)
    with Cons [of "deliver_slice ev i"] show ?case by simp
  qed simp
  then show ?thesis by (simp add: EndpointsCache_Watch_def NewInformerBackedEndpointsCache_def)
qed

lemma fold_insert_set: "set (fold List.insert xs ys) = set ys \<union> set xs" "distinct ys \<Longrightarrow> distinct (fold List.insert xs ys)"
  by (induction xs arbitrary: ys) auto

definition ready_addresses :: "endpoint list \<Rightarrow> string set" where
  "ready_addresses es = (\<Union>e\<in>{e \<in> set es. EpReady e \<noteq> Some False}. set (EpAddresses e))"

definition unready_addresses :: "endpoint list \<Rightarrow> string set" where
  "unready_addresses es = (\<Union>e\<in>{e \<in> set es. EpReady e = Some False}. set (EpAddresses e))"

lemma add_addresses_fold:
  assumes "distinct (fst m)" "distinct (snd m)"
  shows "distinct (fst (fold add_addresses es m)) \<and> distinct (snd (fold add_addresses es m)) \<and>
    set (fst (fold add_addresses es m)) = set (fst m) \<union> ready_addresses es \<and>
    set (snd (fold add_addresses es m)) = set (snd m) \<union> unready_addresses es"
  using assms
proof (induction es arbitrary: m)
  case Nil
  then show ?case by (simp add: ready_addresses_def unready_addresses_def)
next
  case (Cons e es)
  have r: "ready_addresses (e # es) = (if EpReady e = Some False then {} else set (EpAddresses e)) \<union> ready_addresses es"
    "unready_addresses (e # es) = (if EpReady e = Some False then set (EpAddresses e) else {}) \<union> unready_addresses es"
    by (auto simp: ready_addresses_def unready_addresses_def)
  have b: "EpReady e = None \<or> EpReady e = Some True \<longleftrightarrow> EpReady e \<noteq> Some False" by (cases "EpReady e") auto
  let ?m = "add_addresses e m"
  have "distinct (fst ?m)" "distinct (snd ?m)"
    "set (fst ?m) = set (fst m) \<union> (if EpReady e = Some False then {} else set (EpAddresses e))"
    "set (snd ?m) = set (snd m) \<union> (if EpReady e = Some False then set (EpAddresses e) else {})"
    using Cons.prems by (cases m; auto simp: add_addresses_def b fold_insert_set)+
  with Cons.IH [of ?m] show ?case unfolding r by auto
qed

lemma fold_slices: "fold (\<lambda>ep. fold add_addresses (EsEndpoints ep)) eps m = fold add_addresses (concat (map EsEndpoints eps)) m"
  by (induction eps arbitrary: m) simp_all

text \<open>The ready addresses of a service are, without repetition, exactly the addresses of the endpoints that
  are ready or of unknown readiness in any of its slices, and \<open>EndpointsForService\<close> gives one URL with the
  port for each of them.\<close>

theorem EndpointsForService_ready:
  assumes "\<And>xs. mset (ord xs) = mset xs" "list_slices ns (labelServiceName @ ''='' @ svc) = Inr ess"
  shows "\<exists>urls. EndpointsForService ns svc port (EndpointsFuncForK8sClientset ord list_slices) = Inr urls \<and> distinct urls \<and>
    URLHost ` set urls =
      {addr @ '':'' @ port | addr. \<exists>s\<in>set ess. \<exists>e\<in>set (EsEndpoints s). EpReady e \<noteq> Some False \<and> addr \<in> set (EpAddresses e)}"
proof -
  obtain ready notReady where m: "fold add_addresses (concat (map EsEndpoints ess)) ([], []) = (ready, notReady)" by fastforce
  have r: "distinct ready" "set ready = ready_addresses (concat (map EsEndpoints ess))"
    using add_addresses_fold [of "([], [])" "concat (map EsEndpoints ess)"] by (simp_all add: m)
  have o: "distinct (ord ready)" "set (ord ready) = set ready"
    using r(1) assms(1) [of ready] by (metis mset_eq_imp_distinct_iff, metis mset_eq_setD)
  have u: "EndpointsForService ns svc port (EndpointsFuncForK8sClientset ord list_slices) =
      Inr (map (\<lambda>addr. \<lparr>Scheme = ''http'', URLHost = addr @ '':'' @ port, Path = [], RawPath = [], RawQuery = []\<rparr>) (ord ready))"
    unfolding EndpointsForService_def EndpointsFuncForK8sClientset_def assms(2) by (simp add: extractAddresses_def fold_slices m)
  show ?thesis unfolding u using o r
    by (auto simp: distinct_map inj_on_def ready_addresses_def image_image image_iff)
qed

theorem EndpointsForService_ready_witness:
  "\<exists>urls. EndpointsForService ''ns'' ''svc'' ''9090'' (EndpointsFuncForK8sClientset rev
      (\<lambda>_ _. Inr [\<lparr>EsNamespace = ''ns'', EsLabels = Map.empty,
        EsEndpoints = [\<lparr>EpReady = None, EpAddresses = [''10.0.0.1'']\<rparr>, \<lparr>EpReady = Some False, EpAddresses = [''10.0.0.2'']\<rparr>]\<rparr>])) = Inr urls \<and>
     URLHost ` set urls = {''10.0.0.1:9090''}"
proof -
  let ?es = "[\<lparr>EsNamespace = ''ns'', EsLabels = Map.empty,
    EsEndpoints = [\<lparr>EpReady = None, EpAddresses = [''10.0.0.1'']\<rparr>, \<lparr>EpReady = Some False, EpAddresses = [''10.0.0.2'']\<rparr>]\<rparr>]"
  show ?thesis
    using EndpointsForService_ready [of rev "\<lambda>_ _. Inr ?es" "''ns''" "''svc''" ?es "''9090''"] by auto
qed

end
