(* ===== verification/Tracing.thy ===== *)
theory Tracing
  imports Prelude
begin

text \<open>
  \<^verbatim>\<open>interceptor/tracing/tracing.go\<close> and \<^verbatim>\<open>interceptor/config/tracing.go\<close>: the choice of the exporter of traces and the
  set-up of the OpenTelemetry SDK with the clean-up function it hands out. The constructors of the SDK, its global
  state and the shutdown of a tracer provider are arguments. An error that \<open>errors.Join\<close> builds is the list of the errors
  it joins, nil the empty list.
\<close>

section \<open>The set-up\<close>

record TracingConfig =
  TracingEnabled :: bool
  Exporter :: string

definition defaultTracing :: TracingConfig where
  "defaultTracing = \<lparr>TracingEnabled = False, Exporter = ''console''\<rparr>"

datatype exporter = StdoutExporter | OtlpHTTPExporter | OtlpGRPCExporter

definition newExporter :: "(exporter \<Rightarrow> go_error option) \<Rightarrow> TracingConfig \<Rightarrow> exporter result" where
  "newExporter new tCfg =
     (let make = (\<lambda>x. case new x of None \<Rightarrow> Inr x | Some e \<Rightarrow> Inl e);
          protocol = to_lower (Exporter tCfg)
      in if protocol = ''console'' then make StdoutExporter
         else if protocol = ''http/protobuf'' then make OtlpHTTPExporter
         else if protocol = ''grpc'' then make OtlpGRPCExporter
         else Inl (ErrMsg ''no valid tracing exporter defined''))"

text \<open>A tracer provider samples every trace and sends it to its exporter in batches.\<close>

datatype tracer_provider = TracerProvider exporter

definition newTraceProvider :: "(exporter \<Rightarrow> go_error option) \<Rightarrow> TracingConfig \<Rightarrow> tracer_provider result" where
  "newTraceProvider new tCfg = (case newExporter new tCfg of Inl e \<Rightarrow> Inl e | Inr x \<Rightarrow> Inr (TracerProvider x))"

datatype propagator = TraceContext | Baggage | B3

definition NewPropagator :: "propagator list" where
  "NewPropagator = [TraceContext, Baggage, B3]"

text \<open>The global state of the SDK, and the variable \<open>shutdownFuncs\<close> that the function \<open>shutdown\<close> captures: the tracer
  providers whose method \<open>Shutdown\<close> is registered. \<open>shutCalls\<close> lists those that have been shut down.\<close>

record otel_state =
  textMapPropagator :: "propagator list"
  tracerProvider :: "tracer_provider option"
  shutdownFuncs :: "tracer_provider list"
  shutCalls :: "tracer_provider list"

definition shutdown :: "(tracer_provider \<Rightarrow> go_error option) \<Rightarrow> otel_state \<Rightarrow> otel_state \<times> go_error list" where
  "shutdown close s =
     (s\<lparr>shutdownFuncs := [], shutCalls := shutCalls s @ shutdownFuncs s\<rparr>,
      foldl (\<lambda>err fn. err @ (case close fn of None \<Rightarrow> [] | Some e \<Rightarrow> [e])) [] (shutdownFuncs s))"

definition SetupOTelSDK :: "(exporter \<Rightarrow> go_error option) \<Rightarrow> (tracer_provider \<Rightarrow> go_error option) \<Rightarrow> go_error option \<Rightarrow>
    TracingConfig \<Rightarrow> otel_state \<Rightarrow> otel_state \<times> go_error list" where
  "SetupOTelSDK new close newResource tCfg s =
     (let s = s\<lparr>shutdownFuncs := []\<rparr>;
          handleErr = (\<lambda>inErr s. let (s, errs) = shutdown close s in (s, inErr # errs))
      in case newResource of
           Some err \<Rightarrow> handleErr err s
         | None \<Rightarrow>
             (let s = s\<lparr>textMapPropagator := NewPropagator\<rparr>
              in case newTraceProvider new tCfg of
                   Inl err \<Rightarrow> handleErr err s
                 | Inr tp \<Rightarrow> (s\<lparr>shutdownFuncs := shutdownFuncs s @ [tp], tracerProvider := Some tp\<rparr>, [])))"

section \<open>What it does\<close>

lemma newExporter_iff:
  "newExporter new tCfg = Inr x \<longleftrightarrow>
     (to_lower (Exporter tCfg), x) \<in> {(''console'', StdoutExporter), (''http/protobuf'', OtlpHTTPExporter), (''grpc'', OtlpGRPCExporter)} \<and>
     new x = None"
  by (auto simp: newExporter_def Let_def split: option.splits)

text \<open>Setting up succeeds exactly when the protocol is one of the three, in any case of letters, and the SDK builds the
  resource and the exporter. Then the provider is in force and the first call of the clean-up function shuts it down, and
  every later call does nothing; otherwise the old provider stays and there is nothing to shut down.\<close>

theorem SetupOTelSDK_outcome:
  "let (s', errs) = SetupOTelSDK new close newResource tCfg s; (s1, errs1) = shutdown close s'; (s2, errs2) = shutdown close s1
   in (errs = [] \<longleftrightarrow> newResource = None \<and> (\<exists>x. newExporter new tCfg = Inr x)) \<and>
     tracerProvider s' = (if errs = [] then Some (TracerProvider (projr (newExporter new tCfg))) else tracerProvider s) \<and>
     shutCalls s1 = shutCalls s @ (if errs = [] then [TracerProvider (projr (newExporter new tCfg))] else []) \<and> s2 = s1 \<and> errs2 = []"
  by (cases "newExporter new tCfg")
    (auto simp: SetupOTelSDK_def shutdown_def newTraceProvider_def Let_def split: option.split)

end
