(* ===== verification/Interceptor.thy ===== *)
theory Interceptor
  imports Route_Table Config K8s Tracing
begin

text \<open>
  The request path of the interceptor: \<^verbatim>\<open>interceptor/handler\<close>, \<^verbatim>\<open>interceptor/middleware\<close>,
  \<^verbatim>\<open>interceptor/proxy_handlers.go\<close> and \<^verbatim>\<open>interceptor/forward_wait_func.go\<close>.

  A response writer collects headers, the status and the body the way \<open>net/http\<close> does: the first
  \<open>WriteHeader\<close> counts and a \<open>Write\<close> without one implies status 200. The interface
  \<open>http.ResponseWriter\<close> is the record \<open>writer_ops\<close> of its methods, and handlers are functions from a
  writer of any implementation and a request to the writer they leave and the panic they end in, if any. \<open>url.Parse\<close>, the service cache, the endpoints cache
  and the upstream servers are arguments of the definitions.
\<close>

section \<open>Responses\<close>

record ResponseWriter =
  RespHeader :: Header
  RespStatus :: "int option"
  RespBody :: string

definition newResponse :: ResponseWriter where
  "newResponse = \<lparr>RespHeader = Map.empty, RespStatus = None, RespBody = []\<rparr>"

definition WriteHeader :: "ResponseWriter \<Rightarrow> int \<Rightarrow> ResponseWriter" where
  "WriteHeader w code = (if RespStatus w = None then w\<lparr>RespStatus := Some code\<rparr> else w)"

definition Write :: "ResponseWriter \<Rightarrow> string \<Rightarrow> ResponseWriter" where
  "Write w b = (WriteHeader w 200)\<lparr>RespBody := RespBody w @ b\<rparr>"

text \<open>The interface: \<open>Header\<close> gives a map that its users change in place, so there is an operation to set it.\<close>

record 'w writer_ops =
  op_Header :: "'w \<Rightarrow> Header"
  op_SetHeader :: "'w \<Rightarrow> Header \<Rightarrow> 'w"
  op_WriteHeader :: "'w \<Rightarrow> int \<Rightarrow> 'w"
  op_Write :: "'w \<Rightarrow> string \<Rightarrow> 'w"

definition net_http :: "ResponseWriter writer_ops" where
  "net_http = \<lparr>op_Header = RespHeader, op_SetHeader = (\<lambda>w h. w\<lparr>RespHeader := h\<rparr>), op_WriteHeader = WriteHeader, op_Write = Write\<rparr>"

lemma net_http_simps [simp]:
  "op_Header net_http = RespHeader" "op_SetHeader net_http w h = w\<lparr>RespHeader := h\<rparr>"
  "op_WriteHeader net_http = WriteHeader" "op_Write net_http = Write"
  by (simp_all add: net_http_def)

definition StatusText :: "int \<Rightarrow> string" where
  "StatusText code =
     (if code = 200 then ''OK''
      else if code = 404 then ''Not Found''
      else if code = 500 then ''Internal Server Error''
      else if code = 502 then ''Bad Gateway''
      else if code = 503 then ''Service Unavailable''
      else [])"

text \<open>\<^verbatim>\<open>handler/static.go\<close>: the status and its text; the error is only logged.\<close>

definition Static_ServeHTTP :: "'w writer_ops \<Rightarrow> int \<Rightarrow> go_error option \<Rightarrow> 'w \<Rightarrow> Request \<Rightarrow> 'w" where
  "Static_ServeHTTP W code err w r = op_Write W (op_WriteHeader W w code) (StatusText code)"

section \<open>The probe handler\<close>

record Probe =
  healthyFlag :: bool

definition NewProbe :: Probe where
  "NewProbe = \<lparr>healthyFlag = False\<rparr>"

text \<open>\<open>check\<close> asks the health checkers in turn and stops at the first error.\<close>

fun Probe_check :: "(unit \<Rightarrow> go_error option) list \<Rightarrow> Probe \<Rightarrow> Probe" where
  "Probe_check [] ph = ph\<lparr>healthyFlag := True\<rparr>"
| "Probe_check (hc # hcs) ph =
     (case hc () of Some err \<Rightarrow> ph\<lparr>healthyFlag := False\<rparr> | None \<Rightarrow> Probe_check hcs ph)"

definition Probe_ServeHTTP :: "'w writer_ops \<Rightarrow> Probe \<Rightarrow> 'w \<Rightarrow> Request \<Rightarrow> 'w" where
  "Probe_ServeHTTP W ph w r =
     (let sc = (if \<not> healthyFlag ph then 503 else 200) in op_Write W (op_WriteHeader W w sc) (StatusText sc))"

section \<open>The routing middleware\<close>

text \<open>\<^verbatim>\<open>middleware/routing.go\<close>. The regular expressions \<^verbatim>\<open>(^|\s)kube-probe/\<close> and so on match at the start of
  the user agent or after white space.\<close>

definition is_space :: "char \<Rightarrow> bool" where
  "is_space c \<longleftrightarrow> c \<in> {CHR '' '', CHR 0x09, CHR 0x0A, CHR 0x0C, CHR 0x0D}"

fun token_at :: "string \<Rightarrow> bool \<Rightarrow> string \<Rightarrow> bool" where
  "token_at tok boundary [] = (boundary \<and> tok = [])"
| "token_at tok boundary (c # s) = ((boundary \<and> prefix tok (c # s)) \<or> token_at tok (is_space c) s)"

definition isProbe :: "Request \<Rightarrow> bool" where
  "isProbe r =
     (let ua = UserAgent r
      in token_at ''kube-probe/'' True ua \<or> token_at ''GoogleHC/'' True ua \<or> token_at ''ELB-HealthChecker/'' True ua)"

definition getPort :: "service_cache \<Rightarrow> HTTPScaledObject \<Rightarrow> Ref \<Rightarrow> int32 result" where
  "getPort svcCache httpso reference =
     (if GetPort reference \<noteq> 0 then Inr (GetPort reference)
      else if GetPortName reference = [] then Inl (ErrMsg ''must specify either \"port\" or \"portName\"'')
      else case svcCache (GetNamespace httpso) (GetServiceName reference) of
             Inl err \<Rightarrow> Inl (WrapErr ''failed to get Service: '' err)
           | Inr ports \<Rightarrow>
               (case find (\<lambda>(nm, _). nm = GetPortName reference) ports of
                  Some (_, port) \<Rightarrow> Inr port
                | None \<Rightarrow> Inl (ErrMsg (''portName \"'' @ GetPortName reference @ ''\" not found in Service''))))"

definition streamFromHTTPSO :: "(string \<Rightarrow> URL result) \<Rightarrow> service_cache \<Rightarrow> bool \<Rightarrow> HTTPScaledObject \<Rightarrow> Ref \<Rightarrow> URL result" where
  "streamFromHTTPSO urlParse svcCache tlsEnabled httpso reference =
     (case getPort svcCache httpso reference of
        Inl err \<Rightarrow> Inl (WrapErr ''failed to get port: '' err)
      | Inr port \<Rightarrow>
          urlParse ((if tlsEnabled then ''https://'' else ''http://'') @ GetServiceName reference @ ''.'' @
            GetNamespace httpso @ '':'' @ itoa (sint port)))"

text \<open>What the middleware does with a request: the probe handler, a static response, or the upstream
  handler with the object and the streams in the request's context.\<close>

datatype routing_decision =
    ToProbe
  | ToStatic int "go_error option" Request
  | ToUpstream Request

definition Routing_decide :: "(string \<Rightarrow> URL result) \<Rightarrow> service_cache \<Rightarrow> bool \<Rightarrow> HTTPScaledObject option \<Rightarrow> Request \<Rightarrow>
    routing_decision" where
  "Routing_decide urlParse svcCache tlsEnabled routed r =
     (case routed of
        None \<Rightarrow> if isProbe r then ToProbe else ToStatic 404 None r
      | Some httpso \<Rightarrow>
          (let r = RequestWithHTTPSO r (Some httpso)
           in case streamFromHTTPSO urlParse svcCache tlsEnabled httpso (TargetRef (ScaleTarget (Spec httpso))) of
                Inl err \<Rightarrow> ToStatic 500 (Some err) r
              | Inr stream \<Rightarrow>
                  (let r = RequestWithStream r (Some stream)
                   in case ColdStartTimeoutFailover (Spec httpso) of
                        None \<Rightarrow> ToUpstream r
                      | Some ref \<Rightarrow>
                          (case streamFromHTTPSO urlParse svcCache tlsEnabled httpso (FailoverRef ref) of
                             Inl err \<Rightarrow> ToStatic 500 (Some err) r
                           | Inr failoverStream \<Rightarrow>
                               ToUpstream (RequestWithFailoverStream r (Some failoverStream))))))"

definition Routing_ServeHTTP :: "'w writer_ops \<Rightarrow> ('t, HTTPScaledObject) radix_ops \<Rightarrow> (string \<Rightarrow> URL result) \<Rightarrow> service_cache \<Rightarrow> bool \<Rightarrow>
    't table \<Rightarrow> Probe \<Rightarrow> ('w \<Rightarrow> Request \<Rightarrow> 'w \<times> fault option) \<Rightarrow> 'w \<Rightarrow> Request \<Rightarrow> 'w \<times> fault option" where
  "Routing_ServeHTTP W T urlParse svcCache tlsEnabled t probe upstreamHandler w r =
     (case Routing_decide urlParse svcCache tlsEnabled (Route T t (Some r)) r of
        ToProbe \<Rightarrow> (Probe_ServeHTTP W probe w r, None)
      | ToStatic code err r' \<Rightarrow> (Static_ServeHTTP W code err w r', None)
      | ToUpstream r' \<Rightarrow> upstreamHandler w r')"

section \<open>Waiting for endpoints\<close>

text \<open>\<^verbatim>\<open>forward_wait_func.go\<close>. An endpoint of unknown readiness counts as ready.\<close>

definition workloadActiveEndpoints :: "EndpointSlice \<Rightarrow> int" where
  "workloadActiveEndpoints endpoints =
     foldl (\<lambda>total e. if EpReady e = None \<or> EpReady e = Some True then total + int (length (EpAddresses e)) else total)
       0 (EsEndpoints endpoints)"

text \<open>What the select of the wait loop receives: an event of the watch, with its type and an endpoint slice or
  something else, or the end of the context.\<close>

datatype wait_event =
    WatchEvent watch_type "EndpointSlice option"
  | CtxDone go_error

text \<open>The loop over the events received so far; None while it still waits.\<close>

fun wait_loop :: "wait_event list \<Rightarrow> (bool \<times> go_error option) option" where
  "wait_loop [] = None"
| "wait_loop (WatchEvent ty obj # evs) =
     (case obj of
        None \<Rightarrow> wait_loop evs
      | Some endpoints \<Rightarrow> if workloadActiveEndpoints endpoints > 0 then Some (True, None) else wait_loop evs)"
| "wait_loop (CtxDone e # evs) =
     Some (False, Some (WrapErr ''context marked done while waiting for workload reach > 0 replicas: '' e))"

definition forwardWait :: "go_error option \<Rightarrow> EndpointSlice result \<Rightarrow> string \<Rightarrow> string \<Rightarrow> wait_event list \<Rightarrow>
    (bool \<times> go_error option) option" where
  "forwardWait watchErr got endpointNS endpointName evs =
     (case watchErr of
        Some err \<Rightarrow> Some (False, Some err)
      | None \<Rightarrow>
          (case got of
             Inl err \<Rightarrow>
               Some (False, Some (WrapErr (''error getting state for endpoints '' @ endpointNS @ ''/'' @ endpointName @ '': '') err))
           | Inr endpoints \<Rightarrow>
               if workloadActiveEndpoints endpoints > 0 then Some (False, None) else wait_loop evs))"

section \<open>Forwarding\<close>

text \<open>\<^verbatim>\<open>proxy_handlers.go\<close>.\<close>

record forwardingConfig =
  waitTimeout :: duration
  respHeaderTimeout :: duration
  forceAttemptHTTP2 :: bool
  maxIdleConns :: go_int
  idleConnTimeout :: duration
  tlsHandshakeTimeout :: duration
  expectContinueTimeout :: duration
  enableColdStartHeader :: bool

definition newForwardingConfigFromTimeouts :: "TimeoutsConfig \<Rightarrow> ServingConfig \<Rightarrow> forwardingConfig" where
  "newForwardingConfigFromTimeouts t s =
     \<lparr>waitTimeout = WorkloadReplicas t, respHeaderTimeout = CfgResponseHeader t, forceAttemptHTTP2 = ForceHTTP2 t,
      maxIdleConns = MaxIdleConns t, idleConnTimeout = IdleConnTimeout t, tlsHandshakeTimeout = TLSHandshakeTimeout t,
      expectContinueTimeout = ExpectContinueTimeout t, enableColdStartHeader = EnableColdStartHeader s\<rparr>"

text \<open>The fields of the \<open>http.Transport\<close> that the handler sets from its configuration.\<close>

record Transport =
  TrForceAttemptHTTP2 :: bool
  TrMaxIdleConns :: go_int
  TrIdleConnTimeout :: duration
  TrTLSHandshakeTimeout :: duration
  TrExpectContinueTimeout :: duration
  TrResponseHeaderTimeout :: duration

definition conditionWaitTimeout :: "forwardingConfig \<Rightarrow> HTTPScaledObject \<Rightarrow> duration" where
  "conditionWaitTimeout fwdCfg httpso =
     (let t = (case Timeouts (Spec httpso) of
                 None \<Rightarrow> waitTimeout fwdCfg
               | Some ts \<Rightarrow> if ConditionWait ts > 0 then ConditionWait ts else waitTimeout fwdCfg)
      in case ColdStartTimeoutFailover (Spec httpso) of
           None \<Rightarrow> t
         | Some ref \<Rightarrow> if 0 <s TimeoutSeconds ref then wrap64 (sint (TimeoutSeconds ref) * second) else t)"

definition responseHeaderTimeout :: "forwardingConfig \<Rightarrow> HTTPScaledObject \<Rightarrow> duration" where
  "responseHeaderTimeout fwdCfg httpso =
     (case Timeouts (Spec httpso) of
        None \<Rightarrow> respHeaderTimeout fwdCfg
      | Some ts \<Rightarrow> if ResponseHeader ts > 0 then ResponseHeader ts else respHeaderTimeout fwdCfg)"

definition forwardingTransport :: "forwardingConfig \<Rightarrow> HTTPScaledObject \<Rightarrow> Transport" where
  "forwardingTransport fwdCfg httpso =
     \<lparr>TrForceAttemptHTTP2 = forceAttemptHTTP2 fwdCfg, TrMaxIdleConns = maxIdleConns fwdCfg,
      TrIdleConnTimeout = idleConnTimeout fwdCfg, TrTLSHandshakeTimeout = tlsHandshakeTimeout fwdCfg,
      TrExpectContinueTimeout = expectContinueTimeout fwdCfg, TrResponseHeaderTimeout = responseHeaderTimeout fwdCfg httpso\<rparr>"

section \<open>The upstream handler\<close>

text \<open>\<^verbatim>\<open>handler/upstream.go\<close>. \<open>net.SplitHostPort\<close> of the peer address:\<close>

definition split_host :: "string \<Rightarrow> string option" where
  "split_host s =
     (if CHR '':'' \<notin> set s then None
      else let h = cut_last CHR '':'' s
           in if h \<noteq> [] \<and> hd h = CHR ''['' then
                (let b = tl h
                 in if b \<noteq> [] \<and> last b = CHR '']'' \<and> CHR ''['' \<notin> set b \<and> CHR '']'' \<notin> set (butlast b)
                    then Some (butlast b) else None)
              else if CHR '':'' \<in> set h \<or> CHR ''['' \<in> set h \<or> CHR '']'' \<in> set h then None
              else Some h)"

fun join_comma :: "string list \<Rightarrow> string" where
  "join_comma [] = []"
| "join_comma [s] = s"
| "join_comma (s # ss) = s @ '', '' @ join_comma ss"

text \<open>What \<open>httputil.ReverseProxy\<close> does after the director has run: it appends the address of the peer to
  the \<open>X-Forwarded-For\<close> header of the outgoing request.\<close>

definition add_forwarded_for :: "Request \<Rightarrow> Request" where
  "add_forwarded_for r =
     (case split_host (RemoteAddr r) of
        None \<Rightarrow> r
      | Some clientIP \<Rightarrow>
          (let prior = (case ReqHeader r ''X-Forwarded-For'' of None \<Rightarrow> [] | Some vs \<Rightarrow> vs)
           in r\<lparr>ReqHeader := header_Set (ReqHeader r) ''X-Forwarded-For'' (join_comma (prior @ [clientIP]))\<rparr>))"

text \<open>The director: the URL of the stream with the path and the query of the request, and the deletion of a
  header. The server sets the URL of every request.\<close>

definition proxied_url :: "URL \<Rightarrow> URL option \<Rightarrow> URL" where
  "proxied_url stream orig =
     (case orig of
        None \<Rightarrow> stream\<lparr>Path := [], RawPath := [], RawQuery := []\<rparr>
      | Some u \<Rightarrow> stream\<lparr>Path := Path u, RawPath := RawPath u, RawQuery := RawQuery u\<rparr>)"

definition upstream_director :: "URL \<Rightarrow> Request \<Rightarrow> Request \<Rightarrow> Request" where
  "upstream_director stream r req =
     req\<lparr>ReqURL := Some (proxied_url stream (ReqURL r)), ReqHeader := header_Del (ReqHeader req) ''X-Forwarded-For ''\<rparr>"

record upstream_response =
  UpStatus :: int
  UpHeader :: Header
  UpBody :: string

definition copy_header :: "Header \<Rightarrow> Header \<Rightarrow> Header" where
  "copy_header dst src = (\<lambda>k. case src k of
     None \<Rightarrow> dst k
   | Some vs \<Rightarrow> Some ((case dst k of None \<Rightarrow> [] | Some old \<Rightarrow> old) @ vs))"

definition errNilStream :: go_error where
  "errNilStream = ErrMsg ''context stream is nil''"

text \<open>What the handlers use of OpenTelemetry, which is not part of the program: \<open>otel_Propagate\<close> gives the headers of a
  response after \<open>Inject\<close> has added to them the context that \<open>Extract\<close> finds in the headers of the request, and
  \<open>otel_NewTransport\<close> is the round trip of a transport that \<open>otelhttp.NewTransport\<close> wraps. The attributes of the span and
  its end go to the exporter and do not concern the request.\<close>

record otel =
  otel_Propagate :: "Header \<Rightarrow> Header \<Rightarrow> Header"
  otel_NewTransport :: "(Request \<Rightarrow> upstream_response result) \<Rightarrow> Request \<Rightarrow> upstream_response result"

definition Upstream_ServeHTTP :: "'w writer_ops \<Rightarrow> otel \<Rightarrow> (Request \<Rightarrow> upstream_response result) \<Rightarrow> TracingConfig \<Rightarrow> bool \<Rightarrow>
    'w \<Rightarrow> Request \<Rightarrow> 'w" where
  "Upstream_ServeHTTP W ot roundTripper tracingCfg shouldFailover w r =
     (let w = (if TracingEnabled tracingCfg then op_SetHeader W w (otel_Propagate ot (ReqHeader r) (op_Header W w)) else w);
          stream = (if shouldFailover then FailoverStreamFromContext (Ctx r) else StreamFromContext (Ctx r))
      in case stream of
           None \<Rightarrow> Static_ServeHTTP W 500 (Some errNilStream) w r
         | Some u \<Rightarrow>
             (case roundTripper (add_forwarded_for (upstream_director u r r)) of
                Inl err \<Rightarrow> Static_ServeHTTP W 502 (Some err) w r
              | Inr resp \<Rightarrow>
                  op_Write W (op_WriteHeader W (op_SetHeader W w (copy_header (op_Header W w) (UpHeader resp))) (UpStatus resp)) (UpBody resp)))"

section \<open>The forwarding handler\<close>

text \<open>The forwarding handler. \<open>waitFunc\<close> is called with the timeout, the namespace and the service;
  \<open>roundTrip\<close> is the round trip of a transport. A missing object in the context is a nil dereference.\<close>

definition forwardingHandler :: "'w writer_ops \<Rightarrow> forwardingConfig \<Rightarrow> (duration \<Rightarrow> string \<Rightarrow> string \<Rightarrow> bool \<times> go_error option) \<Rightarrow>
    otel \<Rightarrow> (Transport \<Rightarrow> Request \<Rightarrow> upstream_response result) \<Rightarrow> TracingConfig \<Rightarrow> 'w \<Rightarrow> Request \<Rightarrow> 'w \<times> fault option" where
  "forwardingHandler W fwdCfg waitFunc ot roundTrip tracingCfg w r =
     (case HTTPSOFromContext (Ctx r) of
        None \<Rightarrow> (w, Some NilDereference)
      | Some httpso \<Rightarrow>
          (let hasFailover = ColdStartTimeoutFailover (Spec httpso) \<noteq> None;
               (isColdStart, err) = waitFunc (conditionWaitTimeout fwdCfg httpso) (GetNamespace httpso)
                                      (Service (ScaleTarget (Spec httpso)))
           in if err \<noteq> None \<and> \<not> hasFailover then
                (op_Write W (op_WriteHeader W w 502) (''error on backend ('' @ error_text (the err) @ '')''), None)
              else
                (let w = (if enableColdStartHeader fwdCfg
                          then op_SetHeader W w (header_Add (op_Header W w) ''X-KEDA-HTTP-Cold-Start'' (format_bool isColdStart))
                          else w);
                     r = r\<lparr>ReqHeader := header_Add (ReqHeader r) ''X-KEDA-HTTP-Cold-Start-Ref-Name'' (Name (ScaleTarget (Spec httpso)))\<rparr>;
                     r = r\<lparr>ReqHeader := header_Add (ReqHeader r) ''X-KEDA-HTTP-Cold-Start-Ref-Namespace'' (GetNamespace httpso)\<rparr>;
                     shouldFailover = hasFailover \<and> err \<noteq> None;
                     roundTripper = roundTrip (forwardingTransport fwdCfg httpso);
                     uh = (if TracingEnabled tracingCfg then Upstream_ServeHTTP W ot (otel_NewTransport ot roundTripper) tracingCfg shouldFailover
                           else Upstream_ServeHTTP W ot roundTripper \<lparr>TracingEnabled = False, Exporter = []\<rparr> shouldFailover)
                 in (uh w r, None))))"

section \<open>The response writer of the logging and metrics middleware\<close>

text \<open>\<^verbatim>\<open>middleware/responsewriter.go\<close>.\<close>

record 'w responseWriter =
  downstreamResponseWriter :: 'w
  bytesWritten :: int
  statusCode :: int

definition newResponseWriter :: "'w \<Rightarrow> 'w responseWriter" where
  "newResponseWriter w = \<lparr>downstreamResponseWriter = w, bytesWritten = 0, statusCode = 0\<rparr>"

definition rw_Write :: "'w writer_ops \<Rightarrow> 'w responseWriter \<Rightarrow> string \<Rightarrow> 'w responseWriter" where
  "rw_Write W rw b =
     rw\<lparr>downstreamResponseWriter := op_Write W (downstreamResponseWriter rw) b, bytesWritten := bytesWritten rw + int (length b)\<rparr>"

definition rw_WriteHeader :: "'w writer_ops \<Rightarrow> 'w responseWriter \<Rightarrow> int \<Rightarrow> 'w responseWriter" where
  "rw_WriteHeader W rw code =
     rw\<lparr>downstreamResponseWriter := op_WriteHeader W (downstreamResponseWriter rw) code, statusCode := code\<rparr>"

definition rw_Header :: "'w writer_ops \<Rightarrow> 'w responseWriter \<Rightarrow> Header" where
  "rw_Header W rw = op_Header W (downstreamResponseWriter rw)"

text \<open>\<open>Hijack\<close> takes over the connection if the wrapped writer can do so; \<open>hj\<close> is its method, if it has it. A wrapper has it, so
  wrappers may be nested.\<close>

definition rw_Hijack :: "('w \<Rightarrow> 'c result) option \<Rightarrow> 'w responseWriter \<Rightarrow> 'c result" where
  "rw_Hijack hj rw =
     (case hj of Some h \<Rightarrow> h (downstreamResponseWriter rw) | None \<Rightarrow> Inl (ErrMsg ''http.Hijacker not implemented''))"

lemma rw_Hijack_nested: "rw_Hijack (Some (rw_Hijack hj)) rw = rw_Hijack hj (downstreamResponseWriter rw)"
  by (simp add: rw_Hijack_def)

text \<open>A \<open>responseWriter\<close> implements the interface on top of any writer.\<close>

definition wrapped :: "'w writer_ops \<Rightarrow> 'w responseWriter writer_ops" where
  "wrapped W = \<lparr>op_Header = rw_Header W,
     op_SetHeader = (\<lambda>rw h. rw\<lparr>downstreamResponseWriter := op_SetHeader W (downstreamResponseWriter rw) h\<rparr>),
     op_WriteHeader = rw_WriteHeader W, op_Write = rw_Write W\<rparr>"

text \<open>\<^verbatim>\<open>middleware/metrics.go\<close> and \<^verbatim>\<open>metrics/metricscollector.go\<close>: the calls on the metrics collectors, of
  which there are \<open>n\<close>.\<close>

datatype metric_call =
    RequestCountCall string string int string
  | PendingRequestCountCall string int

definition RecordRequestCount :: "nat \<Rightarrow> metric_call list \<Rightarrow> string \<Rightarrow> string \<Rightarrow> int \<Rightarrow> string \<Rightarrow> metric_call list" where
  "RecordRequestCount n calls meth path responseCode host = calls @ replicate n (RequestCountCall meth path responseCode host)"

definition RecordPendingRequestCount :: "nat \<Rightarrow> metric_call list \<Rightarrow> string \<Rightarrow> int \<Rightarrow> metric_call list" where
  "RecordPendingRequestCount n calls host v = calls @ replicate n (PendingRequestCountCall host v)"

definition Metrics_metrics :: "nat \<Rightarrow> metric_call list \<Rightarrow> 'w responseWriter \<Rightarrow> Request \<Rightarrow> metric_call list" where
  "Metrics_metrics n calls mrw r =
     (let path = (case ReqURL r of None \<Rightarrow> [] | Some u \<Rightarrow> Path u)
      in if path \<noteq> ''/livez'' \<and> path \<noteq> ''/readyz''
         then RecordRequestCount n calls (Method r) path (statusCode mrw) (ReqHost r) else calls)"

section \<open>Lemmas\<close>

lemma token_at_iff:
  "tok \<noteq> [] \<Longrightarrow> token_at tok b s \<longleftrightarrow> (\<exists>pre post. s = pre @ tok @ post \<and> (if pre = [] then b else is_space (last pre)))"
proof (induction tok b s rule: token_at.induct)
  case (2 tok b c s)
  show ?case (is "?l \<longleftrightarrow> ?r")
  proof
    assume ?l
    then consider "b" "prefix tok (c # s)" | "token_at tok (is_space c) s" by auto
    then show ?r
    proof cases
      case 1
      then obtain zs where "c # s = tok @ zs" by (auto simp: prefix_def)
      with 1 show ?thesis by (intro exI [of _ "[]"] exI [of _ zs]) simp
    next
      case 2
      then obtain pre post where "s = pre @ tok @ post" "if pre = [] then is_space c else is_space (last pre)"
        using "2.IH" "2.prems" by blast
      then show ?thesis by (intro exI [of _ "c # pre"] exI [of _ post]) (simp split: if_splits)
    qed
  next
    assume ?r
    then obtain pre post where p: "c # s = pre @ tok @ post" "if pre = [] then b else is_space (last pre)" by blast
    show ?l
    proof (cases pre)
      case Nil
      have "prefix tok (c # s)" unfolding p(1) by (simp add: Nil)
      with p(2) Nil show ?thesis by simp
    next
      case (Cons d pre')
      with p have "s = pre' @ tok @ post \<and> (if pre' = [] then is_space c else is_space (last pre'))" by (simp split: if_splits)
      with "2.IH" "2.prems" have "token_at tok (is_space c) s" by blast
      then show ?thesis by simp
    qed
  qed
qed simp

lemma workloadActiveEndpoints_sum:
  "workloadActiveEndpoints eps = (\<Sum>e\<leftarrow>EsEndpoints eps. if EpReady e = Some False then 0 else int (length (EpAddresses e)))"
proof -
  have "foldl (\<lambda>total e. if EpReady e = None \<or> EpReady e = Some True then total + int (length (EpAddresses e)) else total) n es =
      n + (\<Sum>e\<leftarrow>es. if EpReady e = Some False then 0 else int (length (EpAddresses e)))" for n and es :: "endpoint list"
    by (induction es arbitrary: n) auto
  then show ?thesis by (simp add: workloadActiveEndpoints_def)
qed

lemma workloadActiveEndpoints_pos: "workloadActiveEndpoints s > 0 \<longleftrightarrow> ready_addresses (EsEndpoints s) \<noteq> {}"
proof -
  have "(\<Sum>e\<leftarrow>es. if EpReady e = Some False then 0 else int (length (EpAddresses e))) > 0 \<longleftrightarrow>
      (\<exists>e\<in>set es. EpReady e \<noteq> Some False \<and> EpAddresses e \<noteq> [])" for es :: "endpoint list"
  proof (induction es)
    case (Cons e es)
    have "0 \<le> (\<Sum>e\<leftarrow>es. if EpReady e = Some False then 0 else int (length (EpAddresses e)))"
      by (intro sum_list_nonneg) auto
    with Cons show ?case by auto
  qed simp
  then show ?thesis by (auto simp: workloadActiveEndpoints_sum ready_addresses_def)
qed

lemma Routing_decide_upstream:
  assumes "Routing_decide urlParse svcCache tls (Some h) r = ToUpstream r'"
  shows "ckHTTPSO (Ctx r') = Some h" "ReqURL r' = ReqURL r"
    "\<exists>u. ckStream (Ctx r') = Some u \<and> streamFromHTTPSO urlParse svcCache tls h (TargetRef (ScaleTarget (Spec h))) = Inr u"
    "\<And>ref. ColdStartTimeoutFailover (Spec h) = Some ref \<Longrightarrow>
      \<exists>u. ckFailoverStream (Ctx r') = Some u \<and> streamFromHTTPSO urlParse svcCache tls h (FailoverRef ref) = Inr u"
  using assms by (auto simp: Routing_decide_def context_defs Let_def split: option.splits sum.splits)

lemma Upstream_stream:
  assumes "(if f then ckFailoverStream (Ctx r) else ckStream (Ctx r)) = Some u"
  shows "\<exists>out. ReqURL out = Some (proxied_url u (ReqURL r)) \<and>
    Upstream_ServeHTTP net_http ot rt tc f w r =
      (let w = (if TracingEnabled tc then w\<lparr>RespHeader := otel_Propagate ot (ReqHeader r) (RespHeader w)\<rparr> else w)
       in case rt out of
         Inl e \<Rightarrow> Static_ServeHTTP net_http 502 (Some e) w r
       | Inr resp \<Rightarrow> Write (WriteHeader (w\<lparr>RespHeader := copy_header (RespHeader w) (UpHeader resp)\<rparr>) (UpStatus resp)) (UpBody resp))"
proof -
  have "ReqURL (add_forwarded_for (upstream_director u r r)) = Some (proxied_url u (ReqURL r))"
    by (simp add: add_forwarded_for_def upstream_director_def Let_def split: option.splits)
  with assms show ?thesis
    by (intro exI [of _ "add_forwarded_for (upstream_director u r r)"]) (cases f; simp add: Upstream_ServeHTTP_def context_defs Let_def split: sum.split)
qed

section \<open>Properties\<close>

text \<open>a probe is recognised exactly when its user agent has the token of kube-probe, GoogleHC or
  ELB-HealthChecker at its start or after white space.\<close>

theorem isProbe_iff:
  "isProbe r \<longleftrightarrow>
     (\<exists>tok\<in>{''kube-probe/'', ''GoogleHC/'', ''ELB-HealthChecker/''}. \<exists>pre post.
        UserAgent r = pre @ tok @ post \<and> (pre = [] \<or> is_space (last pre)))"
proof -
  have "token_at tok True s \<longleftrightarrow> (\<exists>pre post. s = pre @ tok @ post \<and> (pre = [] \<or> is_space (last pre)))"
    if "tok \<noteq> []" for tok s
    using token_at_iff [OF that, of True s] by (auto split: if_splits)
  then show ?thesis by (simp add: isProbe_def Let_def)
qed

text \<open>C7: a routed request reaches the backend its HTTPScaledObject names. If the routing middleware hands a
  request on, the forwarding handler never panics and never misses a stream: it answers 502 when the
  wait fails and there is no failover, and otherwise sends a request with the path and the query of the original
  to the URL of the target, or to the URL of the failover target when the wait failed, and copies
  the answer.\<close>

theorem forwarding_reaches_backend:
  assumes dec: "Routing_decide urlParse svcCache tls (Some h) r = ToUpstream r'"
    and wait: "waitFunc (conditionWaitTimeout cfg h) (GetNamespace h) (Service (ScaleTarget (Spec h))) = (cold, err)"
  shows "if err \<noteq> None \<and> ColdStartTimeoutFailover (Spec h) = None
    then \<exists>w'. forwardingHandler net_http cfg waitFunc ot rt tc newResponse r' = (w', None) \<and> RespStatus w' = Some 502
    else \<exists>u w0 r0 out.
      streamFromHTTPSO urlParse svcCache tls h
        (if err = None then TargetRef (ScaleTarget (Spec h)) else FailoverRef (the (ColdStartTimeoutFailover (Spec h)))) = Inr u \<and>
      ReqURL out = Some (proxied_url u (ReqURL r)) \<and>
      RespStatus w0 = None \<and> RespBody w0 = [] \<and>
      forwardingHandler net_http cfg waitFunc ot rt tc newResponse r' =
        (case (if TracingEnabled tc then otel_NewTransport ot else id) (rt (forwardingTransport cfg h)) out of
               Inl e \<Rightarrow> Static_ServeHTTP net_http 502 (Some e) w0 r0
             | Inr resp \<Rightarrow> Write (WriteHeader (w0\<lparr>RespHeader := copy_header (RespHeader w0) (UpHeader resp)\<rparr>)
                 (UpStatus resp)) (UpBody resp), None)"
proof (cases "err \<noteq> None \<and> ColdStartTimeoutFailover (Spec h) = None")
  case True
  with Routing_decide_upstream(1) [OF dec] wait show ?thesis
    by (simp add: forwardingHandler_def context_defs Write_def WriteHeader_def newResponse_def)
next
  case False
  note d = Routing_decide_upstream [OF dec]
  define w0 where "w0 = (if enableColdStartHeader cfg
    then newResponse\<lparr>RespHeader := header_Add (RespHeader newResponse) ''X-KEDA-HTTP-Cold-Start'' (format_bool cold)\<rparr> else newResponse)"
  define r0 where "r0 = r'\<lparr>ReqHeader := header_Add (header_Add (ReqHeader r') ''X-KEDA-HTTP-Cold-Start-Ref-Name''
    (Name (ScaleTarget (Spec h)))) ''X-KEDA-HTTP-Cold-Start-Ref-Namespace'' (GetNamespace h)\<rparr>"
  define tc' where "tc' = (if TracingEnabled tc then tc else \<lparr>TracingEnabled = False, Exporter = []\<rparr>)"
  let ?rt = "(if TracingEnabled tc then otel_NewTransport ot else id) (rt (forwardingTransport cfg h))"
  have fwd: "forwardingHandler net_http cfg waitFunc ot rt tc newResponse r' =
      (Upstream_ServeHTTP net_http ot ?rt tc' (err \<noteq> None) w0 r0, None)"
    using False d(1) wait unfolding tc'_def by (auto simp: forwardingHandler_def context_defs Let_def w0_def r0_def)
  have r0: "ReqURL r0 = ReqURL r" "Ctx r0 = Ctx r'" using d(2) by (simp_all add: r0_def)
  obtain u where u: "(if err \<noteq> None then ckFailoverStream (Ctx r0) else ckStream (Ctx r0)) = Some u"
    "streamFromHTTPSO urlParse svcCache tls h (if err = None then TargetRef (ScaleTarget (Spec h))
       else FailoverRef (the (ColdStartTimeoutFailover (Spec h)))) = Inr u"
    using False d(3,4) r0(2) by (cases "err = None") auto
  define w1 where "w1 = (if TracingEnabled tc' then w0\<lparr>RespHeader := otel_Propagate ot (ReqHeader r0) (RespHeader w0)\<rparr> else w0)"
  have w1: "RespStatus w1 = None" "RespBody w1 = []" by (simp_all add: w1_def w0_def newResponse_def)
  obtain out where out: "ReqURL out = Some (proxied_url u (ReqURL r))"
    "Upstream_ServeHTTP net_http ot ?rt tc' (err \<noteq> None) w0 r0 =
      (case ?rt out of
         Inl e \<Rightarrow> Static_ServeHTTP net_http 502 (Some e) w1 r0
       | Inr resp \<Rightarrow> Write (WriteHeader (w1\<lparr>RespHeader := copy_header (RespHeader w1) (UpHeader resp)\<rparr>) (UpStatus resp)) (UpBody resp))"
    using Upstream_stream [OF u(1), of ot ?rt tc' w0] unfolding r0(1) w1_def [symmetric] Let_def by blast
  show ?thesis unfolding if_not_P [OF False] fwd out(2) using u(2) out(1) w1
    by (intro exI [of _ u] exI [of _ w1] exI [of _ r0] exI [of _ out]) simp
qed

definition demo_request :: Request where
  "demo_request = \<lparr>Method = ''GET'', ReqURL = Some \<lparr>Scheme = [], URLHost = [], Path = ''/x'', RawPath = [], RawQuery = ''q=1''\<rparr>, Proto = ''HTTP/1.1'', ReqHost = ''h'', ReqHeader = Map.empty,
     RemoteAddr = ''10.0.0.1:4711'', Ctx = \<lparr>ckHTTPSO = None, ckStream = None, ckFailoverStream = None\<rparr>\<rparr>"

definition demo_parse :: "string \<Rightarrow> URL result" where
  "demo_parse s = Inr \<lparr>Scheme = ''http'', URLHost = drop 7 s, Path = [], RawPath = [], RawQuery = []\<rparr>"

definition demo_backend :: "Request \<Rightarrow> upstream_response result" where
  "demo_backend out = Inr \<lparr>UpStatus = 200, UpHeader = Map.empty,
     UpBody = (case ReqURL out of None \<Rightarrow> [] | Some u \<Rightarrow> URLHost u @ Path u)\<rparr>"

definition demo_otel :: otel where
  "demo_otel = \<lparr>otel_Propagate = (\<lambda>req resp. resp(''Traceparent'' := req ''Traceparent'')), otel_NewTransport = (\<lambda>rt. rt)\<rparr>"

theorem forwarding_reaches_backend_witness:
  "\<exists>w'. forwardingHandler net_http (newForwardingConfigFromTimeouts defaultTimeouts (defaultServing ''keda'' 8080 9090))
       (\<lambda>_ _ _. (False, None)) demo_otel (\<lambda>_. demo_backend) \<lparr>TracingEnabled = True, Exporter = ''console''\<rparr> newResponse
       (RequestWithStream (RequestWithHTTPSO demo_request (Some (plain_httpso ''ns'' ''app'')))
          (Some \<lparr>Scheme = ''http'', URLHost = ''svc.ns:80'', Path = [], RawPath = [], RawQuery = []\<rparr>)) = (w', None) \<and>
     RespStatus w' = Some 200 \<and> RespBody w' = ''svc.ns:80/x''"
proof -
  have s: "streamFromHTTPSO demo_parse (\<lambda>_ _. Inl Canceled) False (plain_httpso ''ns'' ''app'') (TargetRef plain_target) =
      Inr \<lparr>Scheme = ''http'', URLHost = ''svc.ns:80'', Path = [], RawPath = [], RawQuery = []\<rparr>"
    by code_simp
  have url: "ReqURL demo_request = Some \<lparr>Scheme = [], URLHost = [], Path = ''/x'', RawPath = [], RawQuery = ''q=1''\<rparr>" by (simp add: demo_request_def)
  have sp: "Spec (plain_httpso ''ns'' ''app'') = plain_spec" by (simp add: plain_httpso_def)
  have d: "Routing_decide demo_parse (\<lambda>_ _. Inl Canceled) False (Some (plain_httpso ''ns'' ''app'')) demo_request =
      ToUpstream (RequestWithStream (RequestWithHTTPSO demo_request (Some (plain_httpso ''ns'' ''app'')))
          (Some \<lparr>Scheme = ''http'', URLHost = ''svc.ns:80'', Path = [], RawPath = [], RawQuery = []\<rparr>))"
    using s by (simp add: Routing_decide_def sp plain_spec_def)
  show ?thesis
    using forwarding_reaches_backend [OF d, where waitFunc = "\<lambda>_ _ _. (False, None)" and cold = False and err = None and ot = demo_otel
        and cfg = "newForwardingConfigFromTimeouts defaultTimeouts (defaultServing ''keda'' 8080 9090)" and rt = "\<lambda>_. demo_backend"
        and tc = "\<lparr>TracingEnabled = True, Exporter = ''console''\<rparr>"] s
    by (auto simp: sp plain_spec_def url demo_backend_def demo_otel_def Write_def WriteHeader_def proxied_url_def split: sum.splits option.splits)
qed

text \<open>An event that shows a ready address.\<close>

definition ready_event :: "wait_event \<Rightarrow> bool" where
  "ready_event ev = (case ev of
     WatchEvent _ (Some eps) \<Rightarrow> ready_addresses (EsEndpoints eps) \<noteq> {} | _ \<Rightarrow> False)"

definition decisive :: "wait_event \<Rightarrow> bool" where
  "decisive ev \<longleftrightarrow> ready_event ev \<or> (\<exists>e. ev = CtxDone e)"

lemma wait_loop_first:
  "wait_loop evs = (case find decisive evs of
     None \<Rightarrow> None
   | Some (CtxDone e) \<Rightarrow> Some (False, Some (WrapErr ''context marked done while waiting for workload reach > 0 replicas: '' e))
   | Some (WatchEvent _ _) \<Rightarrow> Some (True, None))"
  by (induction evs rule: wait_loop.induct)
    (auto simp: decisive_def ready_event_def workloadActiveEndpoints_pos split: option.splits)

text \<open>C26: what the wait before forwarding returns when the watch and the first read succeed. It reports no
  cold start at once when the workload has a ready address. Otherwise the first event that shows a
  ready address or ends the context decides: a cold start, or the error of the context. It waits only
  while no such event has arrived, so it has returned once the context has ended.\<close>

theorem forwardWait_outcome:
  "forwardWait None (Inr eps) ns nm evs =
     (if ready_addresses (EsEndpoints eps) \<noteq> {} then Some (False, None)
      else case find decisive evs of
        None \<Rightarrow> None
      | Some (CtxDone e) \<Rightarrow> Some (False, Some (WrapErr ''context marked done while waiting for workload reach > 0 replicas: '' e))
      | Some (WatchEvent _ _) \<Rightarrow> Some (True, None)) \<and>
   (CtxDone e \<in> set evs \<longrightarrow> forwardWait None (Inr eps) ns nm evs \<noteq> None)"
proof -
  have "find decisive evs \<noteq> None" if "CtxDone e \<in> set evs"
    using that by (auto simp: find_None_iff decisive_def)
  then show ?thesis
    by (auto simp: forwardWait_def workloadActiveEndpoints_pos wait_loop_first split: option.splits wait_event.splits)
qed

text \<open>The slice of the service \<open>svc\<close> with one address, or with none.\<close>

definition demo_slice :: "string list \<Rightarrow> EndpointSlice" where
  "demo_slice addrs = \<lparr>EsNamespace = ''ns'', EsLabels = [labelServiceName \<mapsto> ''svc''],
     EsEndpoints = [\<lparr>EpReady = None, EpAddresses = addrs\<rparr>]\<rparr>"

theorem forwardWait_outcome_witness:
  "forwardWait None (Inr (demo_slice [])) ''ns'' ''svc'' [WatchEvent Added None, WatchEvent Modified (Some (demo_slice [''1.2.3.4''])),
     CtxDone DeadlineExceeded] = Some (True, None)"
  using forwardWait_outcome [of "demo_slice []" "''ns''" "''svc''" "[WatchEvent Added None,
      WatchEvent Modified (Some (demo_slice [''1.2.3.4''])), CtxDone DeadlineExceeded]" DeadlineExceeded]
  by (simp add: decisive_def ready_event_def demo_slice_def ready_addresses_def)

text \<open>C39: the wait misreads the endpoints cache in two ways. It looks only at the first slice of a service, so
  while that one has no ready address it waits even though another slice of the service has one; and it
  does not look at the type of an event, so the deletion of a slice that still lists a ready address
  makes it report that the workload has come up.\<close>

theorem forwardWait_misreads_cache:
  assumes "lister ns nm = Inr (s # rest)" "newRequirement nm = None" "ready_addresses (EsEndpoints s) = {}"
    "s' \<in> set rest" "ready_addresses (EsEndpoints s') \<noteq> {}"
  shows "forwardWait None (EndpointsCache_Get newRequirement lister ns nm) ns nm [] = None \<and>
    forwardWait None (EndpointsCache_Get newRequirement lister ns nm) ns nm [WatchEvent Deleted (Some s')] = Some (True, None)"
  using assms by (simp add: EndpointsCache_Get_def forwardWait_def workloadActiveEndpoints_pos)

theorem forwardWait_misreads_cache_witness:
  "forwardWait None (EndpointsCache_Get (\<lambda>_. None) (\<lambda>_ _. Inr [demo_slice [], demo_slice [''1.2.3.4'']]) ''ns'' ''svc'') ''ns'' ''svc'' [] = None"
  using forwardWait_misreads_cache [of "\<lambda>_ _. Inr [demo_slice [], demo_slice [''1.2.3.4'']]" "''ns''" "''svc''" "demo_slice []"
      "[demo_slice [''1.2.3.4'']]" "\<lambda>_. None" "demo_slice [''1.2.3.4'']"]
  by (simp add: demo_slice_def ready_addresses_def)

text \<open>the timeout of the wait. A failover target with a positive number of seconds sets it, without
  overflow; otherwise a positive \<open>conditionWait\<close> of the object overrides the global one.\<close>

theorem conditionWaitTimeout_precedence:
  "conditionWaitTimeout cfg h =
     (case ColdStartTimeoutFailover (Spec h) of
        Some ref \<Rightarrow> if 0 < sint (TimeoutSeconds ref) then sint (TimeoutSeconds ref) * second
                    else (case Timeouts (Spec h) of Some ts \<Rightarrow> if 0 < ConditionWait ts then ConditionWait ts else waitTimeout cfg
                          | None \<Rightarrow> waitTimeout cfg)
      | None \<Rightarrow> (case Timeouts (Spec h) of Some ts \<Rightarrow> if 0 < ConditionWait ts then ConditionWait ts else waitTimeout cfg
                 | None \<Rightarrow> waitTimeout cfg))"
proof -
  have "wrap64 (sint x * second) = sint x * second" for x :: int32
  proof -
    have "- (2 ^ 31) \<le> sint x" "sint x < 2 ^ 31" using sint_ge [of x] sint_lt [of x] by simp_all
    then have "- (2 ^ 63) \<le> sint x * second" "sint x * second < 2 ^ 63" by (simp_all add: nanosecond_per_second_def)
    then show ?thesis by (intro wrap64_id)
  qed
  then show ?thesis by (simp add: conditionWaitTimeout_def Let_def word_sless_alt split: option.splits)
qed

text \<open>The incoming \<open>X-Forwarded-For\<close> header is not removed: the director deletes a header whose name ends
  in a space, which no request has, so the request that goes out carries what the client sent,
  followed by the address of the peer.\<close>

theorem forwarded_for_not_removed:
  assumes "ReqHeader r ''X-Forwarded-For'' = Some vs" "split_host (RemoteAddr r) = Some ip"
  shows "ReqHeader (add_forwarded_for (upstream_director u r r)) ''X-Forwarded-For'' = Some [join_comma (vs @ [ip])]"
proof -
  have 1: "CanonicalHeaderKey ''X-Forwarded-For '' = ''X-Forwarded-For ''" by code_simp
  have 2: "CanonicalHeaderKey ''X-Forwarded-For'' = ''X-Forwarded-For''" by code_simp
  show ?thesis using assms
    by (simp add: add_forwarded_for_def upstream_director_def header_Del_def header_Set_def 1 2 Let_def)
qed

theorem forwarded_for_not_removed_witness:
  "ReqHeader (add_forwarded_for (upstream_director \<lparr>Scheme = ''http'', URLHost = ''svc.ns:80'', Path = [], RawPath = [], RawQuery = []\<rparr>
       (demo_request\<lparr>ReqHeader := [''X-Forwarded-For'' \<mapsto> [''6.6.6.6'']]\<rparr>) (demo_request\<lparr>ReqHeader := [''X-Forwarded-For'' \<mapsto> [''6.6.6.6'']]\<rparr>)))
     ''X-Forwarded-For'' = Some [''6.6.6.6, 10.0.0.1'']"
  using forwarded_for_not_removed [of "demo_request\<lparr>ReqHeader := [''X-Forwarded-For'' \<mapsto> [''6.6.6.6'']]\<rparr>" "[''6.6.6.6'']"
      "''10.0.0.1''" "\<lparr>Scheme = ''http'', URLHost = ''svc.ns:80'', Path = [], RawPath = [], RawQuery = []\<rparr>"]
  by (simp add: demo_request_def split_host_def cut_last_def)

text \<open>the probe handler, checked against the routing table, answers 200 exactly when the table has been
  built once, and 503 before.\<close>

theorem probe_reports_sync:
  "RespStatus (Probe_ServeHTTP net_http (Probe_check [\<lambda>_. HealthCheck t] ph) newResponse r) = Some (if HasSynced t then 200 else 503)"
  by (simp add: Probe_ServeHTTP_def HealthCheck_def Write_def WriteHeader_def newResponse_def)

end
