(* ===== verification/Counting.thy ===== *)
theory Counting
  imports Interceptor
begin

text \<open>
  \<^verbatim>\<open>interceptor/middleware/counting.go\<close>, and the interceptor as a whole. \<open>ServeHTTP\<close> starts a goroutine
  \<open>count\<close> that increases the counter of the request's HTTPScaledObject, waits until the handler has
  returned or the request's context has ended, and decreases the counter. The step relation
  \<open>sys_step\<close> interleaves the goroutines of all requests with the informer handlers and the refresher of
  the routing table. A panic in one of these goroutines is not recovered and ends the process.
\<close>

section \<open>The middleware\<close>

definition count_key :: "(NamespacedName \<Rightarrow> string) \<Rightarrow> Context \<Rightarrow> fault + string" where
  "count_key str ctx =
     (case NamespacedNameFromObject (HTTPSOFromContext ctx) of None \<Rightarrow> Inl NilDereference | Some nn \<Rightarrow> Inr (str nn))"

definition Counting_inc :: "nat \<Rightarrow> Memory \<Rightarrow> metric_call list \<Rightarrow> string \<Rightarrow> instant \<Rightarrow> Memory \<times> metric_call list \<times> (fault + bool)" where
  "Counting_inc n q calls key now =
     (case Increase q key 1 now of
        (q, Inl f) \<Rightarrow> (q, calls, Inl f)
      | (q, Inr (Some err)) \<Rightarrow> (q, calls, Inr False)
      | (q, Inr None) \<Rightarrow> (q, RecordPendingRequestCount n calls key 1, Inr True))"

definition Counting_dec :: "nat \<Rightarrow> Memory \<Rightarrow> metric_call list \<Rightarrow> string \<Rightarrow> Memory \<times> metric_call list \<times> (fault + bool)" where
  "Counting_dec n q calls key =
     (case Decrease q key 1 of
        (q, Inl f) \<Rightarrow> (q, calls, Inl f)
      | (q, Inr (Some err)) \<Rightarrow> (q, calls, Inr False)
      | (q, Inr None) \<Rightarrow> (q, RecordPendingRequestCount n calls key (- 1), Inr True))"

section \<open>The interceptor\<close>

text \<open>A goroutine \<open>count\<close>: its key, where it is, its signaler and the error of the request's context.\<close>

datatype count_pc = GInc | GWait | GDone

record goroutine =
  g_key :: string
  g_pc :: count_pc
  g_sig :: signaler
  g_ctx :: "go_error option"

record 't interceptor =
  tabs :: "'t table_state"
  metricCalls :: "metric_call list"
  gos :: "goroutine list"
  crashed :: "fault option"

abbreviation qc :: "'t interceptor \<Rightarrow> Memory" where
  "qc s \<equiv> queueCounter (tab (tabs s))"

definition set_qc :: "Memory \<Rightarrow> 't interceptor \<Rightarrow> 't interceptor" where
  "set_qc q s = s\<lparr>tabs := (tabs s)\<lparr>tab := (tab (tabs s))\<lparr>queueCounter := q\<rparr>\<rparr>\<rparr>"

inductive sys_step :: "(informer_event \<Rightarrow> bool) \<Rightarrow> (NamespacedName \<Rightarrow> string) \<Rightarrow> ('t, HTTPScaledObject) radix_ops \<Rightarrow>
    nat \<Rightarrow> 't interceptor \<Rightarrow> 't interceptor \<Rightarrow> bool" for E str T n where
  sys_table: "crashed s = None \<Longrightarrow> table_step E str T (tabs s) t' \<Longrightarrow> sys_step E str T n s (s\<lparr>tabs := t'\<rparr>)"
| sys_table_panic: "crashed s = None \<Longrightarrow> hand (tabs s) = HIdle \<Longrightarrow> E ev \<Longrightarrow>
    handler_count str ev (tab (tabs s)) = (t, Inl f) \<Longrightarrow>
    sys_step E str T n s (s\<lparr>tabs := (tabs s)\<lparr>tab := t\<rparr>, crashed := Some f\<rparr>)"
| sys_arrive: "crashed s = None \<Longrightarrow> Route T (tab (tabs s)) (Some r) = Some h \<Longrightarrow>
    count_key str (Ctx (RequestWithHTTPSO r (Some h))) = Inr k \<Longrightarrow>
    sys_step E str T n s (s\<lparr>gos := gos s @ [\<lparr>g_key = k, g_pc = GInc, g_sig = NewSignaler, g_ctx = None\<rparr>]\<rparr>)"
| sys_inc: "crashed s = None \<Longrightarrow> i < length (gos s) \<Longrightarrow> g_pc (gos s ! i) = GInc \<Longrightarrow> clock_ok now \<Longrightarrow>
    Counting_inc n (qc s) (metricCalls s) (g_key (gos s ! i)) now = (q, calls, Inr ok) \<Longrightarrow>
    sys_step E str T n s ((set_qc q s)\<lparr>metricCalls := calls,
      gos := (gos s)[i := (gos s ! i)\<lparr>g_pc := if ok then GWait else GDone\<rparr>]\<rparr>)"
| sys_inc_panic: "crashed s = None \<Longrightarrow> i < length (gos s) \<Longrightarrow> g_pc (gos s ! i) = GInc \<Longrightarrow> clock_ok now \<Longrightarrow>
    Counting_inc n (qc s) (metricCalls s) (g_key (gos s ! i)) now = (q, calls, Inl f) \<Longrightarrow>
    sys_step E str T n s ((set_qc q s)\<lparr>metricCalls := calls, crashed := Some f\<rparr>)"
| sys_return: "crashed s = None \<Longrightarrow> i < length (gos s) \<Longrightarrow>
    sys_step E str T n s (s\<lparr>gos := (gos s)[i := (gos s ! i)\<lparr>g_sig := Signal (g_sig (gos s ! i))\<rparr>]\<rparr>)"
| sys_cancel: "crashed s = None \<Longrightarrow> i < length (gos s) \<Longrightarrow>
    sys_step E str T n s (s\<lparr>gos := (gos s)[i := (gos s ! i)\<lparr>g_ctx := Some e\<rparr>]\<rparr>)"
| sys_dec: "crashed s = None \<Longrightarrow> i < length (gos s) \<Longrightarrow> g_pc (gos s ! i) = GWait \<Longrightarrow>
    (sg, err) \<in> set (Wait (g_sig (gos s ! i)) (g_ctx (gos s ! i))) \<Longrightarrow>
    Counting_dec n (qc s) (metricCalls s) (g_key (gos s ! i)) = (q, calls, Inr ok) \<Longrightarrow>
    sys_step E str T n s ((set_qc q s)\<lparr>metricCalls := calls,
      gos := (gos s)[i := (gos s ! i)\<lparr>g_pc := GDone, g_sig := sg\<rparr>]\<rparr>)"

definition sys_init :: "'t interceptor" where
  "sys_init = \<lparr>tabs = table_init NewMemory, metricCalls = [], gos = [], crashed = None\<rparr>"

text \<open>The requests being served for a key: the goroutines that have increased its counter and not yet
  decreased it.\<close>

definition in_flight :: "goroutine list \<Rightarrow> string \<Rightarrow> int" where
  "in_flight gs k = int (length (filter (\<lambda>g. g_pc g = GWait \<and> g_key g = k) gs))"

section \<open>Bounds on a counter\<close>

lemma sint_inc: "sint c < 2 ^ 63 - 1 \<Longrightarrow> sint (c + 1 :: go_int) = sint c + 1"
  using sint_ge [of c] by (simp add: sint_word_ariths signed_take_bit_int_eq_self)

lemma sint_dec: "0 \<le> sint c \<Longrightarrow> sint (c - 1 :: go_int) = sint c - 1"
  using sint_lt [of c] by (simp add: sint_word_ariths signed_take_bit_int_eq_self)

lemma sint_dec_clamped:
  assumes "0 \<le> sint (c :: go_int)"
  shows "sint (if c - 1 <s 0 then 0 else c - 1) = max 0 (sint c - 1)"
  using sint_dec [OF assms] by (simp add: word_sless_alt)

context counter
begin

text \<open>The concurrency of every key lies between 0 and \<open>f\<close>; and it is \<open>f\<close>, which is 0 for absent keys.\<close>

definition bounded :: "'s \<Rightarrow> (string \<Rightarrow> int) \<Rightarrow> bool" where
  "bounded s f \<longleftrightarrow> inv s \<and> (\<forall>k c. conc s k = Some c \<longrightarrow> 0 \<le> sint c \<and> sint c \<le> f k)"

definition exact :: "'s \<Rightarrow> (string \<Rightarrow> int) \<Rightarrow> bool" where
  "exact s f \<longleftrightarrow> inv s \<and> (\<forall>k. conc s k = None \<longrightarrow> f k = 0) \<and> (\<forall>k c. conc s k = Some c \<longrightarrow> f k = sint c \<and> 0 \<le> sint c)"

lemma bounded_increase:
  assumes "bounded s f" "h \<in> dom (conc s)" "clock_ok now" "f h < 2 ^ 63 - 1"
  shows "\<exists>s'. increase s h 1 now = (s', Inr None) \<and> bounded s' (f(h := f h + 1)) \<and> dom (conc s') = dom (conc s)"
proof -
  obtain c where c: "conc s h = Some c" using assms(2) by blast
  obtain s' where "increase s h 1 now = (s', Inr None)" "inv s'" "conc s' = (conc s)(h \<mapsto> c + 1)"
    using increase_law [OF _ c assms(3), of 1] assms(1) by (auto simp: bounded_def)
  moreover have "0 \<le> sint c" "sint c \<le> f h" using assms(1) c by (auto simp: bounded_def)
  ultimately show ?thesis using assms sint_inc [of c] by (auto simp: bounded_def)
qed

lemma exact_increase:
  assumes "exact s f" "h \<in> dom (conc s)" "clock_ok now" "f h < 2 ^ 63 - 1"
  shows "\<exists>s'. increase s h 1 now = (s', Inr None) \<and> exact s' (f(h := f h + 1)) \<and> dom (conc s') = dom (conc s)"
proof -
  obtain c where c: "conc s h = Some c" using assms(2) by blast
  obtain s' where "increase s h 1 now = (s', Inr None)" "inv s'" "conc s' = (conc s)(h \<mapsto> c + 1)"
    using increase_law [OF _ c assms(3), of 1] assms(1) by (auto simp: exact_def)
  moreover have "f h = sint c" "0 \<le> f h" using assms(1) c by (auto simp: exact_def)
  ultimately show ?thesis using assms sint_inc [of c] by (auto simp: exact_def)
qed

lemma bounded_decrease:
  assumes "bounded s f"
  shows "\<exists>s'. decrease s h 1 = (s', Inr None) \<and> bounded s' (f(h := max 0 (f h - 1))) \<and> dom (conc s') = dom (conc s)"
proof -
  obtain s' where s': "decrease s h 1 = (s', Inr None)" "inv s'"
    "conc s' = (case conc s h of None \<Rightarrow> conc s | Some c \<Rightarrow> (conc s)(h \<mapsto> (if c - 1 <s 0 then 0 else c - 1)))"
    using decrease_law [of s h 1] assms by (auto simp: bounded_def)
  show ?thesis
  proof (cases "conc s h")
    case None
    with s' assms show ?thesis by (auto simp: bounded_def)
  next
    case (Some c)
    then have c: "0 \<le> sint c" "sint c \<le> f h" using assms by (auto simp: bounded_def)
    have "sint (if c - 1 <s 0 then 0 else c - 1) = max 0 (sint c - 1)" using c(1) by (rule sint_dec_clamped)
    moreover have "max 0 (sint c - 1) \<le> max 0 (f h - 1)" using c(2) by simp
    ultimately show ?thesis using s' Some assms by (auto simp: bounded_def)
  qed
qed

lemma exact_decrease:
  assumes "exact s f" "0 < f h"
  shows "\<exists>s'. decrease s h 1 = (s', Inr None) \<and> exact s' (f(h := f h - 1)) \<and> dom (conc s') = dom (conc s)"
proof -
  obtain s' where s': "decrease s h 1 = (s', Inr None)" "inv s'"
    "conc s' = (case conc s h of None \<Rightarrow> conc s | Some c \<Rightarrow> (conc s)(h \<mapsto> (if c - 1 <s 0 then 0 else c - 1)))"
    using decrease_law [of s h 1] assms by (auto simp: exact_def)
  obtain c where c: "conc s h = Some c" "f h = sint c" "0 < sint c"
    using assms unfolding exact_def by (cases "conc s h") auto
  define d where "d = (if c - 1 <s 0 then 0 else c - 1)"
  have "sint d = sint c - 1" using sint_dec_clamped [of c] c(3) by (simp add: d_def)
  moreover have "conc s' = (conc s)(h \<mapsto> d)" using s'(3) c(1) by (simp add: d_def)
  ultimately show ?thesis using s'(1,2) c assms(1) by (auto simp: exact_def)
qed

lemma bounded_keys:
  assumes "bounded s f" "\<forall>k. 0 \<le> f k"
  shows "good_config w g \<Longrightarrow> \<exists>s'. ensure s h w g = (s', Inr ()) \<and> bounded s' f \<and> dom (conc s') = insert h (dom (conc s))"
    "good_config w g \<Longrightarrow> \<exists>s'. update s h w g = (s', Inr ()) \<and> bounded s' f \<and> dom (conc s') = insert h (dom (conc s))"
    "bounded (fst (remove s h)) f \<and> dom (conc (fst (remove s h))) = dom (conc s) - {h}"
proof -
  have i: "inv s" using assms by (simp add: bounded_def)
  show "\<exists>s'. ensure s h w g = (s', Inr ()) \<and> bounded s' f \<and> dom (conc s') = insert h (dom (conc s))" if "good_config w g"
    using ensure_law [OF i that, of h] assms by (auto simp: bounded_def)
  show "\<exists>s'. update s h w g = (s', Inr ()) \<and> bounded s' f \<and> dom (conc s') = insert h (dom (conc s))" if "good_config w g"
    using update_law [OF i that, of h] assms by (auto simp: bounded_def)
  show "bounded (fst (remove s h)) f \<and> dom (conc (fst (remove s h))) = dom (conc s) - {h}"
    using remove_law [OF i, of h] assms by (auto simp: bounded_def split: if_splits)
qed

lemma exact_keys:
  assumes "exact s f"
  shows "good_config w g \<Longrightarrow> \<exists>s'. ensure s h w g = (s', Inr ()) \<and> exact s' f \<and> dom (conc s') = insert h (dom (conc s))"
    "good_config w g \<Longrightarrow> \<exists>s'. update s h w g = (s', Inr ()) \<and> exact s' f \<and> dom (conc s') = insert h (dom (conc s))"
proof -
  have i: "inv s" using assms by (simp add: exact_def)
  have up: "exact s' f \<and> dom (conc s') = insert h (dom (conc s))"
    if "inv s'" "conc s' = (if h \<in> dom (conc s) then conc s else (conc s)(h \<mapsto> 0))" for s'
  proof (cases "conc s h")
    case None
    then have "f h = 0" using assms by (simp add: exact_def)
    with None that assms show ?thesis by (simp add: exact_def domIff)
  next
    case (Some c)
    with that assms show ?thesis by (auto simp: exact_def)
  qed
  show "\<exists>s'. ensure s h w g = (s', Inr ()) \<and> exact s' f \<and> dom (conc s') = insert h (dom (conc s))" if "good_config w g"
    using ensure_law [OF i that, of h] up by blast
  show "\<exists>s'. update s h w g = (s', Inr ()) \<and> exact s' f \<and> dom (conc s') = insert h (dom (conc s))" if "good_config w g"
    using update_law [OF i that, of h] up by blast
qed

end

end
