(* ===== verification/Interceptor_System.thy ===== *)
theory Interceptor_System
  imports Counting
begin

text \<open>
  What holds of the interceptor as a whole in every interleaving of requests, informer events and
  refreshes of the routing table: bounds on the concurrency that the scaler reads, the pending
  request gauge, and when the process survives. The invariants rest on the laws of the \<open>counter\<close>
  interface, interpreted on \<open>Memory\<close>, and on the contract of the radix tree.
\<close>

section \<open>Counting goroutines\<close>

lemma length_filter_update:
  "i < length xs \<Longrightarrow> int (length (filter P (xs[i := y]))) =
     int (length (filter P xs)) - of_bool (P (xs ! i)) + of_bool (P y)"
proof (induction xs arbitrary: i)
  case (Cons a xs)
  show ?case
  proof (cases i)
    case (Suc j)
    then show ?thesis using Cons.IH [of j] Cons.prems by simp
  qed simp
qed simp

lemma in_flight_update:
  assumes "i < length gs"
  shows "in_flight (gs[i := g]) k = in_flight gs k - of_bool (g_pc (gs ! i) = GWait \<and> g_key (gs ! i) = k) +
    of_bool (g_pc g = GWait \<and> g_key g = k)"
  using length_filter_update [OF assms, of "\<lambda>g. g_pc g = GWait \<and> g_key g = k" g] by (simp add: in_flight_def)

lemma in_flight_nonneg: "0 \<le> in_flight gs k"
  by (simp add: in_flight_def)

lemma in_flight_simps [simp]:
  "in_flight [] k = 0"
  "in_flight (gs @ [g]) k = in_flight gs k + of_bool (g_pc g = GWait \<and> g_key g = k)"
  by (simp_all add: in_flight_def)

lemma in_flight_less:
  assumes "i < length gs" "g_pc (gs ! i) \<noteq> GWait"
  shows "in_flight gs k < int (length gs)"
proof -
  have "gs ! i \<in> set gs" using assms(1) by simp
  then have "length (filter (\<lambda>g. g_pc g = GWait \<and> g_key g = k) gs) < length gs"
    using assms(2) by (intro length_filter_less) auto
  then show ?thesis by (simp add: in_flight_def)
qed

lemma in_flight_pos:
  assumes "i < length gs" "g_pc (gs ! i) = GWait"
  shows "0 < in_flight gs (g_key (gs ! i))"
proof -
  have "gs ! i \<in> set (filter (\<lambda>g. g_pc g = GWait \<and> g_key g = g_key (gs ! i)) gs)" using assms by simp
  then show ?thesis unfolding in_flight_def by (auto simp: length_greater_0_conv simp del: set_filter)
qed

lemma in_flight_inc:
  assumes "i < length gs" "g_pc (gs ! i) = GInc"
  shows "in_flight (gs[i := (gs ! i)\<lparr>g_pc := GWait\<rparr>]) =
    (in_flight gs)(g_key (gs ! i) := in_flight gs (g_key (gs ! i)) + 1)"
  using assms by (intro ext) (auto simp: in_flight_update)

lemma in_flight_dec:
  assumes "i < length gs" "g_pc (gs ! i) = GWait"
  shows "in_flight (gs[i := (gs ! i)\<lparr>g_pc := GDone, g_sig := sg\<rparr>]) =
    (in_flight gs)(g_key (gs ! i) := in_flight gs (g_key (gs ! i)) - 1)"
  using assms by (intro ext) (auto simp: in_flight_update)

lemma in_flight_same:
  assumes "i < length gs" "g_pc g = g_pc (gs ! i)" "g_key g = g_key (gs ! i)"
  shows "in_flight (gs[i := g]) = in_flight gs"
  using assms by (intro ext) (simp add: in_flight_update)

section \<open>The steps of the counter\<close>

lemma Increase_absent:
  assumes "memory_inv q" "k \<notin> dom (memory_conc q)"
  shows "snd (Increase q k d now) = Inl NilDereference"
  using memory_rps_None [OF assms(1), of k] assms(2) by (simp add: Increase_def Let_def domIff)

lemma Counting_inc_bounded:
  assumes "mem.bounded q f" "clock_ok now" "f k < 2 ^ 63 - 1" "Counting_inc n q calls k now = (q', calls', Inr ok)"
  shows "mem.bounded q' (f(k := f k + 1)) \<and> ok \<and> calls' = RecordPendingRequestCount n calls k 1"
proof -
  have "k \<in> dom (memory_conc q)"
  proof (rule ccontr)
    assume "k \<notin> dom (memory_conc q)"
    then have "snd (Increase q k 1 now) = Inl NilDereference"
      using assms(1) by (intro Increase_absent) (simp_all add: mem.bounded_def)
    with assms(4) show False by (auto simp: Counting_inc_def split: prod.splits)
  qed
  with mem.bounded_increase [OF assms(1) _ assms(2,3)] assms(4) show ?thesis by (auto simp: Counting_inc_def)
qed

lemma Counting_dec_bounded:
  assumes "mem.bounded q f" "0 < f k" "Counting_dec n q calls k = (q', calls', r)"
  shows "mem.bounded q' (f(k := f k - 1)) \<and> calls' = RecordPendingRequestCount n calls k (- 1)"
proof -
  have "max 0 (f k - 1) = f k - 1" using assms(2) by simp
  with mem.bounded_decrease [OF assms(1), of k] assms(3) show ?thesis by (auto simp: Counting_dec_def)
qed

text \<open>The events whose rate configuration the buffers accept.\<close>

definition good_event :: "informer_event \<Rightarrow> bool" where
  "good_event ev = (case ev of
     Add h \<Rightarrow> good_config (fst (rate_window h)) (snd (rate_window h))
   | Update old new \<Rightarrow> good_config (fst (rate_window new)) (snd (rate_window new))
   | Delete h \<Rightarrow> True)"

lemma handler_count_bounded:
  assumes "mem.bounded (queueCounter t) f" "\<forall>k. 0 \<le> f k" "good_event ev" "handler_count str ev t = (t', r)"
  shows "mem.bounded (queueCounter t') f \<and> r = Inr ()"
proof (cases ev)
  case (Add h)
  then show ?thesis
    using assms mem.bounded_keys(1) [OF assms(1,2), of "fst (rate_window h)" "snd (rate_window h)" "str (name_of h)"]
    by (auto simp: handler_count_def good_event_def)
next
  case (Update old new)
  then show ?thesis
    using assms mem.bounded_keys(2) [OF assms(1,2), of "fst (rate_window new)" "snd (rate_window new)" "str (name_of new)"]
    by (auto simp: handler_count_def good_event_def)
next
  case (Delete h)
  with assms show ?thesis by (auto simp: handler_count_def)
qed

lemma handler_store_bounded:
  assumes "mem.bounded (queueCounter t) f" "\<forall>k. 0 \<le> f k"
  shows "mem.bounded (queueCounter (handler_store str ev t)) f"
  using assms mem.bounded_keys(3) [OF assms]
  by (cases ev) (simp_all add: handler_store_def Let_def)

lemma table_step_bounded:
  assumes "table_step E str T s s'" "\<And>ev. E ev \<Longrightarrow> good_event ev" "\<forall>k. 0 \<le> f k" "mem.bounded (queueCounter (tab s)) f"
  shows "mem.bounded (queueCounter (tab s')) f"
  using assms
proof (induction rule: table_step.induct)
  case (deliver s ev t)
  then show ?case using handler_count_bounded [of "tab s" f ev str t "Inr ()"] by simp
next
  case (store s ev)
  then show ?case by (simp add: handler_store_bounded)
qed (simp_all add: handler_signal_def)

section \<open>The concurrency never exceeds the requests being served\<close>

definition sys_bounded :: "'t interceptor \<Rightarrow> bool" where
  "sys_bounded s \<longleftrightarrow> (length (gos s) < 2 ^ 63 \<and> crashed s = None \<longrightarrow> mem.bounded (qc s) (in_flight (gos s)))"

lemma sys_bounded_step:
  assumes "sys_step E str T n s s'" "\<And>ev. E ev \<Longrightarrow> good_event ev" "sys_bounded s"
  shows "sys_bounded s'"
  using assms
proof (induction rule: sys_step.induct)
  case (sys_table s t')
  then show ?case using table_step_bounded [of E str T "tabs s" t' "in_flight (gos s)"]
    by (auto simp: sys_bounded_def in_flight_nonneg)
next
  case (sys_arrive s r h k)
  have "in_flight (gos s @ [\<lparr>g_key = k, g_pc = GInc, g_sig = NewSignaler, g_ctx = None\<rparr>]) = in_flight (gos s)"
    by (intro ext) simp
  with sys_arrive show ?case by (simp add: sys_bounded_def)
next
  case (sys_inc s i now q calls ok)
  show ?case
  proof (cases "length (gos s) < 2 ^ 63")
    case True
    have "in_flight (gos s) (g_key (gos s ! i)) < int (length (gos s))"
      using sys_inc in_flight_less [of i "gos s"] by simp
    moreover have "int (length (gos s)) < 2 ^ 63" using True by simp
    ultimately have lt: "in_flight (gos s) (g_key (gos s ! i)) < 2 ^ 63 - 1" by linarith
    have b: "mem.bounded (qc s) (in_flight (gos s))" using sys_inc True by (simp add: sys_bounded_def)
    have "mem.bounded q ((in_flight (gos s))(g_key (gos s ! i) := in_flight (gos s) (g_key (gos s ! i)) + 1)) \<and> ok"
      using Counting_inc_bounded [OF b _ lt] sys_inc by blast
    then show ?thesis using sys_inc in_flight_inc [of i "gos s"] by (simp add: set_qc_def sys_bounded_def)
  next
    case False
    then show ?thesis by (simp add: sys_bounded_def)
  qed
next
  case (sys_dec s i sg err q calls ok)
  then show ?case
    using Counting_dec_bounded [of "qc s" "in_flight (gos s)" "g_key (gos s ! i)" n "metricCalls s" q calls "Inr ok"]
      in_flight_pos [of i "gos s"] in_flight_dec [of i "gos s" sg]
    by (simp add: sys_bounded_def set_qc_def)
qed (simp_all add: sys_bounded_def in_flight_same)

section \<open>The pending request gauge\<close>

text \<open>The sum of what was reported for a key to the collectors.\<close>

definition pending_gauge :: "metric_call list \<Rightarrow> string \<Rightarrow> int" where
  "pending_gauge calls k =
     (\<Sum>c\<leftarrow>calls. case c of PendingRequestCountCall h v \<Rightarrow> if h = k then v else 0 | _ \<Rightarrow> 0)"

lemma pending_gauge_record:
  "pending_gauge (RecordPendingRequestCount n calls h v) k = pending_gauge calls k + (if h = k then int n * v else 0)"
  by (simp add: pending_gauge_def RecordPendingRequestCount_def sum_list_replicate)

lemma Counting_inc_calls:
  "Counting_inc n q calls k now = (q', calls', Inr ok) \<Longrightarrow>
     calls' = (if ok then RecordPendingRequestCount n calls k 1 else calls)"
  by (auto simp: Counting_inc_def split: prod.splits sum.splits option.splits)

lemma Counting_dec_calls:
  "Counting_dec n q calls k = (q', calls', r) \<Longrightarrow> calls' = RecordPendingRequestCount n calls k (- 1)"
  by (auto simp: Counting_dec_def Decrease_def Let_def split: prod.splits sum.splits option.splits)

lemma sys_gauge_step:
  assumes "sys_step E str T n s s'" "\<forall>k. pending_gauge (metricCalls s) k = int n * in_flight (gos s) k"
  shows "\<forall>k. pending_gauge (metricCalls s') k = int n * in_flight (gos s') k"
  using assms
proof (induction rule: sys_step.induct)
  case (sys_inc s i now q calls ok)
  have "in_flight ((gos s)[i := (gos s ! i)\<lparr>g_pc := GDone\<rparr>]) k = in_flight (gos s) k" for k
    using sys_inc(2,3) by (simp add: in_flight_update)
  with sys_inc in_flight_inc [of i "gos s"] Counting_inc_calls [OF sys_inc(5)] show ?case
    by (auto simp: pending_gauge_record algebra_simps)
next
  case (sys_inc_panic s i now q calls f)
  then show ?case by (auto simp: Counting_inc_def set_qc_def split: prod.splits sum.splits option.splits)
next
  case (sys_dec s i sg err q calls ok)
  with in_flight_dec [of i "gos s" sg] Counting_dec_calls [OF sys_dec(5)] show ?case
    by (auto simp: pending_gauge_record algebra_simps)
qed (simp_all add: in_flight_same)

section \<open>Without deletions\<close>

text \<open>Events that keep every key: no deletion and no renaming.\<close>

definition keeps_keys :: "informer_event \<Rightarrow> bool" where
  "keeps_keys ev = (case ev of Add h \<Rightarrow> True | Update old new \<Rightarrow> name_of old = name_of new | Delete h \<Rightarrow> False)"

text \<open>Every object, every object of a published or computed table and every request has its key in the
  counter.\<close>

definition counter_keys :: "Memory \<Rightarrow> string set" where
  "counter_keys q = dom (memory_conc q)"

definition known :: "(NamespacedName \<Rightarrow> string) \<Rightarrow> Memory \<Rightarrow> HTTPScaledObject \<Rightarrow> bool" where
  "known str q h \<longleftrightarrow> str (name_of h) \<in> counter_keys q"

definition table_known :: "(NamespacedName \<Rightarrow> string) \<Rightarrow> ('t, HTTPScaledObject) radix_ops \<Rightarrow> Memory \<Rightarrow> 't tableMemory \<Rightarrow> bool" where
  "table_known str T q m \<longleftrightarrow> (\<forall>key h. RouteKey T m key = Some h \<longrightarrow> known str q h)"

fun event_known :: "(NamespacedName \<Rightarrow> string) \<Rightarrow> Memory \<Rightarrow> informer_event \<Rightarrow> bool" where
  "event_known str q (Add h) = known str q h"
| "event_known str q (Update old new) = (known str q new \<and> name_of old = name_of new)"
| "event_known str q (Delete h) = False"

definition keys_known :: "(NamespacedName \<Rightarrow> string) \<Rightarrow> ('t, HTTPScaledObject) radix_ops \<Rightarrow> 't table_state \<Rightarrow> bool" where
  "keys_known str T s \<longleftrightarrow>
     (\<forall>e\<in>set (httpScaledObjects (tab s)). known str (queueCounter (tab s)) (snd e)) \<and>
     (\<forall>ev. hand s = HStore ev \<longrightarrow> event_known str (queueCounter (tab s)) ev) \<and>
     (\<forall>m. refr s = RSet m \<longrightarrow> table_known str T (queueCounter (tab s)) m) \<and>
     (\<forall>m. memoryHolder (tab s) = Some m \<longrightarrow> table_known str T (queueCounter (tab s)) m)"

lemma known_mono: "counter_keys q \<subseteq> counter_keys q' \<Longrightarrow> known str q h \<Longrightarrow> known str q' h"
  by (auto simp: known_def)

lemma table_known_mono: "counter_keys q \<subseteq> counter_keys q' \<Longrightarrow> table_known str T q m \<Longrightarrow> table_known str T q' m"
  by (auto simp: table_known_def known_def)

lemma table_known_new:
  assumes "iradix T" "\<forall>e\<in>set objs. known str q (snd e)" "mset order = mset objs"
  shows "table_known str T q (newMemoryFromHTTPSOs str T order)"
proof -
  have "set order = set objs" using assms(3) by (rule mset_eq_setD)
  then have "h \<in> snd ` set objs" if "RouteKey T (newMemoryFromHTTPSOs str T order) key = Some h" for key h
  proof -
    note RT = routing_tree.intro [OF assms(1)]
    obtain k where "rx_Get T (store (remember_all str T (map snd order))) k = Some h"
      using \<open>RouteKey T (newMemoryFromHTTPSOs str T order) key = Some h\<close>
        routing_tree.Route_remember_all [OF RT] by (auto simp: newMemory_remember_all)
    then have "h \<in> set (map snd order)"
      using routing_tree.owner_remember_all [OF RT, of "map snd order" k str] by (simp add: owner_ok_def)
    then show ?thesis using \<open>set order = set objs\<close> by simp
  qed
  then show ?thesis using assms(2) by (auto simp: table_known_def)
qed

lemma set_update_subset: "e \<in> set (AList.update k v m) \<Longrightarrow> e = (k, v) \<or> e \<in> set m"
  by (induction m) (auto split: if_splits)

lemma handler_count_exact:
  assumes "mem.exact (queueCounter t) f" "good_event ev" "keeps_keys ev" "handler_count str ev t = (t', r)"
  shows "mem.exact (queueCounter t') f \<and> r = Inr () \<and> event_known str (queueCounter t') ev \<and>
    counter_keys (queueCounter t) \<subseteq> counter_keys (queueCounter t')"
proof (cases ev)
  case (Add h)
  then show ?thesis
    using assms mem.exact_keys(1) [folded counter_keys_def, OF assms(1), of "fst (rate_window h)" "snd (rate_window h)" "str (name_of h)"]
    by (auto simp: handler_count_def good_event_def known_def)
next
  case (Update old new)
  then show ?thesis
    using assms mem.exact_keys(2) [folded counter_keys_def, OF assms(1), of "fst (rate_window new)" "snd (rate_window new)" "str (name_of new)"]
    by (auto simp: handler_count_def good_event_def known_def keeps_keys_def)
next
  case (Delete h)
  with assms(3) show ?thesis by (simp add: keeps_keys_def)
qed

lemma keys_known_deliver:
  assumes "keys_known str T s" "handler_count str ev (tab s) = (t, r)" "event_known str (queueCounter t) ev"
    "counter_keys (queueCounter (tab s)) \<subseteq> counter_keys (queueCounter t)"
  shows "keys_known str T (s\<lparr>tab := t, hand := HStore ev\<rparr>)"
  using assms(1,3) known_mono [OF assms(4)] table_known_mono [OF assms(4)] handler_count_frame [OF assms(2)]
  by (auto simp: keys_known_def)

lemma handler_store_keeps:
  assumes "event_known str q ev"
  shows "queueCounter (handler_store str ev t) = queueCounter t" "memoryHolder (handler_store str ev t) = memoryHolder t"
    "e \<in> set (httpScaledObjects (handler_store str ev t)) \<Longrightarrow> known str q (snd e) \<or> e \<in> set (httpScaledObjects t)"
  using assms by (cases ev; auto simp: handler_store_def Let_def dest!: set_update_subset)+

lemma keys_known_store:
  assumes "keys_known str T s" "hand s = HStore ev"
  shows "keys_known str T (s\<lparr>tab := handler_store str ev (tab s), hand := HSignal\<rparr>)"
proof -
  have k: "event_known str (queueCounter (tab s)) ev" using assms by (simp add: keys_known_def)
  show ?thesis using assms(1) handler_store_keeps [OF k, where t = "tab s"] by (auto simp: keys_known_def)
qed

lemma table_step_exact:
  assumes "table_step E str T s s'" "iradix T" "\<And>ev. E ev \<Longrightarrow> good_event ev \<and> keeps_keys ev"
    "mem.exact (queueCounter (tab s)) f" "keys_known str T s"
  shows "mem.exact (queueCounter (tab s')) f \<and> keys_known str T s' \<and>
    counter_keys (queueCounter (tab s)) \<subseteq> counter_keys (queueCounter (tab s'))"
  using assms
proof (induction rule: table_step.induct)
  case (deliver s ev t)
  have "good_event ev" "keeps_keys ev" using deliver.prems(2) deliver.hyps(2) by auto
  note h = handler_count_exact [OF deliver.prems(3) this deliver.hyps(3)]
  with keys_known_deliver [OF deliver.prems(4) deliver.hyps(3)] show ?case by simp
next
  case (store s ev)
  have "event_known str (queueCounter (tab s)) ev" using store by (simp add: keys_known_def)
  from handler_store_keeps(1) [OF this, of "tab s"] keys_known_store [OF store.prems(4) store.hyps(1)] store.prems(3)
  show ?case by simp
next
  case (build s order)
  then have "table_known str T (queueCounter (tab s)) (newMemoryFromHTTPSOs str T order)"
    by (intro table_known_new [of _ "httpScaledObjects (tab s)"]) (simp_all add: keys_known_def)
  with build show ?case by (simp add: keys_known_def)
qed (simp_all add: keys_known_def handler_signal_def AtomicValue_Set_def)

definition sys_exact :: "(NamespacedName \<Rightarrow> string) \<Rightarrow> ('t, HTTPScaledObject) radix_ops \<Rightarrow> 't interceptor \<Rightarrow> bool" where
  "sys_exact str T s \<longleftrightarrow> crashed s = None \<and> mem.exact (qc s) (in_flight (gos s)) \<and> keys_known str T (tabs s) \<and>
     (\<forall>g\<in>set (gos s). g_key g \<in> counter_keys (qc s))"

lemma keys_known_set_qc:
  assumes "counter_keys q' = counter_keys (queueCounter (tab t))"
  shows "keys_known str T (t\<lparr>tab := (tab t)\<lparr>queueCounter := q'\<rparr>\<rparr>) = keys_known str T t"
proof -
  have k: "known str q' = known str (queueCounter (tab t))" "table_known str T q' = table_known str T (queueCounter (tab t))"
    using assms by (simp_all add: fun_eq_iff known_def table_known_def)
  have "event_known str q' ev = event_known str (queueCounter (tab t)) ev" for ev by (cases ev) (simp_all add: k)
  with k show ?thesis by (simp add: keys_known_def)
qed

lemma Counting_inc_exact:
  assumes "mem.exact q f" "k \<in> counter_keys q" "clock_ok now" "f k < 2 ^ 63 - 1"
  shows "\<exists>q'. Counting_inc n q calls k now = (q', RecordPendingRequestCount n calls k 1, Inr True) \<and>
    mem.exact q' (f(k := f k + 1)) \<and> counter_keys q' = counter_keys q"
  using mem.exact_increase [folded counter_keys_def, OF assms] by (auto simp: Counting_inc_def)

lemma Counting_dec_exact:
  assumes "mem.exact q f" "0 < f k"
  shows "\<exists>q'. Counting_dec n q calls k = (q', RecordPendingRequestCount n calls k (- 1), Inr True) \<and>
    mem.exact q' (f(k := f k - 1)) \<and> counter_keys q' = counter_keys q"
  using mem.exact_decrease [folded counter_keys_def, OF assms] by (auto simp: Counting_dec_def)

lemma Route_known:
  assumes "keys_known str T (tabs s)" "Route T (tab (tabs s)) (Some r) = Some h"
  shows "str (name_of h) \<in> counter_keys (qc s)"
  using assms by (auto simp: keys_known_def Route_def AtomicValue_Get_def table_known_def known_def split: option.splits)

lemma sys_inc_room:
  assumes "length (gos s) < 2 ^ 63" "i < length (gos s)" "g_pc (gos s ! i) = GInc"
  shows "in_flight (gos s) (g_key (gos s ! i)) < 2 ^ 63 - 1"
proof -
  have "in_flight (gos s) (g_key (gos s ! i)) < int (length (gos s))" using in_flight_less [of i "gos s"] assms by simp
  moreover have "int (length (gos s)) < 2 ^ 63" using assms(1) by simp
  ultimately show ?thesis by linarith
qed

lemma sys_exact_step:
  assumes "sys_step E str T n s s'" "iradix T" "\<And>ev. E ev \<Longrightarrow> good_event ev \<and> keeps_keys ev" "length (gos s) < 2 ^ 63"
    "sys_exact str T s"
  shows "sys_exact str T s'"
  using assms
proof (induction rule: sys_step.induct)
  case (sys_table s t')
  then show ?case using table_step_exact [of E str T "tabs s" t' "in_flight (gos s)"] by (auto simp: sys_exact_def)
next
  case (sys_table_panic s ev t f)
  then have "mem.exact (qc s) (in_flight (gos s))" "good_event ev" "keeps_keys ev" by (auto simp: sys_exact_def)
  from handler_count_exact [OF this sys_table_panic.hyps(4)] show ?case by simp
next
  case (sys_arrive s r h k)
  then have "k \<in> counter_keys (qc s)"
    using Route_known [of str T s r h] by (simp add: sys_exact_def count_key_def context_defs)
  moreover have "in_flight (gos s @ [\<lparr>g_key = k, g_pc = GInc, g_sig = NewSignaler, g_ctx = None\<rparr>]) = in_flight (gos s)"
    by (intro ext) simp
  ultimately show ?case using sys_arrive by (simp add: sys_exact_def)
next
  case (sys_inc s i now q calls ok)
  let ?k = "g_key (gos s ! i)"
  have k: "mem.exact (qc s) (in_flight (gos s))" "?k \<in> counter_keys (qc s)" using sys_inc by (simp_all add: sys_exact_def)
  obtain q' where q': "Counting_inc n (qc s) (metricCalls s) ?k now = (q', RecordPendingRequestCount n (metricCalls s) ?k 1, Inr True)"
    "mem.exact q' ((in_flight (gos s))(?k := in_flight (gos s) ?k + 1))" "counter_keys q' = counter_keys (qc s)"
    using Counting_inc_exact [OF k sys_inc.hyps(4) sys_inc_room [of s i]] sys_inc by blast
  with sys_inc in_flight_inc [of i "gos s"] keys_known_set_qc [OF q'(3)] show ?case
    by (auto simp: sys_exact_def set_qc_def dest!: subsetD [OF set_update_subset_insert])
next
  case (sys_inc_panic s i now q calls f)
  let ?k = "g_key (gos s ! i)"
  have k: "mem.exact (qc s) (in_flight (gos s))" "?k \<in> counter_keys (qc s)" using sys_inc_panic by (simp_all add: sys_exact_def)
  from Counting_inc_exact [OF k sys_inc_panic.hyps(4) sys_inc_room [of s i], of n "metricCalls s"] sys_inc_panic
  show ?case by auto
next
  case (sys_dec s i sg err q calls ok)
  let ?k = "g_key (gos s ! i)"
  have k: "mem.exact (qc s) (in_flight (gos s))" using sys_dec by (simp add: sys_exact_def)
  obtain q' where q': "Counting_dec n (qc s) (metricCalls s) ?k = (q', RecordPendingRequestCount n (metricCalls s) ?k (- 1), Inr True)"
    "mem.exact q' ((in_flight (gos s))(?k := in_flight (gos s) ?k - 1))" "counter_keys q' = counter_keys (qc s)"
    using Counting_dec_exact [OF k in_flight_pos [OF sys_dec.hyps(2,3)]] by blast
  with sys_dec in_flight_dec [of i "gos s" sg] keys_known_set_qc [OF q'(3)] show ?case
    by (auto simp: sys_exact_def set_qc_def dest!: subsetD [OF set_update_subset_insert])
qed (auto simp: sys_exact_def in_flight_same dest!: subsetD [OF set_update_subset_insert])

lemma memory_conc_new: "memory_conc NewMemory = Map.empty"
  by (rule ext) (simp add: memory_conc_def NewMemory_def)

lemma sys_step_gos_mono: "sys_step E str T n s s' \<Longrightarrow> length (gos s) \<le> length (gos s')"
  by (induction rule: sys_step.induct) (simp_all add: set_qc_def)

lemma sys_bounded_reachable:
  assumes "(sys_step E str T n)\<^sup>*\<^sup>* sys_init s" "\<And>ev. E ev \<Longrightarrow> good_event ev"
  shows "sys_bounded s"
  using assms(1)
proof (induction rule: rtranclp_induct)
  case base
  then show ?case by (simp add: sys_bounded_def mem.bounded_def sys_init_def table_init_def NewTable_def
        memory_inv_new memory_conc_new)
next
  case (step y z)
  then show ?case using sys_bounded_step assms(2) by blast
qed

lemma sys_exact_reachable:
  assumes "(sys_step E str T n)\<^sup>*\<^sup>* sys_init s" "iradix T" "\<And>ev. E ev \<Longrightarrow> good_event ev \<and> keeps_keys ev"
    "length (gos s) < 2 ^ 63"
  shows "sys_exact str T s"
  using assms(1,4)
proof (induction rule: rtranclp_induct)
  case base
  then show ?case by (simp add: sys_exact_def mem.exact_def sys_init_def table_init_def NewTable_def
        memory_inv_new memory_conc_new keys_known_def)
next
  case (step y z)
  from sys_step_gos_mono [OF step.hyps(2)] step.prems have "length (gos y) < 2 ^ 63" by simp
  with step assms(2,3) show ?case using sys_exact_step [OF step.hyps(2)] by blast
qed

lemma sys_table_star:
  assumes "(table_step E str T)\<^sup>*\<^sup>* (tabs s) t'" "crashed s = None"
  shows "(sys_step E str T n)\<^sup>*\<^sup>* s (s\<lparr>tabs := t'\<rparr>)"
  using assms(1)
proof (induction rule: rtranclp_induct)
  case (step y z)
  have "sys_step E str T n (s\<lparr>tabs := y\<rparr>) (s\<lparr>tabs := y\<rparr>\<lparr>tabs := z\<rparr>)"
    using step(2) assms(2) by (intro sys_step.sys_table) simp_all
  with step.IH show ?case by (auto intro: rtranclp.rtrancl_into_rtrancl)
qed simp

section \<open>Runs\<close>

lemma add_trace:
  assumes good: "good_event (Add h)" and E: "E (Add h)"
  shows "\<exists>t. (table_step E str T)\<^sup>*\<^sup>* (table_init NewMemory) t \<and> hand t = HIdle \<and>
    memoryHolder (tab t) = Some (newMemoryFromHTTPSOs str T [(name_of h, h)]) \<and>
    memory_inv (queueCounter (tab t)) \<and> memory_conc (queueCounter (tab t)) = [str (name_of h) \<mapsto> 0]"
proof -
  let ?k = "str (name_of h)" and ?R = "table_step E str T"
  obtain q1 where q1: "EnsureKey NewMemory ?k (fst (rate_window h)) (snd (rate_window h)) = (q1, Inr ())" "memory_inv q1"
    "memory_conc q1 = [?k \<mapsto> 0]"
    using EnsureKey_spec [OF memory_inv_new, of _ _ ?k] good by (fastforce simp: good_event_def memory_conc_new)
  let ?t0 = "table_init NewMemory"
  let ?t1 = "?t0\<lparr>tab := (tab ?t0)\<lparr>queueCounter := q1\<rparr>, hand := HStore (Add h)\<rparr>"
  let ?t2 = "?t1\<lparr>tab := handler_store str (Add h) (tab ?t1), hand := HSignal\<rparr>"
  let ?t3 = "?t2\<lparr>tab := handler_signal (tab ?t2), hand := HIdle\<rparr>"
  let ?t4 = "?t3\<lparr>refr := RBuild\<rparr>"
  have s1: "?R ?t0 ?t1"
    by (rule table_step.deliver) (use E q1(1) in \<open>simp_all add: table_init_def NewTable_def handler_count_def\<close>)
  have s2: "?R ?t1 ?t2" by (rule table_step.store) simp
  have s3: "?R ?t2 ?t3" by (rule table_step.signal) simp
  have s4: "?R ?t3 ?t4" by (rule table_step.synced) (simp add: table_init_def)
  obtain t5 where t5: "?R\<^sup>*\<^sup>* ?t4 t5" "hand t5 = HIdle" "queueCounter (tab t5) = q1"
    "memoryHolder (tab t5) = Some (newMemoryFromHTTPSOs str T [(name_of h, h)])"
    using refresh_from_build [of ?t4 E str T]
    by (auto simp: handler_store_def handler_signal_def table_init_def NewTable_def)
  have "?R\<^sup>*\<^sup>* ?t0 t5" using s1 s2 s3 s4 t5(1) by (meson converse_rtranclp_into_rtranclp)
  with t5 q1 show ?thesis by blast
qed

lemma deletion_trace:
  assumes "good_event (Add h)" "E (Add h)" "E (Delete h)"
  shows "\<exists>t. (table_step E str T)\<^sup>*\<^sup>* (table_init NewMemory) t \<and>
    memoryHolder (tab t) = Some (newMemoryFromHTTPSOs str T [(name_of h, h)]) \<and>
    memory_inv (queueCounter (tab t)) \<and> str (name_of h) \<notin> dom (memory_conc (queueCounter (tab t)))"
proof -
  let ?k = "str (name_of h)" and ?R = "table_step E str T"
  obtain t5 where t5: "?R\<^sup>*\<^sup>* (table_init NewMemory) t5" "hand t5 = HIdle" "memory_inv (queueCounter (tab t5))"
    "memoryHolder (tab t5) = Some (newMemoryFromHTTPSOs str T [(name_of h, h)])"
    using add_trace [of h E, OF assms(1,2)] by blast
  let ?t6 = "t5\<lparr>tab := tab t5, hand := HStore (Delete h)\<rparr>"
  let ?t7 = "?t6\<lparr>tab := handler_store str (Delete h) (tab ?t6), hand := HSignal\<rparr>"
  have s6: "?R t5 ?t6" by (rule table_step.deliver) (use assms(3) t5(2) in \<open>simp_all add: handler_count_def\<close>)
  have s7: "?R ?t6 ?t7" by (rule table_step.store) simp
  have "?R\<^sup>*\<^sup>* (table_init NewMemory) ?t7"
    using t5(1) s6 s7 by (meson rtranclp.rtrancl_into_rtrancl)
  moreover obtain q2 where "RemoveKey (queueCounter (tab t5)) ?k = (q2, ?k \<in> dom (memory_conc (queueCounter (tab t5))))"
    "memory_inv q2" "memory_conc q2 = (memory_conc (queueCounter (tab t5)))(?k := None)"
    using RemoveKey_spec [OF t5(3), of ?k] by blast
  ultimately show ?thesis using t5(4) by (intro exI [of _ ?t7]) (simp add: handler_store_def)
qed

lemma serving_trace:
  assumes "good_event (Add h)" "E (Add h)"
    "RouteKey T (newMemoryFromHTTPSOs str T [(name_of h, h)]) (NewKeyFromRequest (Some r)) = Some h"
  shows "\<exists>s. (sys_step E str T n)\<^sup>*\<^sup>* sys_init s \<and> crashed s = None \<and> length (gos s) = 1 \<and>
    memory_conc (qc s) (str (name_of h)) = Some 1"
proof -
  obtain t where t: "(table_step E str T)\<^sup>*\<^sup>* (table_init NewMemory) t"
    "memoryHolder (tab t) = Some (newMemoryFromHTTPSOs str T [(name_of h, h)])"
    "memory_inv (queueCounter (tab t))" "memory_conc (queueCounter (tab t)) = [str (name_of h) \<mapsto> 0]"
    using add_trace [of h E, OF assms(1,2)] by blast
  let ?s1 = "sys_init\<lparr>tabs := t\<rparr>" and ?g = "\<lparr>g_key = str (name_of h), g_pc = GInc, g_sig = NewSignaler, g_ctx = None\<rparr>"
  let ?s2 = "?s1\<lparr>gos := gos ?s1 @ [?g]\<rparr>"
  have clock: "clock_ok (2 * max_duration * max_duration)"
    by (simp add: clock_ok_def year_def minute_def unix_offset_def nanosecond_per_second_def max_duration_def)
  obtain q where q: "Increase (queueCounter (tab t)) (str (name_of h)) 1 (2 * max_duration * max_duration) = (q, Inr None)"
    "memory_conc q = [str (name_of h) \<mapsto> 1]"
    using Increase_spec [OF t(3) _ clock, of "str (name_of h)" 0 1] t(4) by auto
  let ?s3 = "(set_qc q ?s2)\<lparr>metricCalls := RecordPendingRequestCount n (metricCalls ?s2) (str (name_of h)) 1,
    gos := (gos ?s2)[0 := (gos ?s2 ! 0)\<lparr>g_pc := if True then GWait else GDone\<rparr>]\<rparr>"
  have 1: "(sys_step E str T n)\<^sup>*\<^sup>* sys_init ?s1"
    using t(1) by (intro sys_table_star) (simp_all add: sys_init_def)
  have 2: "sys_step E str T n ?s1 ?s2"
    by (rule sys_step.sys_arrive [of _ _ r h])
      (use t(2) assms(3) in \<open>simp_all add: sys_init_def Route_def AtomicValue_Get_def count_key_def context_defs\<close>)
  have 3: "sys_step E str T n ?s2 ?s3"
    by (rule sys_step.sys_inc [OF _ _ _ clock]) (use q in \<open>simp_all add: sys_init_def Counting_inc_def\<close>)
  have "(sys_step E str T n)\<^sup>*\<^sup>* sys_init ?s3" using 1 2 3 by (meson rtranclp.rtrancl_into_rtrancl)
  then show ?thesis using q(2) by (intro exI [of _ ?s3]) (simp add: set_qc_def sys_init_def)
qed

text \<open>The run of the witnesses: one object, with the default rate window and the host \<open>h\<close>, and one request.\<close>

abbreviation demo_app :: HTTPScaledObject where
  "demo_app \<equiv> demo_httpso ''a'' 5 [''h''] [''/'']"

abbreviation demo_events :: "informer_event \<Rightarrow> bool" where
  "demo_events ev \<equiv> ev = Add demo_app"

lemma demo_route: "RouteKey trie_ops (newMemoryFromHTTPSOs demo_str trie_ops [(name_of demo_app, demo_app)])
    (NewKeyFromRequest (Some demo_request)) = Some demo_app"
  by code_simp

lemma demo_good: "good_event (Add demo_app)" "keeps_keys (Add demo_app)"
  by (simp_all add: good_event_def keeps_keys_def demo_httpso_def plain_httpso_def plain_spec_def rate_window_def
      good_config_def minute_def year_def nanosecond_per_second_def max_duration_def)

lemma demo_serving:
  "\<exists>s. (sys_step demo_events demo_str trie_ops 2)\<^sup>*\<^sup>* sys_init s \<and> crashed s = None \<and> length (gos s) = 1 \<and>
    memory_conc (qc s) ''ns/a'' = Some 1"
proof -
  have "demo_str (name_of demo_app) = ''ns/a''" by code_simp
  with serving_trace [of demo_app demo_events, OF demo_good(1) _ demo_route, of 2] show ?thesis by simp
qed

section \<open>Properties\<close>

text \<open>C17: in every interleaving of requests, informer events and refreshes the concurrency that a counter
  shows is at least 0 and at most the number of requests being served for its key, as long as the
  process lives, fewer than \<open>2\<^sup>6\<^sup>3\<close> requests have arrived and the configured rate windows are valid.\<close>

theorem concurrency_bounded:
  assumes "(sys_step E str T n)\<^sup>*\<^sup>* sys_init s" "\<And>ev. E ev \<Longrightarrow> good_event ev" "length (gos s) < 2 ^ 63" "crashed s = None"
    "memory_conc (qc s) k = Some c"
  shows "0 \<le> sint c \<and> sint c \<le> in_flight (gos s) k"
  using sys_bounded_reachable [OF assms(1,2)] assms(3-5) by (auto simp: sys_bounded_def mem.bounded_def)

theorem concurrency_bounded_witness:
  "\<exists>s :: HTTPScaledObject trie interceptor. memory_conc (qc s) ''ns/a'' = Some 1 \<and> (1::int) \<le> in_flight (gos s) ''ns/a''"
proof -
  obtain s where s: "(sys_step demo_events demo_str trie_ops 2)\<^sup>*\<^sup>* sys_init s" "crashed s = None" "length (gos s) = 1"
    "memory_conc (qc s) ''ns/a'' = Some 1"
    using demo_serving by blast
  show ?thesis
    using concurrency_bounded [OF s(1) _ _ s(2,4)] s(3,4) demo_good(1) by (intro exI [of _ s]) simp
qed



text \<open>The gauge of pending requests that the metrics collectors add up is, in every reachable state and
  for every key, the number of requests being served, once for each of the \<open>n\<close> collectors.\<close>

lemma gauge_counts_requests:
  assumes "(sys_step E str T n)\<^sup>*\<^sup>* sys_init s"
  shows "pending_gauge (metricCalls s) k = int n * in_flight (gos s) k"
proof -
  have "\<forall>k. pending_gauge (metricCalls s) k = int n * in_flight (gos s) k"
    using assms
  proof (induction rule: rtranclp_induct)
    case base
    then show ?case by (simp add: sys_init_def pending_gauge_def)
  next
    case (step y z)
    then show ?case using sys_gauge_step by blast
  qed
  then show ?thesis ..
qed

text \<open>C31: deleting an HTTPScaledObject can end the process. With nothing but one valid object added and then
  deleted there is an interleaving in which a request that is still routed to the object, because the
  refresher has not rebuilt the table yet, dereferences a nil pointer in its counting goroutine.\<close>

theorem deletion_can_crash:
  assumes "good_event (Add h)" "E (Add h)" "E (Delete h)" "ReqURL r = Some u"
    "RouteKey T (newMemoryFromHTTPSOs str T [(name_of h, h)]) (NewKeyFromRequest (Some r)) = Some h"
  shows "\<exists>s. (sys_step E str T n)\<^sup>*\<^sup>* sys_init s \<and> crashed s = Some NilDereference"
proof -
  obtain t where t: "(table_step E str T)\<^sup>*\<^sup>* (table_init NewMemory) t"
    "memoryHolder (tab t) = Some (newMemoryFromHTTPSOs str T [(name_of h, h)])"
    "memory_inv (queueCounter (tab t))" "str (name_of h) \<notin> dom (memory_conc (queueCounter (tab t)))"
    using deletion_trace [of h E, OF assms(1-3)] by blast
  let ?s1 = "sys_init\<lparr>tabs := t\<rparr>" and ?g = "\<lparr>g_key = str (name_of h), g_pc = GInc, g_sig = NewSignaler, g_ctx = None\<rparr>"
  let ?s2 = "?s1\<lparr>gos := gos ?s1 @ [?g]\<rparr>"
  obtain q where q: "Increase (queueCounter (tab t)) (str (name_of h)) 1 (2 * max_duration * max_duration) = (q, Inl NilDereference)"
    using Increase_absent [OF t(3,4)] by (metis prod.collapse)
  have 1: "(sys_step E str T n)\<^sup>*\<^sup>* sys_init ?s1"
    using t(1) by (intro sys_table_star) (simp_all add: sys_init_def)
  have 2: "sys_step E str T n ?s1 ?s2"
    by (rule sys_step.sys_arrive [of _ _ r h])
      (use t(2) assms(5) in \<open>simp_all add: sys_init_def Route_def AtomicValue_Get_def count_key_def context_defs\<close>)
  have 3: "sys_step E str T n ?s2 ((set_qc q ?s2)\<lparr>metricCalls := metricCalls ?s2, crashed := Some NilDereference\<rparr>)"
    by (rule sys_step.sys_inc_panic [of _ 0 "2 * max_duration * max_duration"])
      (use q in \<open>simp_all add: sys_init_def Counting_inc_def clock_ok_def year_def minute_def unix_offset_def
        nanosecond_per_second_def max_duration_def\<close>)
  have "(sys_step E str T n)\<^sup>*\<^sup>* sys_init ((set_qc q ?s2)\<lparr>metricCalls := metricCalls ?s2, crashed := Some NilDereference\<rparr>)"
    using 1 2 3 by (meson rtranclp.rtrancl_into_rtrancl)
  then show ?thesis by (intro exI conjI) (assumption, simp)
qed

theorem deletion_can_crash_witness:
  "\<exists>s. (sys_step (\<lambda>ev. ev \<in> {Add demo_app, Delete demo_app}) demo_str trie_ops 2)\<^sup>*\<^sup>* sys_init s \<and>
     crashed s = Some NilDereference"
  by (rule deletion_can_crash [OF demo_good(1) _ _ _ demo_route]) (simp_all add: demo_request_def)

end
