(* ===== verification/Proxy.thy ===== *)
theory Proxy
  imports Interceptor_System
begin

text \<open>
  The proxy server of the interceptor as \<open>runProxyServer\<close> of \<^verbatim>\<open>interceptor/main.go\<close> puts it together:
  metrics around logging around routing around counting around forwarding, with
  \<^verbatim>\<open>middleware/metrics.go\<close> and \<^verbatim>\<open>middleware/logging.go\<close>. With tracing, the handler that \<open>otelhttp.NewHandler\<close> puts
  around routing opens a span for the request and hands request and writer on; it is left out.

  The handlers work on any implementation of \<open>http.ResponseWriter\<close>. The locale \<open>response_writer\<close> is the contract of
  such an implementation: it passes on to a client what is written to it. The writer of \<open>net/http\<close> meets it, and the
  wrapper of the middleware meets it whenever what it wraps does.
\<close>

section \<open>The middleware\<close>

text \<open>\<^verbatim>\<open>config/metrics.go\<close> and \<open>NewMetricsCollectors\<close>: the collectors that are registered.\<close>

record MetricsConfig =
  OtelPrometheusExporterEnabled :: bool
  OtelPrometheusExporterPort :: go_int
  OtelHTTPExporterEnabled :: bool

definition defaultMetrics :: MetricsConfig where
  "defaultMetrics = \<lparr>OtelPrometheusExporterEnabled = True, OtelPrometheusExporterPort = 2223, OtelHTTPExporterEnabled = False\<rparr>"

datatype collector = PrometheusCollector | OtelCollector

definition NewMetricsCollectors :: "MetricsConfig \<Rightarrow> collector list \<Rightarrow> collector list" where
  "NewMetricsCollectors metricsConfig collectors =
     (let collectors = (if OtelPrometheusExporterEnabled metricsConfig then collectors @ [PrometheusCollector] else collectors)
      in if OtelHTTPExporterEnabled metricsConfig then collectors @ [OtelCollector] else collectors)"

text \<open>\<open>Metrics.ServeHTTP\<close>; the wrapped handler may give a further output \<open>'x\<close>. The deferred call
  runs even after a panic.\<close>

definition Metrics_ServeHTTP :: "nat \<Rightarrow> metric_call list \<Rightarrow> ('w responseWriter \<Rightarrow> Request \<Rightarrow> ('w responseWriter \<times> fault option) \<times> 'x) \<Rightarrow>
    'w \<Rightarrow> Request \<Rightarrow> ('w \<times> fault option) \<times> metric_call list \<times> 'x" where
  "Metrics_ServeHTTP n calls upstreamHandler w r =
     (let ((mrw, f), out) = upstreamHandler (newResponseWriter w) r
      in ((downstreamResponseWriter mrw, f), Metrics_metrics n calls mrw r, out))"

text \<open>\<open>Logging.ServeHTTP\<close> with the line that its goroutine logs; \<open>timestamp\<close> is the formatted start time.\<close>

definition CombinedLogBlankValue :: string where
  "CombinedLogBlankValue = ''-''"

definition log_line :: "string \<Rightarrow> 'w responseWriter \<Rightarrow> Request \<Rightarrow> string" where
  "log_line timestamp lrw r =
     RemoteAddr r @ '' '' @ CombinedLogBlankValue @ '' '' @ CombinedLogBlankValue @ '' ['' @ timestamp @ ''] \"'' @
     Method r @ '' '' @ (case ReqURL r of None \<Rightarrow> [] | Some u \<Rightarrow> Path u) @ '' '' @ Proto r @ ''\" '' @
     itoa (statusCode lrw) @ '' '' @ itoa (bytesWritten lrw) @
     '' \"'' @ header_Get (ReqHeader r) ''Referer'' @ ''\" \"'' @ UserAgent r @ ''\"''"

definition Logging_ServeHTTP :: "string \<Rightarrow> ('w responseWriter \<Rightarrow> Request \<Rightarrow> 'w responseWriter \<times> fault option) \<Rightarrow>
    'w \<Rightarrow> Request \<Rightarrow> ('w \<times> fault option) \<times> string list" where
  "Logging_ServeHTTP timestamp upstreamHandler w r =
     (let (lrw, f) = upstreamHandler (newResponseWriter w) r
      in ((downstreamResponseWriter lrw, f), [log_line timestamp lrw r]))"

text \<open>\<open>Counting.ServeHTTP\<close> only starts and signals the counting goroutine, which runs beside the handlers; it is
  part of the relation \<open>sys_step\<close>.\<close>

definition Counting_ServeHTTP :: "('w \<Rightarrow> Request \<Rightarrow> 'w \<times> fault option) \<Rightarrow> 'w \<Rightarrow> Request \<Rightarrow> 'w \<times> fault option" where
  "Counting_ServeHTTP upstreamHandler w r = upstreamHandler w r"

section \<open>The proxy server\<close>

text \<open>What the server is made of: the routing table, the probe, the service cache and the configuration; and of what is
  not part of the program, \<open>url.Parse\<close>, the wait function, and the round trip for a transport.\<close>

record 't proxy =
  px_radix :: "('t, HTTPScaledObject) radix_ops"
  px_urlParse :: "string \<Rightarrow> URL result"
  px_svcCache :: service_cache
  px_tlsEnabled :: bool
  px_table :: "'t table"
  px_probe :: Probe
  px_timeouts :: TimeoutsConfig
  px_serving :: ServingConfig
  px_metrics :: MetricsConfig
  px_waitFunc :: "duration \<Rightarrow> string \<Rightarrow> string \<Rightarrow> bool \<times> go_error option"
  px_tracing :: TracingConfig
  px_otel :: otel
  px_roundTrip :: "Transport \<Rightarrow> Request \<Rightarrow> upstream_response result"

definition proxy_routing :: "'t proxy \<Rightarrow> 'w writer_ops \<Rightarrow> 'w \<Rightarrow> Request \<Rightarrow> 'w \<times> fault option" where
  "proxy_routing p W =
     (let upstreamHandler = forwardingHandler W (newForwardingConfigFromTimeouts (px_timeouts p) (px_serving p)) (px_waitFunc p)
            (px_otel p) (px_roundTrip p) (px_tracing p);
          upstreamHandler = Counting_ServeHTTP upstreamHandler
      in Routing_ServeHTTP W (px_radix p) (px_urlParse p) (px_svcCache p) (px_tlsEnabled p) (px_table p) (px_probe p) upstreamHandler)"

definition runProxyServer :: "'t proxy \<Rightarrow> metric_call list \<Rightarrow> string \<Rightarrow> ResponseWriter \<Rightarrow> Request \<Rightarrow>
    (ResponseWriter \<times> fault option) \<times> metric_call list \<times> string list" where
  "runProxyServer p calls timestamp =
     Metrics_ServeHTTP (length (NewMetricsCollectors (px_metrics p) [])) calls
       (\<lambda>w r. if LogRequests (px_serving p) then Logging_ServeHTTP timestamp (proxy_routing p (wrapped (wrapped net_http))) w r
              else (proxy_routing p (wrapped net_http) w r, []))"

section \<open>The contract of a response writer\<close>

locale response_writer =
  fixes W :: "'w writer_ops" and sent :: "'w \<Rightarrow> ResponseWriter"
  assumes header_law [simp]: "op_Header W w = RespHeader (sent w)"
    and set_header_law [simp]: "sent (op_SetHeader W w h) = (sent w)\<lparr>RespHeader := h\<rparr>"
    and write_header_law [simp]: "sent (op_WriteHeader W w c) = WriteHeader (sent w) c"
    and write_law [simp]: "sent (op_Write W w b) = Write (sent w) b"
begin

text \<open>A handler on such a writer sends what it sends on the writer of \<open>net/http\<close>.\<close>

lemma sent_Static: "sent (Static_ServeHTTP W c e w r) = Static_ServeHTTP net_http c e (sent w) r"
  by (simp add: Static_ServeHTTP_def)

lemma sent_Probe: "sent (Probe_ServeHTTP W ph w r) = Probe_ServeHTTP net_http ph (sent w) r"
  by (simp add: Probe_ServeHTTP_def Let_def)

lemma sent_Upstream: "sent (Upstream_ServeHTTP W ot rt tc f w r) = Upstream_ServeHTTP net_http ot rt tc f (sent w) r"
  by (simp add: Upstream_ServeHTTP_def sent_Static Let_def split: option.split sum.split)

lemma sent_forwarding:
  "map_prod sent id (forwardingHandler W cfg wait ot rt tc w r) = forwardingHandler net_http cfg wait ot rt tc (sent w) r"
  by (auto simp: forwardingHandler_def sent_Upstream Let_def split: option.split prod.split)

lemma sent_proxy: "map_prod sent id (proxy_routing p W w r) = proxy_routing p net_http (sent w) r"
  by (simp add: proxy_routing_def Counting_ServeHTTP_def Routing_ServeHTTP_def sent_Probe sent_Static sent_forwarding Let_def
      split: routing_decision.split)

end

lemma wrapped_writer:
  assumes "response_writer W sent"
  shows "response_writer (wrapped W) (\<lambda>rw. sent (downstreamResponseWriter rw))"
proof -
  note laws = response_writer.header_law [OF assms] response_writer.set_header_law [OF assms] response_writer.write_header_law [OF assms]
    response_writer.write_law [OF assms]
  show ?thesis by unfold_locales (simp_all add: wrapped_def rw_Header_def rw_WriteHeader_def rw_Write_def laws)
qed

interpretation plain_writer: response_writer net_http "\<lambda>w. w"
  by unfold_locales simp_all

interpretation metrics_writer: response_writer "wrapped net_http" downstreamResponseWriter
  by (rule wrapped_writer [OF plain_writer.response_writer_axioms])

interpretation logging_writer: response_writer "wrapped (wrapped net_http)" "\<lambda>rw. downstreamResponseWriter (downstreamResponseWriter rw)"
  by (rule wrapped_writer [OF metrics_writer.response_writer_axioms])

section \<open>What is recorded\<close>

text \<open>Every handler of the chain sets headers first, then the status once, and then writes the body.\<close>

definition answers :: "'w writer_ops \<Rightarrow> 'w \<Rightarrow> 'w \<Rightarrow> bool" where
  "answers W w w' \<longleftrightarrow> (\<exists>hs c b. w' = op_Write W (op_WriteHeader W (foldl (op_SetHeader W) w hs) c) b)"

lemma answers_now: "answers W w (op_Write W (op_WriteHeader W w c) b)"
  unfolding answers_def by (intro exI [of _ "[]"] exI [of _ c] exI [of _ b]) simp

lemma answers_header: "answers W (op_SetHeader W w h) w' \<Longrightarrow> answers W w w'"
  unfolding answers_def by (metis foldl_Cons)

lemma answers_Static: "answers W w (Static_ServeHTTP W c e w r)"
  by (simp add: Static_ServeHTTP_def answers_now)

lemma answers_Upstream: "answers W w (Upstream_ServeHTTP W ot rt tc f w r)"
  by (auto simp: Upstream_ServeHTTP_def Let_def intro: answers_Static answers_header [OF answers_Static] answers_header [OF answers_now]
      answers_header [OF answers_header [OF answers_now]] split: option.split sum.split)

lemma answers_proxy: "\<exists>w'. proxy_routing p W w r = (w', None) \<and> answers W w w'"
proof (cases "Routing_decide (px_urlParse p) (px_svcCache p) (px_tlsEnabled p) (Route (px_radix p) (px_table p) (Some r)) r")
  case ToProbe
  then show ?thesis by (simp add: proxy_routing_def Routing_ServeHTTP_def Probe_ServeHTTP_def answers_now Let_def)
next
  case (ToStatic c e r')
  then show ?thesis by (simp add: proxy_routing_def Routing_ServeHTTP_def answers_Static)
next
  case (ToUpstream r')
  then obtain h where "Route (px_radix p) (px_table p) (Some r) = Some h" "ckHTTPSO (Ctx r') = Some h"
    using Routing_decide_upstream(1) [of "px_urlParse p" "px_svcCache p" "px_tlsEnabled p" _ r r']
    by (cases "Route (px_radix p) (px_table p) (Some r)") (auto simp: Routing_decide_def split: if_splits)
  with ToUpstream show ?thesis
    by (auto simp: proxy_routing_def Routing_ServeHTTP_def Counting_ServeHTTP_def forwardingHandler_def context_defs Let_def
        intro: answers_now answers_Upstream answers_header split: prod.split)
qed

lemma foldl_wrapped: "foldl (op_SetHeader (wrapped W)) rw hs = rw\<lparr>downstreamResponseWriter := foldl (op_SetHeader W) (downstreamResponseWriter rw) hs\<rparr>"
  by (induction hs arbitrary: rw) (simp_all add: wrapped_def)

lemma foldl_net_http: "RespStatus (foldl (op_SetHeader net_http) w hs) = RespStatus w"
  by (induction hs arbitrary: w) simp_all

text \<open>The wrapper then has the status of what it sent.\<close>

lemma answers_wrapped:
  assumes "answers (wrapped W) rw rw'"
  shows "\<exists>hs b. downstreamResponseWriter rw' =
    op_Write W (op_WriteHeader W (foldl (op_SetHeader W) (downstreamResponseWriter rw) hs) (statusCode rw')) b \<and>
    bytesWritten rw' = bytesWritten rw + int (length b)"
  using assms by (auto simp: answers_def foldl_wrapped) (simp_all add: wrapped_def rw_Write_def rw_WriteHeader_def; blast)

lemma foldl_net_http_body: "RespBody (foldl (op_SetHeader net_http) w hs) = RespBody w"
  by (induction hs arbitrary: w) simp_all

lemma sent_net_http:
  "RespStatus (Write (WriteHeader (foldl (op_SetHeader net_http) newResponse hs) c) b) = Some c"
  "RespBody (Write (WriteHeader (foldl (op_SetHeader net_http) newResponse hs) c) b) = b"
  by (simp_all add: Write_def WriteHeader_def foldl_net_http foldl_net_http_body newResponse_def)

lemma metrics_run:
  "\<exists>rw. proxy_routing p (wrapped net_http) (newResponseWriter newResponse) r = (rw, None) \<and>
    proxy_routing p net_http newResponse r = (downstreamResponseWriter rw, None) \<and>
    RespStatus (downstreamResponseWriter rw) = Some (statusCode rw)"
proof -
  obtain rw where rw: "proxy_routing p (wrapped net_http) (newResponseWriter newResponse) r = (rw, None)"
    "answers (wrapped net_http) (newResponseWriter newResponse) rw"
    using answers_proxy [of p "wrapped net_http" "newResponseWriter newResponse" r] by blast
  then show ?thesis
    using metrics_writer.sent_proxy [of p "newResponseWriter newResponse" r] answers_wrapped [OF rw(2)]
    by (auto simp: newResponseWriter_def sent_net_http)
qed

lemma logging_run:
  "\<exists>rw. proxy_routing p (wrapped (wrapped net_http)) (newResponseWriter (newResponseWriter newResponse)) r = (rw, None) \<and>
    proxy_routing p net_http newResponse r = (downstreamResponseWriter (downstreamResponseWriter rw), None) \<and>
    RespStatus (downstreamResponseWriter (downstreamResponseWriter rw)) = Some (statusCode rw) \<and>
    statusCode (downstreamResponseWriter rw) = statusCode rw \<and>
    bytesWritten rw = int (length (RespBody (downstreamResponseWriter (downstreamResponseWriter rw))))"
proof -
  let ?w = "newResponseWriter (newResponseWriter newResponse)"
  obtain rw where rw: "proxy_routing p (wrapped (wrapped net_http)) ?w r = (rw, None)" "answers (wrapped (wrapped net_http)) ?w rw"
    using answers_proxy [of p "wrapped (wrapped net_http)" ?w r] by blast
  obtain hs b where "downstreamResponseWriter rw = op_Write (wrapped net_http) (op_WriteHeader (wrapped net_http)
      (foldl (op_SetHeader (wrapped net_http)) (newResponseWriter newResponse) hs) (statusCode rw)) b" "bytesWritten rw = int (length b)"
    using answers_wrapped [OF rw(2)] by (auto simp: newResponseWriter_def)
  with rw(1) logging_writer.sent_proxy [of p ?w r] show ?thesis
    by (auto simp: foldl_wrapped newResponseWriter_def sent_net_http) (simp_all add: wrapped_def rw_Write_def rw_WriteHeader_def sent_net_http)
qed

text \<open>A run of the whole server on a request.\<close>

lemma proxy_run:
  "\<exists>w' code. proxy_routing p net_http newResponse r = (w', None) \<and> RespStatus w' = Some code \<and>
    runProxyServer p calls timestamp newResponse r = ((w', None),
      (let path = (case ReqURL r of None \<Rightarrow> [] | Some u \<Rightarrow> Path u)
       in if path \<in> {''/livez'', ''/readyz''} then calls
          else calls @ map (\<lambda>_. RequestCountCall (Method r) path code (ReqHost r)) (NewMetricsCollectors (px_metrics p) [])),
      (if LogRequests (px_serving p)
       then [log_line timestamp \<lparr>downstreamResponseWriter = (), bytesWritten = int (length (RespBody w')), statusCode = code\<rparr> r] else []))"
proof (cases "LogRequests (px_serving p)")
  case True
  from logging_run [of p r] True show ?thesis
    by (auto simp: runProxyServer_def Metrics_ServeHTTP_def Logging_ServeHTTP_def Metrics_metrics_def RecordRequestCount_def log_line_def map_replicate_const Let_def)
next
  case False
  from metrics_run [of p r] False show ?thesis
    by (auto simp: runProxyServer_def Metrics_ServeHTTP_def Metrics_metrics_def RecordRequestCount_def map_replicate_const Let_def)
qed

section \<open>Properties\<close>


end
