(* ===== verification/Metrics_Export.thy ===== *)
theory Metrics_Export
  imports Proxy
begin

text \<open>
  \<^verbatim>\<open>interceptor/metrics/prommetrics.go\<close>, \<^verbatim>\<open>otelmetrics.go\<close> and \<^verbatim>\<open>metricscollector.go\<close>, with
  \<^verbatim>\<open>pkg/build/version.go\<close>: the two collectors of metrics and what they export. The SDK of OpenTelemetry is the record \<open>metrics_sdk\<close>; the
  locale \<open>meter\<close> is what the program relies on: an instrument starts with zero and adds up what it is given for each set
  of attributes. It is interpreted on instruments that keep the sums in a map.

  The calls on the collectors are those that \<open>Proxy\<close> and \<open>Counting\<close> write down; \<open>deliver\<close> hands them out to the collectors
  in turn, as the loops over the collectors do.
\<close>

section \<open>The version\<close>

text \<open>The variables of the package \<open>build\<close>, which the linker may set.\<close>

record build_info =
  Version :: string
  GitCommit :: string

definition default_build :: build_info where
  "default_build = \<lparr>Version = ''main'', GitCommit = []\<rparr>"

definition PrintComponentInfo :: "build_info \<Rightarrow> string \<Rightarrow> string \<Rightarrow> string \<Rightarrow> string \<Rightarrow> string list" where
  "PrintComponentInfo b goVersion goos goarch component =
     [component @ '' Version: '' @ Version b, component @ '' Commit: '' @ GitCommit b,
      ''Go Version: '' @ goVersion, ''Go OS/Arch: '' @ goos @ ''/'' @ goarch]"

section \<open>The SDK\<close>

datatype attr_value = StringValue string | IntValue int

datatype 'o metric_reader = PrometheusReader "'o list" | PeriodicReader

datatype 'o metric_option = WithReader "'o metric_reader" | WithResource string "(string \<times> string) list"

text \<open>The constructors of the exporters may fail, and so may those of the instruments, which get the options of the provider, the name of
  the meter, and a name and a description.\<close>

record ('o, 'm, 'a) metrics_sdk =
  SchemaURL :: string
  ServiceNameKey :: string
  ServiceVersionKey :: string
  prometheus_New :: "'o list \<Rightarrow> go_error option"
  otlpmetrichttp_New :: "go_error option"
  Int64Counter :: "'o metric_option list \<Rightarrow> string \<Rightarrow> string \<Rightarrow> string \<Rightarrow> 'm result"
  Int64UpDownCounter :: "'o metric_option list \<Rightarrow> string \<Rightarrow> string \<Rightarrow> string \<Rightarrow> 'm result"
  sdk_NewSet :: "(string \<times> attr_value) list \<Rightarrow> 'a"
  Counter_Add :: "'m \<Rightarrow> go_int \<Rightarrow> 'a \<Rightarrow> 'm"
  UpDown_Add :: "'m \<Rightarrow> go_int \<Rightarrow> 'a \<Rightarrow> 'm"

section \<open>The collectors\<close>

definition meterName :: string where
  "meterName = ''keda-interceptor-proxy''"

definition metrics_resource :: "('o, 'm, 'a) metrics_sdk \<Rightarrow> build_info \<Rightarrow> 'o metric_option" where
  "metrics_resource sdk b = WithResource (SchemaURL sdk)
     [(ServiceNameKey sdk, ''interceptor-proxy''), (ServiceVersionKey sdk, Version b)]"

record 'm PrometheusMetrics =
  prom_requestCounter :: 'm
  prom_pendingRequestCounter :: 'm

record 'm OtelMetrics =
  otel_requestCounter :: 'm
  otel_pendingRequestCounter :: 'm

text \<open>\<open>log.Fatalf\<close> ends the process with a message, the left result. The options are nil or a list.\<close>

definition NewPrometheusMetrics :: "('o, 'm, 'a) metrics_sdk \<Rightarrow> build_info \<Rightarrow> 'o list option \<Rightarrow> string + 'm PrometheusMetrics" where
  "NewPrometheusMetrics sdk b options =
     (let os = (case options of None \<Rightarrow> [] | Some os \<Rightarrow> os)
      in case prometheus_New sdk os of
           Some err \<Rightarrow> Inl (''could not create Prometheus exporter: '' @ error_text err)
         | None \<Rightarrow>
             (let provider = [WithReader (PrometheusReader os), metrics_resource sdk b]
              in case Int64Counter sdk provider meterName ''interceptor_request_count''
                        ''a counter of requests processed by the interceptor proxy'' of
                   Inl err \<Rightarrow> Inl (''could not create new Prometheus request counter: '' @ error_text err)
                 | Inr reqCounter \<Rightarrow>
                     (case Int64UpDownCounter sdk provider meterName ''interceptor_pending_request_count''
                             ''a count of requests pending forwarding by the interceptor proxy'' of
                        Inl err \<Rightarrow> Inl (''could not create new Prometheus pending request counter: '' @ error_text err)
                      | Inr pending \<Rightarrow> Inr \<lparr>prom_requestCounter = reqCounter, prom_pendingRequestCounter = pending\<rparr>)))"

definition Prometheus_RecordRequestCount :: "('o, 'm, 'a) metrics_sdk \<Rightarrow> 'm PrometheusMetrics \<Rightarrow> string \<Rightarrow> string \<Rightarrow> int \<Rightarrow> string \<Rightarrow>
    'm PrometheusMetrics" where
  "Prometheus_RecordRequestCount sdk p meth path responseCode host =
     (let opt = sdk_NewSet sdk [(''method'', StringValue meth), (''path'', StringValue path), (''code'', IntValue responseCode),
            (''host'', StringValue host)]
      in p\<lparr>prom_requestCounter := Counter_Add sdk (prom_requestCounter p) 1 opt\<rparr>)"

definition Prometheus_RecordPendingRequestCount :: "('o, 'm, 'a) metrics_sdk \<Rightarrow> 'm PrometheusMetrics \<Rightarrow> string \<Rightarrow> go_int \<Rightarrow>
    'm PrometheusMetrics" where
  "Prometheus_RecordPendingRequestCount sdk p host v =
     (let opt = sdk_NewSet sdk [(''host'', StringValue host)]
      in p\<lparr>prom_pendingRequestCounter := UpDown_Add sdk (prom_pendingRequestCounter p) v opt\<rparr>)"

definition NewOtelMetrics :: "('o, 'm, 'a) metrics_sdk \<Rightarrow> build_info \<Rightarrow> 'o metric_option list option \<Rightarrow> string + 'm OtelMetrics" where
  "NewOtelMetrics sdk b options =
     (case otlpmetrichttp_New sdk of
        Some err \<Rightarrow> Inl (''could not create otelmetrichttp exporter: '' @ error_text err)
      | None \<Rightarrow>
          (let provider = (case options of None \<Rightarrow> [WithReader PeriodicReader, metrics_resource sdk b] | Some os \<Rightarrow> os)
           in case Int64Counter sdk provider meterName ''interceptor_request_count''
                     ''a counter of requests processed by the interceptor proxy'' of
                Inl err \<Rightarrow> Inl (''could not create new otelhttpmetric request counter: '' @ error_text err)
              | Inr reqCounter \<Rightarrow>
                  (case Int64UpDownCounter sdk provider meterName ''interceptor_pending_request_count''
                          ''a count of requests pending forwarding by the interceptor proxy'' of
                     Inl err \<Rightarrow> Inl (''could not create new otelhttpmetric pending request counter: '' @ error_text err)
                   | Inr pending \<Rightarrow> Inr \<lparr>otel_requestCounter = reqCounter, otel_pendingRequestCounter = pending\<rparr>)))"

definition Otel_RecordRequestCount :: "('o, 'm, 'a) metrics_sdk \<Rightarrow> 'm OtelMetrics \<Rightarrow> string \<Rightarrow> string \<Rightarrow> int \<Rightarrow> string \<Rightarrow> 'm OtelMetrics" where
  "Otel_RecordRequestCount sdk om meth path responseCode host =
     (let opt = sdk_NewSet sdk [(''method'', StringValue meth), (''path'', StringValue path), (''code'', IntValue responseCode),
            (''host'', StringValue host)]
      in om\<lparr>otel_requestCounter := Counter_Add sdk (otel_requestCounter om) 1 opt\<rparr>)"

definition Otel_RecordPendingRequestCount :: "('o, 'm, 'a) metrics_sdk \<Rightarrow> 'm OtelMetrics \<Rightarrow> string \<Rightarrow> go_int \<Rightarrow> 'm OtelMetrics" where
  "Otel_RecordPendingRequestCount sdk om host v =
     (let opt = sdk_NewSet sdk [(''host'', StringValue host)]
      in om\<lparr>otel_pendingRequestCounter := UpDown_Add sdk (otel_pendingRequestCounter om) v opt\<rparr>)"

text \<open>The interface \<open>Collector\<close>: a value of one of the two types, and a call on it.\<close>

datatype 'm Collector = Prometheus "'m PrometheusMetrics" | Otel "'m OtelMetrics"

definition Collector_call :: "('o, 'm, 'a) metrics_sdk \<Rightarrow> metric_call \<Rightarrow> 'm Collector \<Rightarrow> 'm Collector" where
  "Collector_call sdk call c =
     (case call of
        RequestCountCall meth path code host \<Rightarrow>
          (case c of Prometheus p \<Rightarrow> Prometheus (Prometheus_RecordRequestCount sdk p meth path code host)
           | Otel om \<Rightarrow> Otel (Otel_RecordRequestCount sdk om meth path code host))
      | PendingRequestCountCall host v \<Rightarrow>
          (case c of Prometheus p \<Rightarrow> Prometheus (Prometheus_RecordPendingRequestCount sdk p host (word_of_int v))
           | Otel om \<Rightarrow> Otel (Otel_RecordPendingRequestCount sdk om host (word_of_int v))))"

definition create_collectors :: "('o, 'm, 'a) metrics_sdk \<Rightarrow> build_info \<Rightarrow> MetricsConfig \<Rightarrow> 'm Collector list \<Rightarrow> string + 'm Collector list" where
  "create_collectors sdk b metricsConfig collectors =
     (let otel = (\<lambda>cs. if OtelHTTPExporterEnabled metricsConfig
            then (case NewOtelMetrics sdk b None of Inl msg \<Rightarrow> Inl msg | Inr otelhttpmetrics \<Rightarrow> Inr (cs @ [Otel otelhttpmetrics]))
            else Inr cs)
      in if OtelPrometheusExporterEnabled metricsConfig
         then (case NewPrometheusMetrics sdk b None of Inl msg \<Rightarrow> Inl msg | Inr promometrics \<Rightarrow> otel (collectors @ [Prometheus promometrics]))
         else otel collectors)"

text \<open>The calls that were written down, each to the collector whose turn it is.\<close>

definition deliver :: "('o, 'm, 'a) metrics_sdk \<Rightarrow> 'm Collector list \<Rightarrow> metric_call list \<Rightarrow> 'm Collector list" where
  "deliver sdk cs calls =
     foldl (\<lambda>cs (i, call). let j = i mod length cs in cs[j := Collector_call sdk call (cs ! j)]) cs (enumerate 0 calls)"

definition pending_counter :: "'m Collector \<Rightarrow> 'm" where
  "pending_counter c = (case c of Prometheus p \<Rightarrow> prom_pendingRequestCounter p | Otel om \<Rightarrow> otel_pendingRequestCounter om)"

definition request_counter :: "'m Collector \<Rightarrow> 'm" where
  "request_counter c = (case c of Prometheus p \<Rightarrow> prom_requestCounter p | Otel om \<Rightarrow> otel_requestCounter om)"

lemmas collector_defs = Prometheus_RecordRequestCount_def Prometheus_RecordPendingRequestCount_def Otel_RecordRequestCount_def
  Otel_RecordPendingRequestCount_def Collector_call_def pending_counter_def request_counter_def

section \<open>Every collector gets every call\<close>

lemma deliver_snoc:
  "deliver sdk cs (calls @ [c]) = (let ds = deliver sdk cs calls; j = length calls mod length ds in ds[j := Collector_call sdk c (ds ! j)])"
  by (simp add: deliver_def enumerate_append_eq Let_def)

lemma length_deliver [simp]: "length (deliver sdk cs calls) = length cs"
  by (induction calls rule: rev_induct) (simp_all add: deliver_snoc Let_def, simp add: deliver_def)

lemma deliver_round:
  assumes "length cs dvd length calls" "j \<le> length cs"
  shows "deliver sdk cs (calls @ replicate j c) =
    map (Collector_call sdk c) (take j (deliver sdk cs calls)) @ drop j (deliver sdk cs calls)"
  using assms(2)
proof (induction j)
  case (Suc j)
  let ?ds = "deliver sdk cs calls"
  have turn: "(length calls + j) mod length cs = j" using assms(1) Suc.prems by (auto elim!: dvdE simp: mod_mult_self1)
  have "deliver sdk cs (calls @ replicate (Suc j) c) = deliver sdk cs ((calls @ replicate j c) @ [c])"
    by (simp add: replicate_append_same)
  also have "\<dots> = (map (Collector_call sdk c) (take j ?ds) @ drop j ?ds)[j := Collector_call sdk c (?ds ! j)]"
    using Suc turn unfolding deliver_snoc by (simp add: Let_def nth_append)
  also have "\<dots> = map (Collector_call sdk c) (take (Suc j) ?ds) @ drop (Suc j) ?ds"
    using Suc.prems by (simp add: list_update_append take_Suc_conv_app_nth Cons_nth_drop_Suc [symmetric])
  finally show ?case .
qed simp

lemma deliver_rounds:
  "deliver sdk cs (concat (map (replicate (length cs)) bs)) = map (\<lambda>c. foldl (\<lambda>c b. Collector_call sdk b c) c bs) cs"
proof (induction bs rule: rev_induct)
  case (snoc b bs)
  have "length cs dvd length (concat (map (replicate (length cs)) bs))"
    by (induction bs) simp_all
  from deliver_round [OF this order_refl, of sdk b] snoc show ?case by simp
qed (simp add: deliver_def)

lemma create_collectors_length:
  "create_collectors sdk b cfg [] = Inr cs \<Longrightarrow> length cs = length (NewMetricsCollectors cfg [])"
  by (auto simp: create_collectors_def NewMetricsCollectors_def Let_def split: if_splits sum.splits)

section \<open>The contract of the instruments\<close>

locale meter =
  fixes sdk :: "('o, 'm, 'a) metrics_sdk" and exported :: "'m \<Rightarrow> 'a \<Rightarrow> go_int"
  assumes set_law: "distinct (map fst xs) \<Longrightarrow> distinct (map fst ys) \<Longrightarrow> sdk_NewSet sdk xs = sdk_NewSet sdk ys \<longleftrightarrow> map_of xs = map_of ys"
    and counter_law: "Int64Counter sdk provider mname iname descr = Inr m \<Longrightarrow> exported m a = 0"
    and updown_law: "Int64UpDownCounter sdk provider mname iname descr = Inr m \<Longrightarrow> exported m a = 0"
    and counter_add: "0 \<le>s v \<Longrightarrow> exported (Counter_Add sdk m v a) a' = exported m a' + (if a = a' then v else 0)"
    and updown_add: "exported (UpDown_Add sdk m v a) a' = exported m a' + (if a = a' then v else 0)"
begin

lemma host_sets: "sdk_NewSet sdk [(''host'', StringValue h)] = sdk_NewSet sdk [(''host'', StringValue h')] \<longleftrightarrow> h = h'"
  using set_law [of "[(''host'', StringValue h)]" "[(''host'', StringValue h')]"] by (auto simp: fun_eq_iff)

lemma request_sets:
  "sdk_NewSet sdk [(''method'', StringValue m), (''path'', StringValue p), (''code'', IntValue c), (''host'', StringValue h)] =
   sdk_NewSet sdk [(''method'', StringValue m'), (''path'', StringValue p'), (''code'', IntValue c'), (''host'', StringValue h')] \<longleftrightarrow>
   m = m' \<and> p = p' \<and> c = c' \<and> h = h'"
proof -
  let ?s = "\<lambda>m p c h. [(''method'', StringValue m), (''path'', StringValue p), (''code'', IntValue c), (''host'', StringValue h)]"
  have "map_of (?s m p c h) = map_of (?s m' p' c' h') \<longleftrightarrow> m = m' \<and> p = p' \<and> c = c' \<and> h = h'"
  proof
    assume e: "map_of (?s m p c h) = map_of (?s m' p' c' h')"
    show "m = m' \<and> p = p' \<and> c = c' \<and> h = h'"
      using fun_cong [OF e, of "''method''"] fun_cong [OF e, of "''path''"] fun_cong [OF e, of "''code''"] fun_cong [OF e, of "''host''"]
      by simp
  qed simp
  with set_law [of "?s m p c h" "?s m' p' c' h'"] show ?thesis by simp
qed

lemma created_zero:
  assumes "create_collectors sdk b cfg [] = Inr cs" "c \<in> set cs"
  shows "exported (pending_counter c) a = 0" "exported (request_counter c) a = 0"
  using assms
  by (auto simp: create_collectors_def NewPrometheusMetrics_def NewOtelMetrics_def collector_defs Let_def counter_law updown_law
      split: if_splits sum.splits option.splits)

lemma pending_total_call:
  "exported (pending_counter (Collector_call sdk b c)) (sdk_NewSet sdk [(''host'', StringValue k)]) =
   exported (pending_counter c) (sdk_NewSet sdk [(''host'', StringValue k)]) + word_of_int (pending_gauge [b] k)"
  by (cases b; cases c) (simp_all add: collector_defs pending_gauge_def updown_add host_sets Let_def)

lemma pending_total:
  "exported (pending_counter (foldl (\<lambda>c b. Collector_call sdk b c) c bs)) (sdk_NewSet sdk [(''host'', StringValue k)]) =
   exported (pending_counter c) (sdk_NewSet sdk [(''host'', StringValue k)]) + word_of_int (pending_gauge bs k)"
proof (induction bs rule: rev_induct)
  case (snoc b bs)
  then show ?case unfolding foldl_append foldl_Cons foldl_Nil pending_total_call by (simp add: pending_gauge_def)
qed (simp add: pending_gauge_def)

lemma request_total:
  "exported (request_counter (foldl (\<lambda>c b. Collector_call sdk b c) c bs))
     (sdk_NewSet sdk [(''method'', StringValue m), (''path'', StringValue p), (''code'', IntValue s), (''host'', StringValue h)]) =
   exported (request_counter c)
     (sdk_NewSet sdk [(''method'', StringValue m), (''path'', StringValue p), (''code'', IntValue s), (''host'', StringValue h)]) +
   of_nat (count_list bs (RequestCountCall m p s h))"
proof (induction bs arbitrary: c)
  case (Cons b bs)
  have "exported (request_counter (Collector_call sdk b c))
     (sdk_NewSet sdk [(''method'', StringValue m), (''path'', StringValue p), (''code'', IntValue s), (''host'', StringValue h)]) =
   exported (request_counter c)
     (sdk_NewSet sdk [(''method'', StringValue m), (''path'', StringValue p), (''code'', IntValue s), (''host'', StringValue h)]) +
   (if b = RequestCountCall m p s h then 1 else 0)"
    using counter_add [of 1] by (cases b; cases c) (simp_all add: collector_defs word_sle_eq request_sets Let_def)
  with Cons show ?case by simp
qed simp

end

text \<open>Instruments that keep a sum for each set of attributes.\<close>

definition sum_sdk :: "(nat, (string \<rightharpoonup> attr_value) \<Rightarrow> go_int, string \<rightharpoonup> attr_value) metrics_sdk" where
  "sum_sdk = \<lparr>SchemaURL = [], ServiceNameKey = ''service.name'', ServiceVersionKey = ''service.version'',
     prometheus_New = (\<lambda>_. None), otlpmetrichttp_New = None,
     Int64Counter = (\<lambda>_ _ _ _. Inr (\<lambda>_. 0)), Int64UpDownCounter = (\<lambda>_ _ _ _. Inr (\<lambda>_. 0)),
     sdk_NewSet = map_of, Counter_Add = (\<lambda>m v a. m(a := m a + v)), UpDown_Add = (\<lambda>m v a. m(a := m a + v))\<rparr>"

interpretation sums: meter sum_sdk "\<lambda>m. m"
  by unfold_locales (auto simp: sum_sdk_def)

section \<open>Properties\<close>

lemma sys_rounds:
  assumes "(sys_step E str T n)\<^sup>*\<^sup>* sys_init s"
  shows "\<exists>bs. metricCalls s = concat (map (replicate n) bs)"
proof -
  define rounds where "rounds calls \<longleftrightarrow> (\<exists>bs. calls = concat (map (replicate n) bs))" for calls :: "metric_call list"
  have call: "rounds (RecordPendingRequestCount n calls k v)" if "rounds calls" for calls k v
    using that by (auto simp: rounds_def RecordPendingRequestCount_def intro: exI [of _ "_ @ [PendingRequestCountCall k v]"])
  have "rounds (metricCalls s)"
    using assms
  proof (induction rule: rtranclp_induct)
    case base
    then show ?case unfolding rounds_def by (intro exI [of _ "[]"]) (simp add: sys_init_def)
  next
    case (step s s')
    from step(2,3) show ?case
      by (cases rule: sys_step.cases)
        (auto simp: Counting_inc_def Counting_dec_def set_qc_def call split: prod.splits sum.splits option.splits if_splits)
  qed
  then show ?thesis by (simp add: rounds_def)
qed

text \<open>The calls of a sequence of requests, each with the state of the server that serves it.\<close>

definition served_calls :: "('t proxy \<times> string \<times> Request) list \<Rightarrow> metric_call list" where
  "served_calls runs = foldl (\<lambda>calls (p, timestamp, r). fst (snd (runProxyServer p calls timestamp newResponse r))) [] runs"

text \<open>A request with these attributes, on a path that is counted, and the status of its response.\<close>

definition answered_with :: "string \<Rightarrow> string \<Rightarrow> int \<Rightarrow> string \<Rightarrow> 't proxy \<times> string \<times> Request \<Rightarrow> bool" where
  "answered_with meth path code host run =
     (case run of (p, timestamp, r) \<Rightarrow>
        Method r = meth \<and> (case ReqURL r of None \<Rightarrow> [] | Some u \<Rightarrow> Path u) = path \<and> path \<notin> {''/livez'', ''/readyz''} \<and>
        ReqHost r = host \<and> RespStatus (fst (proxy_routing p net_http newResponse r)) = Some code)"

lemma served_rounds:
  assumes "\<forall>(p, timestamp, r) \<in> set runs. px_metrics p = cfg"
  shows "\<exists>bs. served_calls runs = concat (map (replicate (length (NewMetricsCollectors cfg []))) bs) \<and>
    (\<forall>m pa s h. count_list bs (RequestCountCall m pa s h) = length (filter (answered_with m pa s h) runs))"
  using assms
proof (induction runs rule: rev_induct)
  case Nil
  show ?case by (intro exI [of _ "[]"]) (simp add: served_calls_def)
next
  case (snoc run runs)
  obtain p timestamp r where run: "run = (p, timestamp, r)" "px_metrics p = cfg" using snoc.prems by (cases run) auto
  let ?path = "case ReqURL r of None \<Rightarrow> [] | Some u \<Rightarrow> Path u"
  obtain bs where bs: "served_calls runs = concat (map (replicate (length (NewMetricsCollectors cfg []))) bs)"
    "\<And>m pa s h. count_list bs (RequestCountCall m pa s h) = length (filter (answered_with m pa s h) runs)"
    using snoc by auto
  obtain w' code where w': "proxy_routing p net_http newResponse r = (w', None)" "RespStatus w' = Some code"
    "fst (snd (runProxyServer p (served_calls runs) timestamp newResponse r)) = (if ?path \<in> {''/livez'', ''/readyz''} then served_calls runs
       else served_calls runs @ map (\<lambda>_. RequestCountCall (Method r) ?path code (ReqHost r)) (NewMetricsCollectors cfg []))"
    using proxy_run [of p r "served_calls runs" timestamp] run(2) unfolding Let_def by auto
  have calls: "served_calls (runs @ [run]) = fst (snd (runProxyServer p (served_calls runs) timestamp newResponse r))"
    by (simp add: served_calls_def run)
  show ?case
  proof (cases "?path \<in> {''/livez'', ''/readyz''}")
    case True
    then have "\<not> answered_with m pa s h run" for m pa s h by (auto simp: answered_with_def run)
    with bs calls w'(3) True show ?thesis by (intro exI [of _ bs]) simp
  next
    case False
    then have "answered_with m pa s h run \<longleftrightarrow> RequestCountCall (Method r) ?path code (ReqHost r) = RequestCountCall m pa s h" for m pa s h
      using w' by (auto simp: answered_with_def run)
    with bs calls w'(3) False show ?thesis
      by (intro exI [of _ "bs @ [RequestCountCall (Method r) ?path code (ReqHost r)]"]) (simp add: map_replicate_const)
  qed
qed

text \<open>C18: what the interceptor exports as pending requests is what it serves. In every reachable state, each collector
  that the configuration creates exports for each key the number of requests being served.\<close>

theorem exported_pending_requests:
  assumes "meter sdk exported" "create_collectors sdk b cfg [] = Inr cs"
    and "(sys_step E str T (length (NewMetricsCollectors cfg [])))\<^sup>*\<^sup>* sys_init s" "length (gos s) < 2 ^ 63"
    and "c \<in> set (deliver sdk cs (metricCalls s))"
  shows "sint (exported (pending_counter c) (sdk_NewSet sdk [(''host'', StringValue k)])) = in_flight (gos s) k"
proof -
  note len = create_collectors_length [OF assms(2)]
  obtain bs where bs: "metricCalls s = concat (map (replicate (length cs)) bs)" using sys_rounds [OF assms(3)] len by auto
  with assms(5) obtain c0 where c0: "c0 \<in> set cs" "c = foldl (\<lambda>c b. Collector_call sdk b c) c0 bs" by (auto simp: deliver_rounds)
  have "pending_gauge (concat (map (replicate n) bs)) k = int n * pending_gauge bs k" for n
    by (induction bs) (simp_all add: pending_gauge_def sum_list_replicate algebra_simps split: metric_call.split)
  with gauge_counts_requests [OF assms(3), of k] len bs c0(1) have "pending_gauge bs k = in_flight (gos s) k" by auto
  moreover have "in_flight (gos s) k \<in> {0..<2 ^ 63}"
    using assms(4) le_less_trans [OF length_filter_le, of "gos s"] by (simp add: in_flight_def)
  ultimately show ?thesis
    using meter.pending_total [OF assms(1), of c0 bs k] meter.created_zero(1) [OF assms(1,2) c0(1)] wrap64_id [of "in_flight (gos s) k"]
    by (simp add: c0(2) wrap64_def)
qed

theorem exported_pending_requests_witness:
  "\<exists>s cs. (sys_step demo_events demo_str trie_ops 2)\<^sup>*\<^sup>* sys_init s \<and>
    create_collectors sum_sdk default_build \<lparr>OtelPrometheusExporterEnabled = True, OtelPrometheusExporterPort = 2223, OtelHTTPExporterEnabled = True\<rparr> [] = Inr cs \<and>
    map (\<lambda>c. sint (pending_counter c (map_of [(''host'', StringValue ''ns/a'')]))) (deliver sum_sdk cs (metricCalls s)) = [1, 1]"
proof -
  let ?cfg = "\<lparr>OtelPrometheusExporterEnabled = True, OtelPrometheusExporterPort = 2223, OtelHTTPExporterEnabled = True\<rparr>"
  obtain cs where cs: "create_collectors sum_sdk default_build ?cfg [] = Inr cs"
    by (simp add: create_collectors_def NewPrometheusMetrics_def NewOtelMetrics_def sum_sdk_def)
  have two: "length (NewMetricsCollectors ?cfg []) = 2" by (simp add: NewMetricsCollectors_def)
  obtain s where s: "(sys_step demo_events demo_str trie_ops 2)\<^sup>*\<^sup>* sys_init s" "length (gos s) = 1" "memory_conc (qc s) ''ns/a'' = Some 1"
    using demo_serving by blast
  have exact: "mem.exact (qc s) (in_flight (gos s))"
    using sys_exact_reachable [OF s(1) byte_trie.iradix_axioms] s(2) demo_good by (simp add: sys_exact_def)
  then have one: "in_flight (gos s) ''ns/a'' = 1" using s(3) by (simp add: mem.exact_def)
  have "sint (pending_counter c (map_of [(''host'', StringValue ''ns/a'')])) = 1" if "c \<in> set (deliver sum_sdk cs (metricCalls s))" for c
    using exported_pending_requests [OF sums.meter_axioms cs, unfolded two, OF s(1) _ that, of "''ns/a''"] s(2) one by (simp add: sum_sdk_def)
  then have "map (\<lambda>c. sint (pending_counter c (map_of [(''host'', StringValue ''ns/a'')]))) (deliver sum_sdk cs (metricCalls s)) =
      map (\<lambda>_. 1) (deliver sum_sdk cs (metricCalls s))" by (intro map_cong refl)
  also have "\<dots> = [1, 1]" using create_collectors_length [OF cs] by (simp add: map_replicate_const two numeral_2_eq_2)
  finally show ?thesis using s(1) cs by (intro exI [of _ s] exI [of _ cs] conjI)
qed


text \<open>A server without routes answers 404.\<close>

definition demo_proxy :: "HTTPScaledObject trie proxy" where
  "demo_proxy = \<lparr>px_radix = trie_ops, px_urlParse = demo_parse, px_svcCache = (\<lambda>_ _. Inl Canceled), px_tlsEnabled = False,
     px_table = NewTable NewMemory, px_probe = NewProbe, px_timeouts = defaultTimeouts, px_serving = defaultServing ''keda'' 8080 9090,
     px_metrics = defaultMetrics, px_waitFunc = (\<lambda>_ _ _. (False, None)), px_tracing = defaultTracing, px_otel = demo_otel,
     px_roundTrip = (\<lambda>_. demo_backend)\<rparr>"


end
