(* ===== verification/TLS_Config.thy ===== *)
theory TLS_Config
  imports Prelude
begin

text \<open>
  The TLS configuration of the proxy server, \<open>addCert\<close> and \<open>getTLSConfig\<close> of \<^verbatim>\<open>interceptor/main.go\<close>: which
  certificates are loaded from the configured files and which one is served for a server name. The file
  system and the parsing of keys and certificates are the fields of a record \<open>loader\<close>. The certificate
  map is an association list; \<open>rng\<close> gives the order in which Go ranges over the map of files.
\<close>

section \<open>The data\<close>

record LeafCert =
  DNSNames :: "string list"
  IPAddresses :: "string list"
  URIs :: "string list"

record Certificate =
  CertChain :: "string list"
  Leaf :: "LeafCert option"

text \<open>What \<open>filepath.Walk\<close> calls its function with: an error, a directory or a file.\<close>

datatype walk_entry = WalkErr go_error | WalkDir string | WalkFile string

record loader =
  LoadX509KeyPair :: "string \<Rightarrow> string \<Rightarrow> Certificate result"
  ParseCertificate :: "string \<Rightarrow> LeafCert result"
  ReadFile :: "string \<Rightarrow> string result"
  Walk :: "string \<Rightarrow> walk_entry list"

type_synonym cert_map = "(string, Certificate) gomap"

text \<open>\<open>getCert\<close> holds what the closure \<open>GetCertificate\<close> captures, None before it is assigned.\<close>

record tls_config =
  RootCAs :: "string list"
  InsecureSkipVerify :: bool
  getCert :: "(cert_map \<times> Certificate option) option"
  Certificates :: "Certificate list"

section \<open>The operations\<close>

text \<open>The first half of \<open>addCert\<close>: the key pair with its leaf.\<close>

definition leafCertificate :: "loader \<Rightarrow> string \<Rightarrow> string \<Rightarrow> Certificate result" where
  "leafCertificate F certPath keyPath =
     (case LoadX509KeyPair F certPath keyPath of
        Inl err \<Rightarrow> Inl (WrapErr ''error loading certificate and key: '' err)
      | Inr cert \<Rightarrow>
          (case Leaf cert of
             Some leaf \<Rightarrow> Inr cert
           | None \<Rightarrow>
               (case CertChain cert of
                  [] \<Rightarrow> Inl (ErrMsg ''no certificate found in certificate chain'')
                | c # _ \<Rightarrow>
                    (case ParseCertificate F c of
                       Inl err \<Rightarrow> Inl (WrapErr ''error parsing certificate: '' err)
                     | Inr leaf \<Rightarrow> Inr (cert\<lparr>Leaf := Some leaf\<rparr>)))))"

definition cert_names :: "Certificate \<Rightarrow> string list" where
  "cert_names cert = (case Leaf cert of None \<Rightarrow> [] | Some l \<Rightarrow> DNSNames l @ IPAddresses l @ URIs l)"

definition addCert :: "loader \<Rightarrow> cert_map \<Rightarrow> string \<Rightarrow> string \<Rightarrow> cert_map \<times> Certificate result" where
  "addCert F m certPath keyPath =
     (case leafCertificate F certPath keyPath of
        Inl err \<Rightarrow> (m, Inl err)
      | Inr cert \<Rightarrow> (foldl (\<lambda>m d. AList.update d cert m) m (cert_names cert), Inr cert))"

definition drop_end :: "nat \<Rightarrow> string \<Rightarrow> string" where
  "drop_end n s = take (length s - n) s"

text \<open>The function passed to \<open>filepath.Walk\<close>, which sorts the files of the store into certificates and
  keys by their extension.\<close>

type_synonym store_files = "(string, string) gomap \<times> (string \<rightharpoonup> string)"

definition walkFile :: "string \<Rightarrow> store_files \<Rightarrow> store_files" where
  "walkFile path fs =
     (let (certFiles, keyFiles) = fs
      in if suffix ''-key.pem'' path then (certFiles, keyFiles(drop_end 8 path \<mapsto> path))
         else if suffix ''.pem'' path then (AList.update (drop_end 4 path) path certFiles, keyFiles)
         else if suffix ''.key'' path then (certFiles, keyFiles(drop_end 4 path \<mapsto> path))
         else if suffix ''.crt'' path then (AList.update (drop_end 4 path) path certFiles, keyFiles)
         else fs)"

fun walkEntries :: "walk_entry list \<Rightarrow> store_files \<Rightarrow> store_files \<times> go_error option" where
  "walkEntries [] fs = (fs, None)"
| "walkEntries (WalkErr e # es) fs = (fs, Some e)"
| "walkEntries (WalkDir p # es) fs = walkEntries es fs"
| "walkEntries (WalkFile p # es) fs = walkEntries es (walkFile p fs)"

fun walkDirs :: "loader \<Rightarrow> string list \<Rightarrow> store_files \<Rightarrow> store_files \<times> go_error option" where
  "walkDirs F [] fs = (fs, None)"
| "walkDirs F (dir # dirs) fs =
     (case walkEntries (Walk F dir) fs of
        (fs, Some err) \<Rightarrow> (fs, Some (WrapErr ''error walking certificate store: '' err))
      | (fs, None) \<Rightarrow> walkDirs F dirs fs)"

text \<open>\<open>strings.Split\<close> for a one-byte separator.\<close>

fun split_on :: "char \<Rightarrow> string \<Rightarrow> string list" where
  "split_on c [] = [[]]"
| "split_on c (x # xs) =
     (if x = c then [] # split_on c xs
      else case split_on c xs of [] \<Rightarrow> [[x]] | y # ys \<Rightarrow> (x # y) # ys)"

fun loadStore :: "loader \<Rightarrow> (string \<rightharpoonup> string) \<Rightarrow> (string \<times> string) list \<Rightarrow> cert_map \<Rightarrow> string list \<Rightarrow>
    cert_map \<times> string list \<times> go_error option" where
  "loadStore F keyFiles [] m roots = (m, roots, None)"
| "loadStore F keyFiles ((certID, certPath) # rest) m roots =
     (case keyFiles certID of
        None \<Rightarrow> (m, roots, Some (ErrMsg (''no key found for certificate '' @ certPath)))
      | Some keyPath \<Rightarrow>
          (case addCert F m certPath keyPath of
             (m, Inl err) \<Rightarrow> (m, roots, Some (WrapErr (''error adding certificate '' @ certPath @ '': '') err))
           | (m, Inr _) \<Rightarrow>
               (case ReadFile F certPath of
                  Inl err \<Rightarrow> (m, roots, Some (WrapErr ''error reading certificate: '' err))
                | Inr rawCert \<Rightarrow> loadStore F keyFiles rest m (roots @ [rawCert]))))"

text \<open>The default certificate: the certificate map, the default, the roots and an error.\<close>

definition loadDefault :: "loader \<Rightarrow> string \<Rightarrow> string \<Rightarrow> string list \<Rightarrow>
    cert_map \<times> Certificate option \<times> string list \<times> go_error option" where
  "loadDefault F certPath keyPath roots =
     (if certPath \<noteq> [] \<and> keyPath \<noteq> [] then
        (case addCert F [] certPath keyPath of
           (m, Inl err) \<Rightarrow> (m, None, roots, Some (WrapErr ''error adding certificate and key: '' err))
         | (m, Inr cert) \<Rightarrow>
             (case ReadFile F certPath of
                Inl err \<Rightarrow> (m, Some cert, roots, Some (WrapErr ''error reading certificate: '' err))
              | Inr rawCert \<Rightarrow> (m, Some cert, roots @ [rawCert], None)))
      else ([], None, roots, None))"

definition getTLSConfig :: "loader \<Rightarrow> ((string, string) gomap \<Rightarrow> (string, string) gomap) \<Rightarrow> string list \<Rightarrow>
    string \<Rightarrow> string \<Rightarrow> string \<Rightarrow> bool \<Rightarrow> tls_config \<times> go_error option" where
  "getTLSConfig F rng defaultCertPool certPath keyPath certStorePaths insecureSkipVerify =
     (let servingTLS = (\<lambda>roots. \<lparr>RootCAs = roots, InsecureSkipVerify = insecureSkipVerify, getCert = None, Certificates = []\<rparr>);
          finish = (\<lambda>m d roots. ((servingTLS roots)\<lparr>getCert := Some (m, d), Certificates := map snd m\<rparr>, None))
      in case loadDefault F certPath keyPath defaultCertPool of
           (m, d, roots, Some err) \<Rightarrow> (servingTLS roots, Some err)
         | (m, d, roots, None) \<Rightarrow>
             if certStorePaths \<noteq> [] then
               (case walkDirs F (split_on CHR '','' certStorePaths) ([], Map.empty) of
                  (fs, Some err) \<Rightarrow> (servingTLS roots, Some err)
                | ((certFiles, keyFiles), None) \<Rightarrow>
                    (case loadStore F keyFiles (rng certFiles) m roots of
                       (m, roots, Some err) \<Rightarrow> (servingTLS roots, Some err)
                     | (m, roots, None) \<Rightarrow> finish m d roots))
             else finish m d roots)"

text \<open>The closure \<open>GetCertificate\<close>.\<close>

definition GetCertificate :: "cert_map \<times> Certificate option \<Rightarrow> string \<Rightarrow> Certificate result" where
  "GetCertificate captured serverName =
     (case map_of (fst captured) serverName of
        Some cert \<Rightarrow> Inr cert
      | None \<Rightarrow>
          (case snd captured of
             Some cert \<Rightarrow> Inr cert
           | None \<Rightarrow> Inl (ErrMsg (''no certificate found for '' @ serverName))))"

section \<open>What the certificate map holds\<close>

text \<open>The key pairs that a configuration names.\<close>

definition store_pairs :: "(string \<rightharpoonup> string) \<Rightarrow> (string \<times> string) list \<Rightarrow> (string \<times> string) set" where
  "store_pairs keyFiles files = {(p, k). \<exists>i. (i, p) \<in> set files \<and> keyFiles i = Some k}"

definition default_pairs :: "string \<Rightarrow> string \<Rightarrow> (string \<times> string) set" where
  "default_pairs certPath keyPath = (if certPath \<noteq> [] \<and> keyPath \<noteq> [] then {(certPath, keyPath)} else {})"

definition named_pairs :: "loader \<Rightarrow> string \<Rightarrow> string \<Rightarrow> string \<Rightarrow> (string \<times> string) set" where
  "named_pairs F certPath keyPath certStorePaths = default_pairs certPath keyPath \<union>
     (if certStorePaths = [] then {}
      else case walkDirs F (split_on CHR '','' certStorePaths) ([], Map.empty) of
             ((certFiles, keyFiles), _) \<Rightarrow> store_pairs keyFiles certFiles)"

definition loaded :: "loader \<Rightarrow> (string \<times> string) set \<Rightarrow> Certificate set" where
  "loaded F ps = {c. \<exists>(p, k)\<in>ps. leafCertificate F p k = Inr c}"

text \<open>A map that has exactly the names of a set of certificates, each with one of them that lists it.\<close>

definition covers :: "cert_map \<Rightarrow> Certificate set \<Rightarrow> bool" where
  "covers m S \<longleftrightarrow>
     (\<forall>n c. map_of m n = Some c \<longrightarrow> c \<in> S \<and> n \<in> set (cert_names c)) \<and>
     (\<forall>c n. c \<in> S \<longrightarrow> n \<in> set (cert_names c) \<longrightarrow> map_of m n \<noteq> None)"

lemma loaded_union [simp]: "loaded F (A \<union> B) = loaded F A \<union> loaded F B" "loaded F {} = {}"
  by (auto simp: loaded_def)

lemma loaded_insert: "leafCertificate F p k = Inr c \<Longrightarrow> loaded F (insert (p, k) A) = insert c (loaded F A)"
  by (auto simp: loaded_def)

lemma map_of_foldl_update:
  "map_of (foldl (\<lambda>m d. AList.update d c m) m ns) = (\<lambda>n. if n \<in> set ns then Some c else map_of m n)"
  by (induction ns arbitrary: m) (auto simp: fun_eq_iff)

lemma addCert_covers:
  assumes "covers m S" "addCert F m p k = (m', Inr c)"
  shows "covers m' (S \<union> {c})" "leafCertificate F p k = Inr c"
  using assms by (auto simp: covers_def addCert_def map_of_foldl_update split: sum.splits if_splits)

lemma loadStore_covers:
  assumes "loadStore F keyFiles files m roots = (m', roots', None)" "covers m S"
  shows "covers m' (S \<union> loaded F (store_pairs keyFiles files))"
  using assms
proof (induction F keyFiles files m roots arbitrary: S rule: loadStore.induct)
  case (1 F keyFiles m roots)
  then show ?case by (simp add: store_pairs_def)
next
  case (2 F keyFiles i p rest m roots)
  then obtain k m1 c raw where *: "keyFiles i = Some k" "addCert F m p k = (m1, Inr c)" "ReadFile F p = Inr raw"
    "loadStore F keyFiles rest m1 (roots @ [raw]) = (m', roots', None)"
    by (auto split: option.splits prod.splits sum.splits)
  note c = addCert_covers [OF "2.prems"(2) *(2)]
  have "store_pairs keyFiles ((i, p) # rest) = insert (p, k) (store_pairs keyFiles rest)"
    using *(1) by (auto simp: store_pairs_def)
  then have "loaded F (store_pairs keyFiles ((i, p) # rest)) = {c} \<union> loaded F (store_pairs keyFiles rest)"
    using loaded_insert [OF c(2)] by simp
  moreover have "covers m' (S \<union> {c} \<union> loaded F (store_pairs keyFiles rest))"
    by (rule "2.IH" [OF *(1) *(2) [symmetric] refl *(3,4) c(1)])
  ultimately show ?case by (simp add: Un_assoc)
qed

lemma loadDefault_covers:
  assumes "loadDefault F certPath keyPath roots = (m, d, roots', None)"
  shows "covers m (loaded F (default_pairs certPath keyPath))"
    "d = (if certPath \<noteq> [] \<and> keyPath \<noteq> [] then Some (projr (leafCertificate F certPath keyPath)) else None)"
    "certPath \<noteq> [] \<and> keyPath \<noteq> [] \<Longrightarrow> \<not> isl (leafCertificate F certPath keyPath)"
proof -
  have e: "covers [] {}" by (simp add: covers_def)
  consider "certPath \<noteq> [] \<and> keyPath \<noteq> []" "d \<noteq> None" "addCert F [] certPath keyPath = (m, Inr (the d))"
    | "\<not> (certPath \<noteq> [] \<and> keyPath \<noteq> [])" "m = []" "d = None"
    using assms by (auto simp: loadDefault_def split: if_splits prod.splits sum.splits)
  note cases = this
  show "covers m (loaded F (default_pairs certPath keyPath))"
    using cases addCert_covers [OF e] loaded_insert by cases (auto simp: default_pairs_def e)
  show "d = (if certPath \<noteq> [] \<and> keyPath \<noteq> [] then Some (projr (leafCertificate F certPath keyPath)) else None)"
    using cases addCert_covers(2) [OF e] by cases auto
  show "\<not> isl (leafCertificate F certPath keyPath)" if "certPath \<noteq> [] \<and> keyPath \<noteq> []"
    using cases addCert_covers(2) [OF e] that by cases auto
qed

lemma getTLSConfig_ok:
  assumes "getTLSConfig F rng pool certPath keyPath store skip = (cfg, None)" "\<And>m. set (rng m) = set m"
  shows "\<exists>m. getCert cfg = Some (m, if certPath \<noteq> [] \<and> keyPath \<noteq> [] then Some (projr (leafCertificate F certPath keyPath)) else None) \<and>
    covers m (loaded F (named_pairs F certPath keyPath store)) \<and>
    (certPath \<noteq> [] \<and> keyPath \<noteq> [] \<longrightarrow> \<not> isl (leafCertificate F certPath keyPath))"
proof -
  obtain m d roots where d: "loadDefault F certPath keyPath pool = (m, d, roots, None)"
    using assms(1) by (auto simp: getTLSConfig_def Let_def split: prod.splits option.splits)
  note D = loadDefault_covers [OF d]
  show ?thesis
  proof (cases "store = []")
    case True
    then show ?thesis using assms(1) d D by (auto simp: getTLSConfig_def Let_def named_pairs_def)
  next
    case False
    then obtain cf kf m' roots' where w: "walkDirs F (split_on CHR '','' store) ([], Map.empty) = ((cf, kf), None)"
      and l: "loadStore F kf (rng cf) m roots = (m', roots', None)" and g: "getCert cfg = Some (m', d)"
      using assms(1) d by (auto simp: getTLSConfig_def Let_def split: prod.splits option.splits)
    have "store_pairs kf (rng cf) = store_pairs kf cf" using assms(2) by (simp add: store_pairs_def)
    with loadStore_covers [OF l D(1)] have "covers m' (loaded F (named_pairs F certPath keyPath store))"
      using False w by (simp add: named_pairs_def)
    with g D show ?thesis by blast
  qed
qed

text \<open>A key pair that can be loaded, with a certificate file that can be read.\<close>

definition usable :: "loader \<Rightarrow> string \<Rightarrow> string \<Rightarrow> bool" where
  "usable F p k \<longleftrightarrow> \<not> isl (leafCertificate F p k) \<and> \<not> isl (ReadFile F p)"

lemma loadStore_usable:
  "snd (snd (loadStore F kf files m roots)) = None \<longleftrightarrow> (\<forall>(i, p)\<in>set files. \<exists>k. kf i = Some k \<and> usable F p k)"
proof (induction F kf files m roots rule: loadStore.induct)
  case (2 F kf i p rest m roots)
  show ?case
  proof (cases "\<exists>k c raw. kf i = Some k \<and> leafCertificate F p k = Inr c \<and> ReadFile F p = Inr raw")
    case True
    then obtain k c raw m1 where *: "kf i = Some k" "leafCertificate F p k = Inr c" "ReadFile F p = Inr raw"
      "addCert F m p k = (m1, Inr c)" by (auto simp: addCert_def)
    with "2.IH" [OF *(1) *(4) [symmetric] refl *(3)] show ?thesis by (simp add: usable_def)
  next
    case False
    then show ?thesis
      by (auto simp: addCert_def usable_def isl_def split: option.splits sum.splits)
  qed
qed simp

lemma loadDefault_usable:
  "snd (snd (snd (loadDefault F certPath keyPath roots))) = None \<longleftrightarrow>
     (certPath \<noteq> [] \<and> keyPath \<noteq> [] \<longrightarrow> usable F certPath keyPath)"
  by (auto simp: loadDefault_def addCert_def usable_def isl_def split: sum.splits)

section \<open>Properties\<close>

text \<open>C25: the certificate that is served for a server name is one of the configured certificates that lists
  exactly that name among its subject alternative names; when none does it is the default certificate, and
  without one the handshake fails.\<close>

theorem getTLSConfig_serves:
  assumes "getTLSConfig F rng pool certPath keyPath store skip = (cfg, None)" "\<And>m. set (rng m) = set m"
    "getCert cfg = Some captured"
  shows "case GetCertificate captured serverName of
      Inr c \<Rightarrow> (c \<in> loaded F (named_pairs F certPath keyPath store) \<and> serverName \<in> set (cert_names c)) \<or>
        ((\<forall>c'\<in>loaded F (named_pairs F certPath keyPath store). serverName \<notin> set (cert_names c')) \<and>
         certPath \<noteq> [] \<and> keyPath \<noteq> [] \<and> leafCertificate F certPath keyPath = Inr c)
    | Inl _ \<Rightarrow> (\<forall>c'\<in>loaded F (named_pairs F certPath keyPath store). serverName \<notin> set (cert_names c')) \<and>
        (certPath = [] \<or> keyPath = [])"
proof -
  obtain m where m: "captured = (m, if certPath \<noteq> [] \<and> keyPath \<noteq> [] then Some (projr (leafCertificate F certPath keyPath)) else None)"
    "covers m (loaded F (named_pairs F certPath keyPath store))"
    "certPath \<noteq> [] \<and> keyPath \<noteq> [] \<longrightarrow> \<not> isl (leafCertificate F certPath keyPath)"
    using getTLSConfig_ok [OF assms(1,2)] assms(3) by auto
  show ?thesis
  proof (cases "map_of m serverName")
    case None
    with m(2) have "\<forall>c'\<in>loaded F (named_pairs F certPath keyPath store). serverName \<notin> set (cert_names c')"
      unfolding covers_def by blast
    then show ?thesis using None m(1,3) by (auto simp: GetCertificate_def isl_def split: sum.splits)
  next
    case (Some c)
    with m(2) show ?thesis using m(1) by (auto simp: covers_def GetCertificate_def)
  qed
qed

text \<open>\<open>getTLSConfig\<close> succeeds exactly when the default key pair, if both its paths are set, can be loaded,
  every directory of the store can be walked, and every certificate file found there has a key file of the
  same name with which it can be loaded. The order of the files does not matter.\<close>

theorem getTLSConfig_succeeds:
  assumes "\<And>m. set (rng m) = set m"
  shows "snd (getTLSConfig F rng pool certPath keyPath store skip) = None \<longleftrightarrow>
    (certPath \<noteq> [] \<and> keyPath \<noteq> [] \<longrightarrow> usable F certPath keyPath) \<and>
    (store \<noteq> [] \<longrightarrow>
      (case walkDirs F (split_on CHR '','' store) ([], Map.empty) of
         ((certFiles, keyFiles), err) \<Rightarrow>
           err = None \<and> (\<forall>(i, p)\<in>set certFiles. \<exists>k. keyFiles i = Some k \<and> usable F p k)))"
proof (cases "certPath \<noteq> [] \<and> keyPath \<noteq> [] \<longrightarrow> usable F certPath keyPath")
  case False
  then obtain m d roots err where "loadDefault F certPath keyPath pool = (m, d, roots, Some err)"
    using loadDefault_usable [of F certPath keyPath pool] by (metis not_None_eq prod.collapse)
  with False show ?thesis by (simp add: getTLSConfig_def)
next
  case True
  then obtain m d roots where d: "loadDefault F certPath keyPath pool = (m, d, roots, None)"
    using loadDefault_usable [of F certPath keyPath pool] by (metis prod.collapse)
  obtain cf kf err where w: "walkDirs F (split_on CHR '','' store) ([], Map.empty) = ((cf, kf), err)"
    by (metis prod.collapse)
  have "(\<forall>(i, p)\<in>set cf. \<exists>k. kf i = Some k \<and> usable F p k) \<longleftrightarrow> snd (snd (loadStore F kf (rng cf) m roots)) = None"
    using loadStore_usable [of F kf "rng cf" m roots] assms by simp
  with True d w show ?thesis
    by (auto simp: getTLSConfig_def Let_def split: option.splits prod.splits)
qed

definition demo_loader :: loader where
  "demo_loader = \<lparr>LoadX509KeyPair = \<lambda>p k. Inr \<lparr>CertChain = [p], Leaf = None\<rparr>,
     ParseCertificate = \<lambda>p. Inr \<lparr>DNSNames = [p @ ''.example.com''], IPAddresses = [], URIs = []\<rparr>,
     ReadFile = Inr, Walk = \<lambda>d. [WalkDir d, WalkFile ''a.crt'', WalkFile ''a.key'', WalkFile ''b.pem'', WalkFile ''b-key.pem'']\<rparr>"

lemma demo_walk: "walkDirs demo_loader (split_on CHR '','' ''d'') ([], Map.empty) =
    (([(''a'', ''a.crt''), (''b'', ''b.pem'')], [''a'' \<mapsto> ''a.key'', ''b'' \<mapsto> ''b-key.pem'']), None)"
  by (simp add: demo_loader_def walkFile_def drop_end_def suffix_to_prefix)

theorem getTLSConfig_succeeds_witness:
  "snd (getTLSConfig demo_loader id [] [] [] ''d'' False) = None"
  by (subst getTLSConfig_succeeds) (simp_all only: demo_walk, simp_all add: usable_def leafCertificate_def demo_loader_def)

lemma demo_result: "snd (getTLSConfig demo_loader id [] [] [] ''d'' False) = None"
    "getCert (fst (getTLSConfig demo_loader id [] [] [] ''d'' False)) \<noteq> None"
  by code_simp+

theorem getTLSConfig_serves_witness:
  "\<exists>captured. getCert (fst (getTLSConfig demo_loader id [] [] [] ''d'' False)) = Some captured \<and>
     \<not> isl (GetCertificate captured ''a.crt.example.com'')"
proof -
  obtain captured where c: "getTLSConfig demo_loader id [] [] [] ''d'' False =
      (fst (getTLSConfig demo_loader id [] [] [] ''d'' False), None)"
    "getCert (fst (getTLSConfig demo_loader id [] [] [] ''d'' False)) = Some captured"
    using demo_result by (metis not_None_eq prod.collapse)
  have "\<lparr>CertChain = [''a.crt''], Leaf = Some \<lparr>DNSNames = [''a.crt.example.com''], IPAddresses = [], URIs = []\<rparr>\<rparr>
      \<in> loaded demo_loader (named_pairs demo_loader [] [] ''d'')"
    unfolding loaded_def named_pairs_def demo_walk
    by (simp add: store_pairs_def default_pairs_def leafCertificate_def demo_loader_def)
  with getTLSConfig_serves [OF c(1) _ c(2), of "''a.crt.example.com''"] c(2) show ?thesis
    by (auto simp: cert_names_def isl_def split: sum.splits)
qed

end
