(* ===== verification/Http_Server.thy ===== *)
theory Http_Server
  imports TLS_Config Util
begin

text \<open>
  \<^verbatim>\<open>pkg/http/server.go\<close>: \<open>ServeContext\<close> starts a goroutine that shuts the server down when the context is done, and
  listens and serves itself. The relation \<open>serve_step\<close> interleaves the two with the requests that arrive; of \<open>http.Server\<close>
  it has what \<open>ListenAndServe\<close>, \<open>ListenAndServeTLS\<close> and \<open>Shutdown\<close> do: \<open>Shutdown\<close> first marks the server, which makes
  the other two return \<open>ErrServerClosed\<close> at once, and then waits until no request is in flight.
\<close>

section \<open>The server\<close>

text \<open>Why \<open>ListenAndServe\<close> or \<open>ListenAndServeTLS\<close> with empty file names fails before it accepts connections: the error
  of \<open>net.Listen\<close>, or, with a configuration that has no certificate of its own, the error of loading the files.\<close>

definition listen_error :: "loader \<Rightarrow> go_error option \<Rightarrow> tls_config option \<Rightarrow> go_error option" where
  "listen_error F listenErr tlsConfig =
     (case listenErr of
        Some e \<Rightarrow> Some e
      | None \<Rightarrow>
          (case tlsConfig of
             None \<Rightarrow> None
           | Some c \<Rightarrow>
               if Certificates c \<noteq> [] \<or> getCert c \<noteq> None then None
               else (case LoadX509KeyPair F [] [] of Inl e \<Rightarrow> Some e | Inr _ \<Rightarrow> None)))"

datatype serve_call = SListen | SAccept | SReturned go_error

datatype serve_closer = CAwait | CShutdown | CClosed

record http_server =
  ctxDone :: bool
  inShutdown :: bool
  inFlight :: nat
  serving_call :: serve_call
  closer :: serve_closer

definition newServer :: http_server where
  "newServer = \<lparr>ctxDone = False, inShutdown = False, inFlight = 0, serving_call = SListen, closer = CAwait\<rparr>"

inductive serve_step :: "loader \<Rightarrow> go_error option \<Rightarrow> tls_config option \<Rightarrow> http_server \<Rightarrow> http_server \<Rightarrow> bool"
  for F listenErr tlsConfig where
  ctx_done: "\<not> ctxDone s \<Longrightarrow> serve_step F listenErr tlsConfig s (s\<lparr>ctxDone := True\<rparr>)"
| shutdown: "closer s = CAwait \<Longrightarrow> ctxDone s \<Longrightarrow>
    serve_step F listenErr tlsConfig s (s\<lparr>inShutdown := True, closer := CShutdown\<rparr>)"
| shut_down: "closer s = CShutdown \<Longrightarrow> inFlight s = 0 \<Longrightarrow> serve_step F listenErr tlsConfig s (s\<lparr>closer := CClosed\<rparr>)"
| closed: "serving_call s \<in> {SListen, SAccept} \<Longrightarrow> inShutdown s \<Longrightarrow>
    serve_step F listenErr tlsConfig s (s\<lparr>serving_call := SReturned ErrServerClosed\<rparr>)"
| listen_fails: "serving_call s = SListen \<Longrightarrow> \<not> inShutdown s \<Longrightarrow> listen_error F listenErr tlsConfig = Some e \<Longrightarrow>
    serve_step F listenErr tlsConfig s (s\<lparr>serving_call := SReturned e\<rparr>)"
| listen: "serving_call s = SListen \<Longrightarrow> \<not> inShutdown s \<Longrightarrow> listen_error F listenErr tlsConfig = None \<Longrightarrow>
    serve_step F listenErr tlsConfig s (s\<lparr>serving_call := SAccept\<rparr>)"
| accept: "serving_call s = SAccept \<Longrightarrow> \<not> inShutdown s \<Longrightarrow> serve_step F listenErr tlsConfig s (s\<lparr>inFlight := inFlight s + 1\<rparr>)"
| accept_fails: "serving_call s = SAccept \<Longrightarrow> \<not> inShutdown s \<Longrightarrow> serve_step F listenErr tlsConfig s (s\<lparr>serving_call := SReturned e\<rparr>)"
| answered: "0 < inFlight s \<Longrightarrow> serve_step F listenErr tlsConfig s (s\<lparr>inFlight := inFlight s - 1\<rparr>)"

definition ServeContext :: "loader \<Rightarrow> go_error option \<Rightarrow> tls_config option \<Rightarrow> http_server \<Rightarrow> bool" where
  "ServeContext F listenErr tlsConfig s \<longleftrightarrow> (serve_step F listenErr tlsConfig)\<^sup>*\<^sup>* newServer s"

lemma ServeContext_steps:
  "ServeContext F listenErr tlsConfig newServer"
  "ServeContext F listenErr tlsConfig s \<Longrightarrow> serve_step F listenErr tlsConfig s s' \<Longrightarrow> ServeContext F listenErr tlsConfig s'"
  by (auto simp: ServeContext_def)

section \<open>What it guarantees\<close>

text \<open>A configuration of \<open>getTLSConfig\<close> always has the certificates: no file with an empty name is loaded.\<close>

lemma getTLSConfig_no_load:
  assumes "getTLSConfig F rng pool certPath keyPath stores skip = (c, None)"
  shows "listen_error F listenErr (Some c) = listenErr"
  using assms by (auto simp: getTLSConfig_def listen_error_def Let_def split: prod.splits option.splits if_splits)

definition serve_inv :: "http_server \<Rightarrow> bool" where
  "serve_inv s \<longleftrightarrow> (inShutdown s \<longleftrightarrow> closer s \<noteq> CAwait) \<and> (inShutdown s \<longrightarrow> ctxDone s) \<and>
     (serving_call s = SListen \<longrightarrow> inFlight s = 0) \<and> (closer s = CClosed \<longrightarrow> inFlight s = 0)"

lemma serve_inv_step: "serve_step F listenErr tlsConfig s s' \<Longrightarrow> serve_inv s \<Longrightarrow> serve_inv s'"
  by (induction rule: serve_step.induct) (auto simp: serve_inv_def)

lemma serve_inv_reached: "ServeContext F listenErr tlsConfig s \<Longrightarrow> serve_inv s"
  unfolding ServeContext_def
proof (induction rule: rtranclp_induct)
  case base
  then show ?case by (simp add: serve_inv_def newServer_def)
next
  case (step y z)
  then show ?case using serve_inv_step by blast
qed

text \<open>The server accepts any number of requests before the context is done.\<close>

lemma ServeContext_busy:
  assumes "listen_error F listenErr tlsConfig = None"
  shows "ServeContext F listenErr tlsConfig (newServer\<lparr>serving_call := SAccept, inFlight := n\<rparr>)"
proof (induction n)
  case 0
  have "serve_step F listenErr tlsConfig newServer (newServer\<lparr>serving_call := SAccept\<rparr>)"
    using assms by (intro serve_step.listen) (simp_all add: newServer_def)
  then show ?case using ServeContext_steps by (fastforce simp: newServer_def)
next
  case (Suc n)
  let ?s = "newServer\<lparr>serving_call := SAccept, inFlight := n\<rparr>"
  have "serve_step F listenErr tlsConfig ?s (?s\<lparr>inFlight := inFlight ?s + 1\<rparr>)"
    by (rule serve_step.accept) (simp_all add: newServer_def)
  with Suc show ?case using ServeContext_steps(2) by fastforce
qed

section \<open>Properties\<close>

text \<open>C34: the server does not stop gracefully. For every number of requests there is a run in which the context ends while
  they are being served and \<open>ServeContext\<close> returns \<open>ErrServerClosed\<close> at once, with all of them unanswered and
  the shutdown still waiting for them; what follows the call, the end of the process, does not wait. Only a shutdown that
  has finished leaves no request.\<close>

theorem ServeContext_leaves_requests:
  assumes "listen_error F listenErr tlsConfig = None"
  shows "(\<exists>s. ServeContext F listenErr tlsConfig s \<and> serving_call s = SReturned ErrServerClosed \<and>
      inFlight s = n \<and> closer s = CShutdown) \<and>
    (\<forall>s. ServeContext F listenErr tlsConfig s \<and> closer s = CClosed \<longrightarrow> inFlight s = 0)"
proof -
  let ?a = "newServer\<lparr>serving_call := SAccept, inFlight := n\<rparr>"
  let ?b = "?a\<lparr>ctxDone := True\<rparr>"
  let ?c = "?b\<lparr>inShutdown := True, closer := CShutdown\<rparr>"
  let ?d = "?c\<lparr>serving_call := SReturned ErrServerClosed\<rparr>"
  have "serve_step F listenErr tlsConfig ?a ?b" by (rule serve_step.ctx_done) (simp add: newServer_def)
  moreover have "serve_step F listenErr tlsConfig ?b ?c" by (rule serve_step.shutdown) (simp_all add: newServer_def)
  moreover have "serve_step F listenErr tlsConfig ?c ?d" by (rule serve_step.closed) (simp_all add: newServer_def)
  ultimately have "ServeContext F listenErr tlsConfig ?d"
    using ServeContext_busy [OF assms] ServeContext_steps(2) by blast
  moreover have "inFlight s = 0" if "ServeContext F listenErr tlsConfig s" "closer s = CClosed" for s
    using serve_inv_reached [OF that(1)] that(2) by (simp add: serve_inv_def)
  ultimately show ?thesis by (intro conjI exI [of _ ?d]) simp_all
qed

definition demo_loader :: loader where
  "demo_loader = \<lparr>LoadX509KeyPair = (\<lambda>c k. Inl (ErrMsg c)), ParseCertificate = (\<lambda>c. Inl (ErrMsg c)),
     ReadFile = (\<lambda>p. Inl (ErrMsg p)), Walk = (\<lambda>d. [])\<rparr>"

theorem ServeContext_leaves_requests_witness:
  "\<exists>s. ServeContext demo_loader None None s \<and> serving_call s = SReturned ErrServerClosed \<and> inFlight s = 7 \<and> closer s = CShutdown"
  using ServeContext_leaves_requests [of demo_loader None None 7] by (simp add: listen_error_def)

end
