(* ===== verification/Queue_RPC.thy ===== *)
theory Queue_RPC
  imports Interceptor "HOL-Library.Char_ord" "HOL-Library.List_Lexorder"
begin

text \<open>
  \<^verbatim>\<open>pkg/queue/queue_rpc.go\<close> and the JSON methods of \<^verbatim>\<open>pkg/queue/queue_counts.go\<close>: the admin server of the
  interceptor and the client of it in the scaler. JSON is modelled as values: \<open>encoding/json\<close> turns \<open>Counts\<close>
  into an object with sorted keys and back. The text of a value is the argument \<open>encode\<close> and \<open>decode\<close> of the
  definitions, the number that \<open>strconv\<close> prints for a float the argument \<open>literal\<close>, the HTTP client the
  argument \<open>httpGet\<close>.
\<close>

section \<open>JSON\<close>

datatype json =
    JNull
  | JBool bool
  | JNum rat
  | JStr string
  | JArr "json list"
  | JObj "(string \<times> json) list"

definition count_json :: "(f64 \<Rightarrow> rat) \<Rightarrow> Count \<Rightarrow> json" where
  "count_json literal c = JObj [(''Concurrency'', JNum (of_int (sint (Concurrency c)))), (''RPS'', JNum (literal (RPS c)))]"

definition MarshalJSON :: "(f64 \<Rightarrow> rat) \<Rightarrow> Counts \<Rightarrow> json" where
  "MarshalJSON literal q = JObj (map (apsnd (count_json literal)) (sort_key fst q))"

definition errUnmarshal :: go_error where
  "errUnmarshal = ErrMsg ''json: cannot unmarshal value into Go value''"

text \<open>A number for an \<open>int\<close> must be whole and in range, a number for a \<open>float64\<close> is rounded; null leaves a
  field as it is. A field name matches without regard to case, and other fields are skipped.\<close>

definition decode_int :: "json \<Rightarrow> go_int \<Rightarrow> go_int result" where
  "decode_int j old =
     (case j of
        JNull \<Rightarrow> Inr old
      | JNum r \<Rightarrow>
          if of_int \<lfloor>r\<rfloor> = r \<and> - (2 ^ 63) \<le> \<lfloor>r\<rfloor> \<and> \<lfloor>r\<rfloor> < 2 ^ 63 then Inr (word_of_int \<lfloor>r\<rfloor>) else Inl errUnmarshal
      | _ \<Rightarrow> Inl errUnmarshal)"

definition decode_float :: "json \<Rightarrow> f64 \<Rightarrow> f64 result" where
  "decode_float j old = (case j of JNull \<Rightarrow> Inr old | JNum r \<Rightarrow> Inr (f64_round r) | _ \<Rightarrow> Inl errUnmarshal)"

fun decode_fields :: "(string \<times> json) list \<Rightarrow> Count \<Rightarrow> Count result" where
  "decode_fields [] c = Inr c"
| "decode_fields ((k, v) # fs) c =
     (if to_lower k = ''concurrency'' then
        (case decode_int v (Concurrency c) of Inl e \<Rightarrow> Inl e | Inr n \<Rightarrow> decode_fields fs (c\<lparr>Concurrency := n\<rparr>))
      else if to_lower k = ''rps'' then
        (case decode_float v (RPS c) of Inl e \<Rightarrow> Inl e | Inr x \<Rightarrow> decode_fields fs (c\<lparr>RPS := x\<rparr>))
      else decode_fields fs c)"

definition decode_count :: "json \<Rightarrow> Count result" where
  "decode_count j =
     (case j of
        JNull \<Rightarrow> Inr \<lparr>Concurrency = 0, RPS = 0\<rparr>
      | JObj fs \<Rightarrow> decode_fields fs \<lparr>Concurrency = 0, RPS = 0\<rparr>
      | _ \<Rightarrow> Inl errUnmarshal)"

fun decode_entries :: "(string \<times> json) list \<Rightarrow> Counts \<Rightarrow> Counts result" where
  "decode_entries [] q = Inr q"
| "decode_entries ((k, v) # es) q =
     (case decode_count v of Inl e \<Rightarrow> Inl e | Inr c \<Rightarrow> decode_entries es (AList.update k c q))"

definition UnmarshalJSON :: "json \<Rightarrow> Counts \<Rightarrow> Counts result" where
  "UnmarshalJSON j q = (case j of JNull \<Rightarrow> Inr [] | JObj es \<Rightarrow> decode_entries es q | _ \<Rightarrow> Inl errUnmarshal)"

section \<open>The admin server and its client\<close>

definition countsPath :: string where
  "countsPath = ''/queue''"

text \<open>The handler of the counts; \<open>cur\<close> is what \<open>q.Current()\<close> does. \<open>Encoder.Encode\<close> ends the text with a newline.\<close>

definition newSizeHandler :: "(f64 \<Rightarrow> rat) \<Rightarrow> (json \<Rightarrow> string) \<Rightarrow> fault + Counts result \<Rightarrow> ResponseWriter \<Rightarrow> fault + ResponseWriter" where
  "newSizeHandler literal encode cur w =
     (case cur of
        Inl f \<Rightarrow> Inl f
      | Inr (Inl err) \<Rightarrow> Inr (Write (WriteHeader w 500) ''error getting queue size'')
      | Inr (Inr counts) \<Rightarrow> Inr (Write w (encode (MarshalJSON literal counts) @ [CHR 0x0A])))"

text \<open>\<open>AddCountsRoute\<close> on a fresh \<open>ServeMux\<close>, whose other paths are not found.\<close>

definition AddCountsRoute :: "(f64 \<Rightarrow> rat) \<Rightarrow> (json \<Rightarrow> string) \<Rightarrow> fault + Counts result \<Rightarrow> URL \<Rightarrow> ResponseWriter \<Rightarrow> fault + ResponseWriter" where
  "AddCountsRoute literal encode cur url w =
     (if Path url = countsPath then newSizeHandler literal encode cur w
      else Inr (Write (WriteHeader w 404) (''404 page not found'' @ [CHR 0x0A])))"

text \<open>The client. It does not look at the status of the answer.\<close>

definition GetCounts :: "(URL \<Rightarrow> string) \<Rightarrow> (string \<Rightarrow> json result) \<Rightarrow> (URL \<Rightarrow> (int \<times> string) result) \<Rightarrow> URL \<Rightarrow> Counts result" where
  "GetCounts urlString decode httpGet interceptorURL =
     (let interceptorURL = interceptorURL\<lparr>Path := countsPath\<rparr>
      in case httpGet interceptorURL of
           Inl err \<Rightarrow> Inl (WrapErr (''requesting the queue counts from '' @ urlString interceptorURL @ '': '') err)
         | Inr (status, body) \<Rightarrow>
             (case (case decode body of Inl err \<Rightarrow> Inl err | Inr j \<Rightarrow> UnmarshalJSON j NewCounts) of
                Inl err \<Rightarrow> Inl (WrapErr (''decoding response from the interceptor at '' @ urlString interceptorURL @ '': '') err)
              | Inr counts \<Rightarrow> Inr counts))"

section \<open>The round trip\<close>

lemma decode_int_whole: "- (2 ^ 63) \<le> n \<Longrightarrow> n < 2 ^ 63 \<Longrightarrow> decode_int (JNum (of_int n)) old = Inr (word_of_int n)"
  by (simp add: decode_int_def)

text \<open>A count as it arrives: the rate is what the literal for it reads as.\<close>

abbreviation reread :: "(f64 \<Rightarrow> rat) \<Rightarrow> Count \<Rightarrow> Count" where
  "reread literal c \<equiv> c\<lparr>RPS := f64_round (literal (RPS c))\<rparr>"

lemma decode_count_json: "decode_count (count_json literal c) = Inr (reread literal c)"
proof -
  define n where "n = sint (Concurrency c)"
  have b: "- (2 ^ 63) \<le> n" "n < 2 ^ 63"
    using sint_ge [of "Concurrency c"] sint_lt [of "Concurrency c"] by (simp_all add: n_def)
  have n: "word_of_int n = Concurrency c" by (simp add: n_def)
  have l: "to_lower ''Concurrency'' = ''concurrency''" "to_lower ''RPS'' = ''rps''" by code_simp+
  show ?thesis
    unfolding count_json_def n_def [symmetric] by (simp add: decode_count_def decode_int_whole [OF b] decode_float_def l n)
qed

lemma decode_entries_map:
  assumes "distinct (map fst es)"
  shows "\<exists>q'. decode_entries (map (apsnd (count_json literal)) es) q = Inr q' \<and>
    map_of q' = map_of q ++ (map_option (reread literal) \<circ> map_of es) \<and> (distinct (map fst q) \<longrightarrow> distinct (map fst q'))"
  using assms
proof (induction es arbitrary: q)
  case (Cons e es)
  obtain k c where e: "e = (k, c)" by force
  let ?q = "AList.update k (reread literal c) q"
  have "distinct (map fst es)" using Cons.prems by simp
  then obtain q' where q': "decode_entries (map (apsnd (count_json literal)) es) ?q = Inr q'"
    "map_of q' = map_of ?q ++ (map_option (reread literal) \<circ> map_of es)" "distinct (map fst ?q) \<longrightarrow> distinct (map fst q')"
    using Cons.IH [of ?q] by blast
  have "map_of es k = None" using Cons.prems e by (simp add: map_of_eq_None_iff)
  then have "map_of q' = map_of q ++ (map_option (reread literal) \<circ> map_of (e # es))"
    unfolding q'(2) map_of_update_key e by (auto simp: fun_eq_iff map_add_def split: option.split)
  moreover have "decode_entries (map (apsnd (count_json literal)) (e # es)) q = Inr q'"
    using q'(1) e by (simp add: decode_count_json)
  ultimately show ?case using q'(3) distinct_keys_update [of q k "reread literal c"] by blast
qed (simp add: comp_def)

lemma map_of_sort_key: "distinct (map fst q) \<Longrightarrow> map_of (sort_key fst q) = map_of q"
  by (rule map_of_eqI)
    (auto simp: dom_map_of_conv_image_fst distinct_map inj_on_def intro!: map_of_is_SomeI)

text \<open>The answer to \<open>GetCounts\<close> for the counts \<open>q\<close>.\<close>

lemma GetCounts_ok:
  assumes "AddCountsRoute literal encode (Inr (Inr q)) (url\<lparr>Path := countsPath\<rparr>) newResponse = Inr w"
    "httpGet (url\<lparr>Path := countsPath\<rparr>) = Inr (the (RespStatus w), RespBody w)"
    "decode (encode (MarshalJSON literal q) @ [CHR 0x0A]) = Inr (MarshalJSON literal q)" "distinct (map fst q)"
  shows "\<exists>q'. GetCounts urlString decode httpGet url = Inr q' \<and> map_of q' = map_option (reread literal) \<circ> map_of q \<and>
    distinct (map fst q') \<and> RespStatus w = Some 200"
proof -
  have w: "w = Write newResponse (encode (MarshalJSON literal q) @ [CHR 0x0A])"
    using assms(1) by (simp add: AddCountsRoute_def newSizeHandler_def)
  have "distinct (map fst (sort_key fst q))" using assms(4) by (simp add: distinct_map)
  then obtain q' where "decode_entries (map (apsnd (count_json literal)) (sort_key fst q)) NewCounts = Inr q'"
    "map_of q' = map_option (reread literal) \<circ> map_of q" "distinct (map fst q')"
    using decode_entries_map [of "sort_key fst q" literal NewCounts] map_of_sort_key [OF assms(4)] by (auto simp: NewCounts_def)
  then show ?thesis
    using w assms(2,3) by (simp add: GetCounts_def Write_def WriteHeader_def newResponse_def MarshalJSON_def UnmarshalJSON_def)
qed

text \<open>C14: what the scaler reads from an interceptor is what its counter returned. When the admin server of an
  interceptor answers the request of \<open>GetCounts\<close> with the result of \<open>Current\<close>, the decoded counts are the
  counts; an error of \<open>Current\<close> arrives as an error.\<close>

theorem GetCounts_reads_Current:
  assumes "AddCountsRoute literal encode cur (url\<lparr>Path := countsPath\<rparr>) newResponse = Inr w"
    "httpGet (url\<lparr>Path := countsPath\<rparr>) = Inr (the (RespStatus w), RespBody w)"
    "\<And>q. cur = Inr (Inr q) \<Longrightarrow> decode (encode (MarshalJSON literal q) @ [CHR 0x0A]) = Inr (MarshalJSON literal q)"
    "isl (decode ''error getting queue size'')"
    "\<And>q. cur = Inr (Inr q) \<Longrightarrow> distinct (map fst q) \<and> (\<forall>c\<in>snd ` set q. f64_round (literal (RPS c)) = RPS c)"
  shows "case cur of
      Inl f \<Rightarrow> False
    | Inr (Inl err) \<Rightarrow> isl (GetCounts urlString decode httpGet url) \<and> RespStatus w = Some 500
    | Inr (Inr q) \<Rightarrow> \<exists>q'. GetCounts urlString decode httpGet url = Inr q' \<and> map_of q' = map_of q \<and> RespStatus w = Some 200"
proof (cases cur)
  case (Inl f)
  with assms(1) show ?thesis by (simp add: AddCountsRoute_def newSizeHandler_def)
next
  case (Inr r)
  show ?thesis
  proof (cases r)
    case (Inl err)
    with Inr assms(1) have w: "w = Write (WriteHeader newResponse 500) ''error getting queue size''"
      by (simp add: AddCountsRoute_def newSizeHandler_def)
    then show ?thesis
      using Inr Inl assms(2,4)
      by (auto simp: GetCounts_def Let_def Write_def WriteHeader_def newResponse_def isl_def split: sum.splits)
  next
    case R: (Inr q)
    have q: "distinct (map fst q)" "\<And>c. c \<in> snd ` set q \<Longrightarrow> f64_round (literal (RPS c)) = RPS c" using assms(5) Inr R by auto
    have "map_option (reread literal) \<circ> map_of q = map_of q"
    proof
      fix k
      have "map_option (reread literal) (map_of q k) = map_of q k"
        using q(2) by (cases "map_of q k") (force dest: map_of_Some_mem)+
      then show "(map_option (reread literal) \<circ> map_of q) k = map_of q k" by simp
    qed
    with GetCounts_ok [of literal encode q url w httpGet decode urlString] q(1) assms(1,2) assms(3) [of q] Inr R
    show ?thesis by auto
  qed
qed

definition demo_counts :: Counts where
  "demo_counts = [(''ns/b'', \<lparr>Concurrency = 3, RPS = 0\<rparr>), (''ns/a'', \<lparr>Concurrency = 1, RPS = 1 / 2\<rparr>)]"

text \<open>A text for the one value of the witness.\<close>

definition demo_decode :: "string \<Rightarrow> json result" where
  "demo_decode s = (if s = [CHR ''J'', CHR 0x0A] then Inr (MarshalJSON id demo_counts) else Inl errUnmarshal)"

theorem GetCounts_reads_Current_witness:
  "\<exists>q'. GetCounts (\<lambda>_. []) demo_decode (\<lambda>_. Inr (200, [CHR ''J'', CHR 0x0A]))
      \<lparr>Scheme = ''http'', URLHost = ''10.0.0.1:9090'', Path = [], RawPath = [], RawQuery = []\<rparr> = Inr q' \<and>
    map_of q' ''ns/b'' = Some \<lparr>Concurrency = 3, RPS = 0\<rparr>"
proof -
  let ?u = "\<lparr>Scheme = ''http'', URLHost = ''10.0.0.1:9090'', Path = [], RawPath = [], RawQuery = []\<rparr>"
  let ?w = "Write newResponse [CHR ''J'', CHR 0x0A]"
  have f: "f64_round (1 / 2) = 1 / 2" by code_simp
  have a: "AddCountsRoute id (\<lambda>_. ''J'') (Inr (Inr demo_counts)) (?u\<lparr>Path := countsPath\<rparr>) newResponse = Inr ?w"
    by (simp add: AddCountsRoute_def newSizeHandler_def)
  have "(200, [CHR ''J'', CHR 0x0A]) = (the (RespStatus ?w), RespBody ?w)"
    by (simp add: Write_def WriteHeader_def newResponse_def)
  moreover have "demo_decode (''J'' @ [CHR 0x0A]) = Inr (MarshalJSON id demo_counts)" "isl (demo_decode ''error getting queue size'')"
    by (simp_all add: demo_decode_def)
  moreover have "distinct (map fst demo_counts)" "\<forall>c\<in>snd ` set demo_counts. f64_round (id (RPS c)) = RPS c"
    by (simp_all add: demo_counts_def f)
  ultimately obtain q' where "GetCounts (\<lambda>_. []) demo_decode (\<lambda>_. Inr (200, [CHR ''J'', CHR 0x0A])) ?u = Inr q'" "map_of q' = map_of demo_counts"
    using GetCounts_reads_Current [OF a, of "\<lambda>_. Inr (200, [CHR ''J'', CHR 0x0A])" demo_decode "\<lambda>_. []"] by auto
  then show ?thesis by (simp add: demo_counts_def)
qed

end
