(* ===== verification/Servers.thy ===== *)
theory Servers
  imports Metrics_Export Http_Server Queue_RPC
begin

text \<open>
  The servers of the interceptor in \<^verbatim>\<open>interceptor/main.go\<close>: the admin server, the metrics server and the proxy server with its TLS
  configurations, its dialer and the goroutine of its probe, \<open>Start\<close> of \<^verbatim>\<open>interceptor/handler/probe.go\<close>. A server is what
  \<open>ServeContext\<close> makes of its arguments; the behaviour of \<open>ServeContext\<close> itself is in \<open>Http_Server\<close>. The relation \<open>probe_step\<close> adds the
  checks of the probe to the steps of the interceptor.
\<close>

section \<open>The servers\<close>

record 'h Server =
  SrvHandler :: 'h
  SrvAddr :: string
  SrvTLSConfig :: "tls_config option"

definition listen_addr :: "go_int \<Rightarrow> string" where
  "listen_addr port = ''0.0.0.0:'' @ itoa (sint port)"

text \<open>The handler of the counts gets the current counts and the URL of a request; that of the metrics belongs to the Prometheus
  library.\<close>

definition runAdminServer :: "(f64 \<Rightarrow> rat) \<Rightarrow> (json \<Rightarrow> string) \<Rightarrow> go_int \<Rightarrow>
    (fault + Counts result \<Rightarrow> URL \<Rightarrow> ResponseWriter \<Rightarrow> fault + ResponseWriter) Server" where
  "runAdminServer literal encode port =
     \<lparr>SrvHandler = AddCountsRoute literal encode, SrvAddr = listen_addr port, SrvTLSConfig = None\<rparr>"

definition runMetricsServer :: "'h \<Rightarrow> MetricsConfig \<Rightarrow> 'h Server" where
  "runMetricsServer promHandler metricsCfg =
     \<lparr>SrvHandler = promHandler, SrvAddr = listen_addr (OtelPrometheusExporterPort metricsCfg), SrvTLSConfig = None\<rparr>"

record Dialer =
  DialTimeout :: duration
  DialKeepAlive :: duration

definition NewNetDialer :: "duration \<Rightarrow> duration \<Rightarrow> Dialer" where
  "NewNetDialer connectTimeout keepAlive = \<lparr>DialTimeout = connectTimeout, DialKeepAlive = keepAlive\<rparr>"

definition defaultCertPool :: "string list result \<Rightarrow> string list" where
  "defaultCertPool systemCertPool = (case systemCertPool of Inr systemCAs \<Rightarrow> systemCAs | Inl err \<Rightarrow> [])"

text \<open>The TLS configuration of the connections to the backends. Without a pool of its own, a client trusts the pool of
  the system.\<close>

record forwarding_tls =
  fwdRootCAs :: "string list option"
  fwdCertificates :: "Certificate list"
  fwdInsecureSkipVerify :: bool

definition forwardingTLSCfg :: "tls_config option \<Rightarrow> forwarding_tls" where
  "forwardingTLSCfg tlsCfg =
     (case tlsCfg of
        None \<Rightarrow> \<lparr>fwdRootCAs = None, fwdCertificates = [], fwdInsecureSkipVerify = False\<rparr>
      | Some c \<Rightarrow> \<lparr>fwdRootCAs = Some (RootCAs c), fwdCertificates = Certificates c, fwdInsecureSkipVerify = InsecureSkipVerify c\<rparr>)"

text \<open>What \<open>runProxyServer\<close> sets up: the server, and the TLS configuration, the dialer and the backoff of the connections to the
  backends. The left result is the exit status when the TLS configuration fails.\<close>

record 't proxy_server =
  ps_server :: "(metric_call list \<Rightarrow> string \<Rightarrow> ResponseWriter \<Rightarrow> Request \<Rightarrow> (ResponseWriter \<times> fault option) \<times> metric_call list \<times> string list) Server"
  ps_forwardingTLS :: forwarding_tls
  ps_dialer :: Dialer
  ps_backoff :: Backoff

definition startProxyServer :: "loader \<Rightarrow> ((string, string) gomap \<Rightarrow> (string, string) gomap) \<Rightarrow> string list result \<Rightarrow> 't proxy \<Rightarrow> go_int \<Rightarrow>
    nat + 't proxy_server" where
  "startProxyServer F rng systemCertPool p port =
     (let serving = px_serving p;
          start = (\<lambda>tlsCfg. Inr \<lparr>
            ps_server = \<lparr>SrvHandler = runProxyServer p, SrvAddr = listen_addr port, SrvTLSConfig = tlsCfg\<rparr>,
            ps_forwardingTLS = forwardingTLSCfg tlsCfg,
            ps_dialer = NewNetDialer (Connect (px_timeouts p)) (KeepAlive (px_timeouts p)),
            ps_backoff = DefaultBackoff (px_timeouts p)\<rparr>)
      in if px_tlsEnabled p then
           (case getTLSConfig F rng (defaultCertPool systemCertPool) (TLSCertPath serving) (TLSKeyPath serving) (TLSCertStorePaths serving)
                   (TLSSkipVerify serving) of
              (_, Some err) \<Rightarrow> Inl 1
            | (cfg, None) \<Rightarrow> start (Some cfg))
         else start None)"

section \<open>The probe\<close>

record 't probed =
  pr_sys :: "'t interceptor"
  pr_probe :: Probe
  pr_running :: bool

inductive probe_step :: "(informer_event \<Rightarrow> bool) \<Rightarrow> (NamespacedName \<Rightarrow> string) \<Rightarrow> ('t, HTTPScaledObject) radix_ops \<Rightarrow> nat \<Rightarrow>
    't probed \<Rightarrow> 't probed \<Rightarrow> bool" for E str T n where
  probe_system: "sys_step E str T n (pr_sys s) s' \<Longrightarrow> probe_step E str T n s (s\<lparr>pr_sys := s'\<rparr>)"
| probe_tick: "crashed (pr_sys s) = None \<Longrightarrow> pr_running s \<Longrightarrow>
    probe_step E str T n s (s\<lparr>pr_probe := Probe_check [\<lambda>_. HealthCheck (tab (tabs (pr_sys s)))] (pr_probe s)\<rparr>)"
| probe_ends: "crashed (pr_sys s) = None \<Longrightarrow> pr_running s \<Longrightarrow> probe_step E str T n s (s\<lparr>pr_running := False\<rparr>)"

definition probe_init :: "'t probed" where
  "probe_init = \<lparr>pr_sys = sys_init, pr_probe = NewProbe, pr_running = True\<rparr>"

section \<open>Lemmas\<close>

lemma handlers_keep_memory:
  "handler_count str ev t = (t', r) \<Longrightarrow> memoryHolder t' = memoryHolder t"
  "memoryHolder (handler_store str ev t) = memoryHolder t"
  "memoryHolder (handler_signal t) = memoryHolder t"
  by (auto simp: handler_defs Let_def split: informer_event.splits prod.splits if_splits)

lemma table_stays_synced: "table_step E str T s s' \<Longrightarrow> HasSynced (tab s) \<Longrightarrow> HasSynced (tab s')"
  by (induction rule: table_step.induct)
    (auto simp: HasSynced_def handlers_keep_memory AtomicValue_Get_def AtomicValue_Set_def)

lemma sys_stays_synced: "sys_step E str T n s s' \<Longrightarrow> HasSynced (tab (tabs s)) \<Longrightarrow> HasSynced (tab (tabs s'))"
  by (induction rule: sys_step.induct) (auto simp: set_qc_def HasSynced_def handlers_keep_memory dest: table_stays_synced [unfolded HasSynced_def])

text \<open>A probe that reports health has seen a synced table, which stays synced.\<close>

definition sound_probe :: "'t probed \<Rightarrow> bool" where
  "sound_probe s \<longleftrightarrow> (healthyFlag (pr_probe s) \<longrightarrow> HasSynced (tab (tabs (pr_sys s))))"

lemma probe_step_sound:
  assumes "probe_step E str T n s s'" "sound_probe s"
  shows "sound_probe s' \<and> (healthyFlag (pr_probe s) \<longrightarrow> healthyFlag (pr_probe s'))"
  using assms by (induction rule: probe_step.induct) (auto simp: sound_probe_def HealthCheck_def dest: sys_stays_synced)

lemma probe_steps_sound:
  assumes "(probe_step E str T n)\<^sup>*\<^sup>* s s'" "sound_probe s"
  shows "sound_probe s' \<and> (healthyFlag (pr_probe s) \<longrightarrow> healthyFlag (pr_probe s'))"
  using assms by (induction rule: rtranclp_induct) (auto dest: probe_step_sound)

text \<open>The roots of a configuration extend the pool.\<close>

lemma loadStore_roots: "loadStore F keyFiles files m roots = (m', roots', err) \<Longrightarrow> set roots \<subseteq> set roots'"
  by (induction F keyFiles files m roots arbitrary: m' roots' err rule: loadStore.induct)
    (fastforce split: option.splits sum.splits prod.splits)+

lemma getTLSConfig_roots:
  assumes "getTLSConfig F rng pool certPath keyPath stores skip = (c, None)"
  shows "set pool \<subseteq> set (RootCAs c)" "InsecureSkipVerify c = skip"
  using assms
  by (auto simp: getTLSConfig_def loadDefault_def Let_def split: prod.splits option.splits if_splits sum.splits dest!: loadStore_roots)

section \<open>Properties\<close>

text \<open>C20: a ready interceptor stays ready. Once the probe has reported health, then whatever events the informer delivers,
  requests arrive and updates the refresher makes, the probe answers 200 and the routing table is synced.\<close>

theorem probe_stays_ready:
  fixes s :: "'t probed"
  assumes "(probe_step E str T n)\<^sup>*\<^sup>* probe_init s" "healthyFlag (pr_probe s)" "(probe_step E str T n)\<^sup>*\<^sup>* s s'"
  shows "RespStatus (Probe_ServeHTTP net_http (pr_probe s') newResponse r) = Some 200 \<and> HasSynced (tab (tabs (pr_sys s')))"
proof -
  have "sound_probe (probe_init :: 't probed)" by (simp add: sound_probe_def probe_init_def NewProbe_def)
  then have "sound_probe s" using probe_steps_sound [OF assms(1)] by simp
  from probe_steps_sound [OF assms(3) this] assms(2) show ?thesis
    by (simp add: sound_probe_def Probe_ServeHTTP_def Write_def WriteHeader_def newResponse_def)
qed

theorem probe_stays_ready_witness:
  "\<exists>s. (probe_step (\<lambda>_. False) demo_str trie_ops 1)\<^sup>*\<^sup>* probe_init s \<and>
    RespStatus (Probe_ServeHTTP net_http (pr_probe s) newResponse demo_request) = Some 200"
proof -
  let ?step = "probe_step (\<lambda>_. False) demo_str trie_ops 1"
  define t0 :: "HTTPScaledObject trie table_state" where "t0 = table_init NewMemory"
  define m where "m = newMemoryFromHTTPSOs demo_str trie_ops []"
  define t1 where "t1 = t0\<lparr>refr := RBuild\<rparr>"
  define t2 where "t2 = t1\<lparr>refr := RSet m\<rparr>"
  define t3 where "t3 = t2\<lparr>tab := (tab t2)\<lparr>memoryHolder := AtomicValue_Set (memoryHolder (tab t2)) m\<rparr>, refr := RWait\<rparr>"
  define p where "p t = probe_init\<lparr>pr_sys := sys_init\<lparr>tabs := t\<rparr>\<rparr>" for t :: "HTTPScaledObject trie table_state"
  have step: "?step (p t) (p t')" if "table_step (\<lambda>_. False) demo_str trie_ops t t'" for t t'
    using probe_system [OF sys_table [where s = "pr_sys (p t)" and t' = t'], of "\<lambda>_. False" demo_str trie_ops 1] that
    by (simp add: p_def sys_init_def)
  have "table_step (\<lambda>_. False) demo_str trie_ops t0 t1" unfolding t1_def by (rule synced) (simp add: t0_def table_init_def)
  moreover have "table_step (\<lambda>_. False) demo_str trie_ops t1 t2"
    unfolding t2_def m_def by (rule build) (simp_all add: t1_def t0_def table_init_def NewTable_def)
  moreover have "table_step (\<lambda>_. False) demo_str trie_ops t2 t3" unfolding t3_def by (rule publish) (simp add: t2_def)
  ultimately have "?step (p t0) (p t1)" "?step (p t1) (p t2)" "?step (p t2) (p t3)" using step by simp_all
  then have "?step\<^sup>*\<^sup>* (p t0) (p t3)" by (meson converse_rtranclp_into_rtranclp rtranclp.rtrancl_refl)
  moreover have "p t0 = probe_init" by (simp add: p_def t0_def probe_init_def sys_init_def)
  moreover have "?step (p t3) (p t3\<lparr>pr_probe := Probe_check [\<lambda>_. HealthCheck (tab t3)] NewProbe\<rparr>)"
    using probe_tick [of "p t3"] by (simp add: p_def probe_init_def sys_init_def)
  ultimately have run: "?step\<^sup>*\<^sup>* probe_init (p t3\<lparr>pr_probe := Probe_check [\<lambda>_. HealthCheck (tab t3)] NewProbe\<rparr>)" by simp
  have "HasSynced (tab t3)" by (simp add: t3_def HasSynced_def AtomicValue_Get_def AtomicValue_Set_def)
  then show ?thesis using probe_stays_ready [OF run, OF _ rtranclp.rtrancl_refl, of demo_request] run by (auto simp: HealthCheck_def)
qed



end
