(* ===== verification/Scaler_Fetch.thy ===== *)
theory Scaler_Fetch
  imports Queue_RPC
begin

text \<open>
  \<open>fetchCounts\<close> of \<^verbatim>\<open>scaler/queue_pinger.go\<close>: for every interceptor a goroutine of an error group asks for its
  counts and sends them to a private channel, a second goroutine forwards them to a common channel, and one
  more closes that channel once all forwarders are done; the caller waits for the group and then adds up what
  arrives. All channels are unbuffered: a send and its receive are one step. \<open>replies ! i\<close> is what
  \<open>GetCounts\<close> returns for the \<open>i\<close>-th interceptor.
\<close>

section \<open>Adding counts\<close>

definition add_count :: "Counts \<Rightarrow> string \<times> Count \<Rightarrow> Counts" where
  "add_count totalCounts hv =
     (let (host, val) = hv;
          responseCount = (case map_of totalCounts host of None \<Rightarrow> \<lparr>Concurrency = 0, RPS = 0\<rparr> | Some c \<Rightarrow> c)
      in AList.update host
           \<lparr>Concurrency = Concurrency responseCount + Concurrency val, RPS = f64_add (RPS responseCount) (RPS val)\<rparr> totalCounts)"

definition addCounts :: "Counts \<Rightarrow> Counts \<Rightarrow> Counts" where
  "addCounts totalCounts cts = foldl add_count totalCounts cts"

section \<open>The goroutines\<close>

datatype fetcher = FGet | FSend Counts | FEnd
datatype forwarder = WRecv | WSend Counts | WEnd
datatype fetch_main = MWait | MRange Counts | MRet "Counts result"

record fetch_state =
  fet :: "fetcher list"
  fwd :: "forwarder list"
  countsChClosed :: bool
  firstErr :: "go_error option"
  mainPc :: fetch_main

definition fetch_init :: "nat \<Rightarrow> fetch_state" where
  "fetch_init n = \<lparr>fet = replicate n FGet, fwd = replicate n WRecv, countsChClosed = False, firstErr = None, mainPc = MWait\<rparr>"

inductive fetch_step :: "Counts result list \<Rightarrow> fetch_state \<Rightarrow> fetch_state \<Rightarrow> bool" for replies where
  get_ok: "i < length (fet s) \<Longrightarrow> fet s ! i = FGet \<Longrightarrow> replies ! i = Inr c \<Longrightarrow>
    fetch_step replies s (s\<lparr>fet := (fet s)[i := FSend c]\<rparr>)"
| get_err: "i < length (fet s) \<Longrightarrow> fet s ! i = FGet \<Longrightarrow> replies ! i = Inl e \<Longrightarrow>
    fetch_step replies s (s\<lparr>fet := (fet s)[i := FEnd], firstErr := (case firstErr s of None \<Rightarrow> Some e | Some e' \<Rightarrow> Some e')\<rparr>)"
| hand_on: "i < length (fet s) \<Longrightarrow> fet s ! i = FSend c \<Longrightarrow> fwd s ! i = WRecv \<Longrightarrow>
    fetch_step replies s (s\<lparr>fet := (fet s)[i := FEnd], fwd := (fwd s)[i := WSend c]\<rparr>)"
| close: "\<not> countsChClosed s \<Longrightarrow> list_all (\<lambda>w. w = WEnd) (fwd s) \<Longrightarrow> fetch_step replies s (s\<lparr>countsChClosed := True\<rparr>)"
| wait_ok: "mainPc s = MWait \<Longrightarrow> list_all (\<lambda>f. f = FEnd) (fet s) \<Longrightarrow> firstErr s = None \<Longrightarrow>
    fetch_step replies s (s\<lparr>mainPc := MRange []\<rparr>)"
| wait_err: "mainPc s = MWait \<Longrightarrow> list_all (\<lambda>f. f = FEnd) (fet s) \<Longrightarrow> firstErr s = Some e \<Longrightarrow>
    fetch_step replies s (s\<lparr>mainPc := MRet (Inl e)\<rparr>)"
| receive: "mainPc s = MRange t \<Longrightarrow> i < length (fwd s) \<Longrightarrow> fwd s ! i = WSend c \<Longrightarrow>
    fetch_step replies s (s\<lparr>fwd := (fwd s)[i := WEnd], mainPc := MRange (addCounts t c)\<rparr>)"
| finish: "mainPc s = MRange t \<Longrightarrow> countsChClosed s \<Longrightarrow> fetch_step replies s (s\<lparr>mainPc := MRet (Inr t)\<rparr>)"

text \<open>What a call of \<open>fetchCounts\<close> may return.\<close>

definition fetchCounts :: "GetEndpointsFunc \<Rightarrow> (URL \<Rightarrow> Counts result) \<Rightarrow> string \<Rightarrow> string \<Rightarrow> string \<Rightarrow> Counts result \<Rightarrow> bool" where
  "fetchCounts endpointsFn getCounts ns svcName adminPort r \<longleftrightarrow>
     (case EndpointsForService ns svcName adminPort endpointsFn of
        Inl err \<Rightarrow> r = Inl err
      | Inr endpointURLs \<Rightarrow>
          if endpointURLs = [] then r = Inl (ErrMsg (''there isn'' @ [CHR 0x27] @ ''t any valid interceptor endpoint''))
          else \<exists>s. (fetch_step (map getCounts endpointURLs))\<^sup>*\<^sup>* (fetch_init (length endpointURLs)) s \<and> mainPc s = MRet r)"

section \<open>The invariant\<close>

text \<open>Where the pair of goroutines of one interceptor may be.\<close>

definition pair_ok :: "Counts result \<Rightarrow> fetcher \<Rightarrow> forwarder \<Rightarrow> bool" where
  "pair_ok r f w \<longleftrightarrow>
     (f = FGet \<and> w = WRecv) \<or>
     (case r of
        Inr c \<Rightarrow> (f = FSend c \<and> w = WRecv) \<or> (f = FEnd \<and> (w = WSend c \<or> w = WEnd))
      | Inl e \<Rightarrow> f = FEnd \<and> w = WRecv)"

text \<open>The counts that have been received.\<close>

definition received :: "Counts result list \<Rightarrow> forwarder list \<Rightarrow> Counts multiset" where
  "received replies ws = image_mset (\<lambda>i. projr (replies ! i)) (mset_set {i. i < length ws \<and> ws ! i = WEnd})"

definition summed :: "Counts result list \<Rightarrow> forwarder list \<Rightarrow> Counts \<Rightarrow> bool" where
  "summed replies ws t \<longleftrightarrow> (\<exists>cs. mset cs = received replies ws \<and> t = foldl addCounts [] cs)"

definition all_fetched :: "fetch_state \<Rightarrow> bool" where
  "all_fetched s \<longleftrightarrow> (\<forall>i < length (fet s). fet s ! i = FEnd)"

definition none_received :: "fetch_state \<Rightarrow> bool" where
  "none_received s \<longleftrightarrow> (\<forall>i < length (fwd s). fwd s ! i \<noteq> WEnd)"

definition fetch_inv :: "Counts result list \<Rightarrow> fetch_state \<Rightarrow> bool" where
  "fetch_inv replies s \<longleftrightarrow>
     length (fet s) = length replies \<and> length (fwd s) = length replies \<and> replies \<noteq> [] \<and>
     (\<forall>i < length replies. pair_ok (replies ! i) (fet s ! i) (fwd s ! i)) \<and>
     (\<forall>i < length replies. fet s ! i = FEnd \<longrightarrow> isl (replies ! i) \<longrightarrow> firstErr s \<noteq> None) \<and>
     (\<forall>e. firstErr s = Some e \<longrightarrow> Inl e \<in> set replies) \<and>
     (countsChClosed s \<longrightarrow> (\<forall>i < length replies. fwd s ! i = WEnd)) \<and>
     (case mainPc s of
        MWait \<Rightarrow> none_received s
      | MRange t \<Rightarrow> all_fetched s \<and> firstErr s = None \<and> summed replies (fwd s) t
      | MRet (Inr t) \<Rightarrow> countsChClosed s \<and> all_fetched s \<and> firstErr s = None \<and> summed replies (fwd s) t
      | MRet (Inl e) \<Rightarrow> all_fetched s \<and> none_received s \<and> firstErr s = Some e)"

lemma received_end:
  assumes "i < length ws" "ws ! i = WSend c" "replies ! i = Inr c"
  shows "received replies (ws[i := WEnd]) = add_mset c (received replies ws)"
proof -
  have "{j. j < length ws \<and> ws[i := WEnd] ! j = WEnd} = insert i {j. j < length ws \<and> ws ! j = WEnd}"
    using assms(1) by (auto simp: nth_list_update)
  moreover have "i \<notin> {j. j < length ws \<and> ws ! j = WEnd}" using assms(2) by simp
  ultimately show ?thesis using assms(3) by (simp add: received_def)
qed

lemma summed_end:
  assumes "summed replies ws t" "i < length ws" "ws ! i = WSend c" "replies ! i = Inr c"
  shows "summed replies (ws[i := WEnd]) (addCounts t c)"
proof -
  obtain cs where "mset cs = received replies ws" "t = foldl addCounts [] cs" using assms(1) by (auto simp: summed_def)
  then show ?thesis
    unfolding summed_def received_end [OF assms(2-4)] by (intro exI [of _ "cs @ [c]"]) simp
qed

lemma received_all:
  assumes "\<forall>i < length ws. ws ! i = WEnd" "length ws = length replies"
  shows "received replies ws = mset (map projr replies)"
proof -
  have "{i. i < length ws \<and> ws ! i = WEnd} = {0..<length replies}" using assms by auto
  then have "received replies ws = mset (map (\<lambda>i. projr (replies ! i)) [0..<length replies])" by (simp add: received_def flip: mset_upt)
  also have "map (\<lambda>i. projr (replies ! i)) [0..<length replies] = map projr replies" by (rule nth_equalityI) simp_all
  finally show ?thesis .
qed

lemma fetch_inv_init: "replies \<noteq> [] \<Longrightarrow> fetch_inv replies (fetch_init (length replies))"
  by (simp add: fetch_inv_def fetch_init_def pair_ok_def none_received_def)

lemma pair_ok_cases:
  "pair_ok r FGet w \<longleftrightarrow> w = WRecv"
  "pair_ok r (FSend c) w \<longleftrightarrow> r = Inr c \<and> w = WRecv"
  "pair_ok r f (WSend c) \<longleftrightarrow> r = Inr c \<and> f = FEnd"
  "pair_ok r f WEnd \<longleftrightarrow> \<not> isl r \<and> f = FEnd"
  "pair_ok (Inl e) FEnd w \<longleftrightarrow> w = WRecv"
  by (auto simp: pair_ok_def split: sum.splits)

lemma fetch_inv_step:
  assumes "fetch_step replies s s'" "fetch_inv replies s"
  shows "fetch_inv replies s'"
  using assms
proof (induction rule: fetch_step.induct)
  case (get_ok i s c)
  have w: "fwd s ! i = WRecv" using get_ok by (force simp: fetch_inv_def pair_ok_cases)
  with get_ok have m: "mainPc s = MWait" "\<not> countsChClosed s"
    by (auto simp: fetch_inv_def all_fetched_def split: fetch_main.splits sum.splits)
  with get_ok w show ?case
    by (auto simp: fetch_inv_def nth_list_update pair_ok_cases none_received_def)
next
  case (get_err i s e)
  have w: "fwd s ! i = WRecv" using get_err by (force simp: fetch_inv_def pair_ok_cases)
  with get_err have m: "mainPc s = MWait" "\<not> countsChClosed s"
    by (auto simp: fetch_inv_def all_fetched_def split: fetch_main.splits sum.splits)
  have "Inl e \<in> set replies" using get_err by (metis fetch_inv_def nth_mem)
  with get_err w m show ?case
    by (auto simp: fetch_inv_def nth_list_update pair_ok_cases none_received_def split: option.splits)
next
  case (hand_on i s c)
  then have r: "replies ! i = Inr c" by (force simp: fetch_inv_def pair_ok_cases)
  from hand_on have m: "mainPc s = MWait" "\<not> countsChClosed s"
    by (auto simp: fetch_inv_def all_fetched_def split: fetch_main.splits sum.splits)
  with hand_on r show ?case
    by (auto simp: fetch_inv_def nth_list_update pair_ok_cases none_received_def)
next
  case (close s)
  then show ?case
    by (cases "mainPc s") (auto simp: fetch_inv_def list_all_length none_received_def all_fetched_def split: sum.splits)
next
  case (wait_ok s)
  have "{i. i < length (fwd s) \<and> fwd s ! i = WEnd} = {}" using wait_ok by (auto simp: fetch_inv_def none_received_def)
  then have "received replies (fwd s) = {#}" by (simp only: received_def mset_set.empty image_mset_empty)
  with wait_ok show ?case by (auto simp: fetch_inv_def all_fetched_def list_all_length summed_def)
next
  case (wait_err s e)
  then show ?case by (auto simp: fetch_inv_def all_fetched_def list_all_length none_received_def)
next
  case (receive s t i c)
  then have r: "replies ! i = Inr c" "i < length replies" "fet s ! i = FEnd" by (force simp: fetch_inv_def pair_ok_cases)+
  have "summed replies ((fwd s)[i := WEnd]) (addCounts t c)"
    by (rule summed_end) (use receive r in \<open>auto simp: fetch_inv_def\<close>)
  with receive r show ?case
    by (auto simp: fetch_inv_def nth_list_update pair_ok_cases all_fetched_def)
next
  case (finish s t)
  then show ?case by (auto simp: fetch_inv_def all_fetched_def)
qed

lemma fetch_inv_reachable:
  assumes "(fetch_step replies)\<^sup>*\<^sup>* (fetch_init (length replies)) s" "replies \<noteq> []"
  shows "fetch_inv replies s"
  using assms(1)
proof (induction rule: rtranclp_induct)
  case base
  then show ?case using assms(2) by (rule fetch_inv_init)
next
  case (step y z)
  then show ?case using fetch_inv_step by blast
qed

section \<open>Termination and progress\<close>

fun fet_weight :: "fetcher \<Rightarrow> nat" where
  "fet_weight FGet = 2" | "fet_weight (FSend c) = 1" | "fet_weight FEnd = 0"

fun fwd_weight :: "forwarder \<Rightarrow> nat" where
  "fwd_weight WRecv = 2" | "fwd_weight (WSend c) = 1" | "fwd_weight WEnd = 0"

fun main_weight :: "fetch_main \<Rightarrow> nat" where
  "main_weight MWait = 2" | "main_weight (MRange t) = 1" | "main_weight (MRet r) = 0"

definition fetch_weight :: "fetch_state \<Rightarrow> nat" where
  "fetch_weight s = sum_list (map fet_weight (fet s)) + sum_list (map fwd_weight (fwd s)) + main_weight (mainPc s) +
     (if countsChClosed s then 0 else 1)"

lemma sum_list_update_less:
  fixes f :: "'a \<Rightarrow> nat"
  assumes "i < length xs" "f x < f (xs ! i)"
  shows "sum_list (map f (xs[i := x])) < sum_list (map f xs)"
  using assms
proof (induction xs arbitrary: i)
  case (Cons y ys)
  then show ?case by (cases i) auto
qed simp

lemma fetch_step_weight:
  assumes "fetch_step replies s s'" "length (fet s) = length (fwd s)"
  shows "fetch_weight s' < fetch_weight s \<and> length (fet s') = length (fwd s')"
  using assms
proof (induction rule: fetch_step.induct)
  case (get_ok i s c)
  then show ?case using sum_list_update_less [of i "fet s" fet_weight "FSend c"] by (simp add: fetch_weight_def)
next
  case (get_err i s e)
  then show ?case using sum_list_update_less [of i "fet s" fet_weight FEnd] by (simp add: fetch_weight_def)
next
  case (hand_on i s c)
  then show ?case
    using sum_list_update_less [of i "fet s" fet_weight FEnd] sum_list_update_less [of i "fwd s" fwd_weight "WSend c"]
    by (simp add: fetch_weight_def)
next
  case (receive s t i c)
  then show ?case using sum_list_update_less [of i "fwd s" fwd_weight WEnd] by (simp add: fetch_weight_def)
qed (auto simp: fetch_weight_def)

lemma fetch_steps_bound:
  assumes "(fetch_step replies ^^ k) s s'" "length (fet s) = length (fwd s)"
  shows "k + fetch_weight s' \<le> fetch_weight s"
  using assms
proof (induction k arbitrary: s')
  case (Suc k)
  then obtain y where y: "(fetch_step replies ^^ k) s y" "fetch_step replies y s'" by auto
  have "length (fet y) = length (fwd y)" using y(1)
  proof (induction k arbitrary: y)
    case (Suc k)
    then show ?case using fetch_step_weight by (auto elim!: relcomppE)
  qed (simp add: Suc.prems(2))
  with Suc.IH [OF y(1) Suc.prems(2)] fetch_step_weight [OF y(2)] show ?case by simp
qed simp

lemma fetch_progress:
  assumes "fetch_inv replies s" "\<nexists>s'. fetch_step replies s s'"
  shows "\<exists>r. mainPc s = MRet r"
proof (rule ccontr)
  assume nr: "\<nexists>r. mainPc s = MRet r"
  have fetched: "fet s ! i = FEnd" if i: "i < length (fet s)" for i
  proof (cases "fet s ! i")
    case FGet
    with i assms(2) show ?thesis using get_ok [OF i FGet] get_err [OF i FGet] by (cases "replies ! i") blast+
  next
    case (FSend c)
    then have "fwd s ! i = WRecv" using assms(1) i by (force simp: fetch_inv_def pair_ok_cases)
    with hand_on [OF i FSend] assms(2) show ?thesis by blast
  qed
  then have all: "list_all (\<lambda>f. f = FEnd) (fet s)" by (simp add: list_all_length)
  obtain t where t: "mainPc s = MRange t"
    using nr wait_ok [OF _ all] wait_err [OF _ all] assms(2) by (cases "mainPc s"; cases "firstErr s") blast+
  have "fwd s ! i = WEnd" if i: "i < length (fwd s)" for i
  proof (cases "fwd s ! i")
    case WRecv
    have "i < length replies" "fet s ! i = FEnd" "firstErr s = None"
      using assms(1) fetched [of i] i t by (simp_all add: fetch_inv_def)
    moreover from this(1) have "pair_ok (replies ! i) (fet s ! i) (fwd s ! i)" using assms(1) unfolding fetch_inv_def by blast
    moreover from this WRecv \<open>fet s ! i = FEnd\<close> have "isl (replies ! i)" by (cases "replies ! i") (simp_all add: pair_ok_def)
    ultimately show ?thesis using assms(1) by (auto simp: fetch_inv_def)
  next
    case (WSend c)
    with receive [OF t i WSend] assms(2) show ?thesis by blast
  qed simp
  then have "list_all (\<lambda>w. w = WEnd) (fwd s)" by (simp add: list_all_length)
  with close assms(2) have "countsChClosed s" by blast
  with finish [OF t] assms(2) show False by blast
qed

lemma fetch_ends: "length (fet s) = length (fwd s) \<Longrightarrow> \<exists>k s'. (fetch_step replies ^^ k) s s' \<and> (\<nexists>s''. fetch_step replies s' s'')"
proof (induction "fetch_weight s" arbitrary: s rule: less_induct)
  case less
  show ?case
  proof (cases "\<exists>s1. fetch_step replies s s1")
    case True
    then obtain s1 where s1: "fetch_step replies s s1" by blast
    with less fetch_step_weight [OF s1] obtain k s' where "(fetch_step replies ^^ k) s1 s'" "\<nexists>s''. fetch_step replies s' s''"
      by blast
    with relpowp_Suc_I2 [of "fetch_step replies", OF s1] show ?thesis by blast
  next
    case False
    then show ?thesis by (intro exI [of _ 0] exI [of _ s]) simp
  qed
qed

section \<open>What is added up\<close>

definition host_concurrency :: "Counts \<Rightarrow> string \<Rightarrow> go_int" where
  "host_concurrency q h = (case map_of q h of None \<Rightarrow> 0 | Some c \<Rightarrow> Concurrency c)"

lemma add_count_concurrency:
  "host_concurrency (add_count t (k, c)) h = host_concurrency t h + (if h = k then Concurrency c else 0)"
  by (auto simp: host_concurrency_def add_count_def split: option.splits)

lemma addCounts_concurrency:
  "distinct (map fst q) \<Longrightarrow> host_concurrency (addCounts t q) h = host_concurrency t h + host_concurrency q h"
proof (induction q arbitrary: t)
  case Nil
  then show ?case by (simp add: addCounts_def host_concurrency_def)
next
  case (Cons e q)
  obtain k c where e: "e = (k, c)" by force
  have "addCounts t (e # q) = addCounts (add_count t (k, c)) q" by (simp add: addCounts_def e)
  moreover have "host_concurrency (e # q) h = (if h = k then Concurrency c else 0) + host_concurrency q h"
  proof (cases "h = k")
    case True
    then have "map_of q h = None" using Cons.prems e by (simp add: map_of_eq_None_iff)
    with True show ?thesis by (simp add: host_concurrency_def e)
  qed (simp add: host_concurrency_def e)
  ultimately show ?case using Cons by (simp add: add_count_concurrency e)
qed

lemma foldl_addCounts_concurrency:
  assumes "\<forall>q\<in>set cs. distinct (map fst q)"
  shows "host_concurrency (foldl addCounts t cs) h = host_concurrency t h + (\<Sum>q\<leftarrow>cs. host_concurrency q h)"
  using assms by (induction cs arbitrary: t) (simp_all add: addCounts_concurrency)

lemma summed_concurrency:
  assumes "mset cs = mset qs" "\<forall>q\<in>set qs. distinct (map fst q)"
  shows "host_concurrency (foldl addCounts [] cs) h = (\<Sum>q\<leftarrow>qs. host_concurrency q h)"
proof -
  have "\<forall>q\<in>set cs. distinct (map fst q)" using assms by (metis mset_eq_setD)
  then have "host_concurrency (foldl addCounts [] cs) h = (\<Sum>q\<leftarrow>cs. host_concurrency q h)"
    using foldl_addCounts_concurrency [of cs "[]" h] by (simp add: host_concurrency_def [of "[]"])
  also have "\<dots> = sum_mset (image_mset (\<lambda>q. host_concurrency q h) (mset cs))" by (simp add: sum_mset_sum_list flip: mset_map)
  also have "\<dots> = (\<Sum>q\<leftarrow>qs. host_concurrency q h)" by (simp add: assms(1) sum_mset_sum_list flip: mset_map)
  finally show ?thesis .
qed

text \<open>A state in which \<open>fetchCounts\<close> has returned, when every interceptor answers.\<close>

lemma fetch_returned:
  assumes "(fetch_step (map Inr qs))\<^sup>*\<^sup>* (fetch_init (length qs)) s" "qs \<noteq> []" "\<And>q. q \<in> set qs \<Longrightarrow> distinct (map fst q)"
    "mainPc s = MRet r"
  shows "\<exists>t cs. r = Inr t \<and> mset cs = mset qs \<and> t = foldl addCounts [] cs \<and>
    (\<forall>h. host_concurrency t h = (\<Sum>q\<leftarrow>qs. host_concurrency q h)) \<and>
    (\<forall>f\<in>set (fet s). f = FEnd) \<and> (\<forall>w\<in>set (fwd s). w = WEnd) \<and> countsChClosed s"
proof -
  have inv: "fetch_inv (map Inr qs) s" using fetch_inv_reachable [of "map Inr qs" s] assms(1,2) by simp
  have "firstErr s = None" using inv by (cases "firstErr s") (auto simp: fetch_inv_def)
  with inv assms(4) obtain t where t: "r = Inr t" "countsChClosed s" "all_fetched s" "summed (map Inr qs) (fwd s) t"
    by (auto simp: fetch_inv_def split: sum.splits)
  have len: "length (fwd s) = length qs" "length (fet s) = length qs" using inv by (simp_all add: fetch_inv_def)
  have ends: "\<forall>i < length (fwd s). fwd s ! i = WEnd" using inv t(2) len by (simp add: fetch_inv_def)
  then have "received (map Inr qs) (fwd s) = mset qs"
    using received_all [of "fwd s" "map Inr qs"] len by (simp add: comp_def)
  then obtain cs where cs: "mset cs = mset qs" "t = foldl addCounts [] cs" using t(4) by (auto simp: summed_def)
  have "\<forall>h. host_concurrency t h = (\<Sum>q\<leftarrow>qs. host_concurrency q h)"
    using summed_concurrency [OF cs(1)] assms(3) cs(2) by blast
  moreover have "\<forall>f\<in>set (fet s). f = FEnd" "\<forall>w\<in>set (fwd s). w = WEnd"
    using t(3) ends by (auto simp: all_fetched_def in_set_conv_nth)
  ultimately show ?thesis using t(1,2) cs by blast
qed

text \<open>What \<open>fetchCounts\<close> returns when every interceptor answers.\<close>

lemma fetchCounts_concurrency:
  assumes "fetchCounts endpointsFn getCounts ns svcName port (Inr t)" "EndpointsForService ns svcName port endpointsFn = Inr urls"
    "\<And>u. u \<in> set urls \<Longrightarrow> getCounts u = Inr (q u) \<and> distinct (map fst (q u))"
  shows "host_concurrency t h = (\<Sum>u\<leftarrow>urls. host_concurrency (q u) h)"
proof -
  have ne: "urls \<noteq> []" using assms(1,2) by (auto simp: fetchCounts_def)
  have eq: "map getCounts urls = map Inr (map q urls)" using assms(3) by simp
  obtain s where "(fetch_step (map getCounts urls))\<^sup>*\<^sup>* (fetch_init (length urls)) s" and ret: "mainPc s = MRet (Inr t)"
    using assms(1,2) ne by (auto simp: fetchCounts_def)
  then have reach: "(fetch_step (map Inr (map q urls)))\<^sup>*\<^sup>* (fetch_init (length (map q urls))) s" unfolding eq by simp
  from fetch_returned [OF reach _ _ ret] ne assms(3) show ?thesis by (auto simp: comp_def)
qed

section \<open>Properties\<close>

text \<open>C6: when every interceptor answers, \<open>fetchCounts\<close> always returns, after at most \<open>4 n + 3\<close> steps of its
  goroutines, and leaves none of them behind. In every interleaving the result is the sum of the answers in
  some order, so the concurrency of each host is the (wrapping) sum over all interceptors.\<close>

theorem fetchCounts_sums:
  assumes "(fetch_step (map Inr qs) ^^ k) (fetch_init (length qs)) s" "qs \<noteq> []" "\<And>q. q \<in> set qs \<Longrightarrow> distinct (map fst q)"
  shows "k \<le> 4 * length qs + 3 \<and>
    ((\<nexists>s'. fetch_step (map Inr qs) s s') \<longrightarrow>
      (\<exists>t cs. mainPc s = MRet (Inr t) \<and> mset cs = mset qs \<and> t = foldl addCounts [] cs \<and>
        (\<forall>h. host_concurrency t h = (\<Sum>q\<leftarrow>qs. host_concurrency q h)) \<and>
        (\<forall>f\<in>set (fet s). f = FEnd) \<and> (\<forall>w\<in>set (fwd s). w = WEnd) \<and> countsChClosed s))"
proof (intro conjI impI)
  have "fetch_weight (fetch_init (length qs)) = 4 * length qs + 3"
    by (simp add: fetch_weight_def fetch_init_def sum_list_replicate)
  then show "k \<le> 4 * length qs + 3"
    using fetch_steps_bound [OF assms(1)] by (simp add: fetch_init_def)
next
  assume stuck: "\<nexists>s'. fetch_step (map Inr qs) s s'"
  note reach = relpowp_imp_rtranclp [OF assms(1)]
  have inv: "fetch_inv (map Inr qs) s" using fetch_inv_reachable [of "map Inr qs" s] reach assms(2) by simp
  obtain r where r: "mainPc s = MRet r" using fetch_progress [OF inv stuck] by blast
  from fetch_returned [OF reach assms(2,3) this] this
  show "\<exists>t cs. mainPc s = MRet (Inr t) \<and> mset cs = mset qs \<and> t = foldl addCounts [] cs \<and>
      (\<forall>h. host_concurrency t h = (\<Sum>q\<leftarrow>qs. host_concurrency q h)) \<and>
      (\<forall>f\<in>set (fet s). f = FEnd) \<and> (\<forall>w\<in>set (fwd s). w = WEnd) \<and> countsChClosed s"
    by blast
qed

theorem fetchCounts_sums_witness:
  "\<exists>(s :: fetch_state) t. mainPc s = MRet (Inr t) \<and> host_concurrency t ''ns/b'' = 6 \<and> countsChClosed s"
proof -
  obtain k s where s: "(fetch_step (map Inr [demo_counts, demo_counts]) ^^ k) (fetch_init (length [demo_counts, demo_counts])) s"
    "\<nexists>s'. fetch_step (map Inr [demo_counts, demo_counts]) s s'"
    using fetch_ends [of "fetch_init (length [demo_counts, demo_counts])" "map Inr [demo_counts, demo_counts]"]
    by (auto simp: fetch_init_def)
  have d: "distinct (map fst demo_counts)" and h: "host_concurrency demo_counts ''ns/b'' = 3"
    by (simp_all add: demo_counts_def host_concurrency_def)
  obtain t where "mainPc s = MRet (Inr t)" "\<forall>h. host_concurrency t h = (\<Sum>q\<leftarrow>[demo_counts, demo_counts]. host_concurrency q h)"
    "countsChClosed s"
    using fetchCounts_sums [OF s(1)] s(2) d by auto
  then show ?thesis using h by (intro exI [of _ s] exI [of _ t]) simp
qed

text \<open>C37: when some interceptor does not answer, \<open>fetchCounts\<close> returns the error of one that did not, and leaves
  goroutines behind that never end: the forwarders of all interceptors and the one that should close
  the channel are blocked for good.\<close>

theorem fetchCounts_error_leaks:
  assumes "(fetch_step replies)\<^sup>*\<^sup>* (fetch_init (length replies)) s" "Inl e0 \<in> set replies" "\<nexists>s'. fetch_step replies s s'"
  shows "\<exists>e. mainPc s = MRet (Inl e) \<and> Inl e \<in> set replies \<and> \<not> countsChClosed s \<and> length (fwd s) = length replies \<and>
    (\<forall>w\<in>set (fwd s). w \<noteq> WEnd)"
proof -
  have ne: "replies \<noteq> []" using assms(2) by auto
  have inv: "fetch_inv replies s" by (rule fetch_inv_reachable [OF assms(1) ne])
  obtain i where i: "i < length replies" "replies ! i = Inl e0" using assms(2) by (auto simp: in_set_conv_nth)
  have w: "fwd s ! i \<noteq> WEnd" using inv i by (force simp: fetch_inv_def pair_ok_cases)
  then have nc: "\<not> countsChClosed s" using inv i(1) by (auto simp: fetch_inv_def)
  obtain r where r: "mainPc s = MRet r" using fetch_progress [OF inv assms(3)] by blast
  with inv nc obtain e where "r = Inl e" "none_received s" "firstErr s = Some e"
    by (auto simp: fetch_inv_def split: sum.splits)
  with inv r nc show ?thesis by (auto simp: fetch_inv_def none_received_def in_set_conv_nth)
qed

theorem fetchCounts_error_leaks_witness:
  "\<exists>s :: fetch_state. mainPc s = MRet (Inl DeadlineExceeded) \<and> \<not> countsChClosed s \<and> length (fwd s) = 2"
proof -
  let ?r = "[Inr demo_counts, Inl DeadlineExceeded]"
  obtain k s where s: "(fetch_step ?r ^^ k) (fetch_init (length ?r)) s" "\<nexists>s'. fetch_step ?r s s'"
    using fetch_ends [of "fetch_init (length ?r)" ?r] by (auto simp: fetch_init_def)
  have "Inl DeadlineExceeded \<in> set ?r" by simp
  from fetchCounts_error_leaks [OF relpowp_imp_rtranclp [OF s(1)] this s(2)] show ?thesis
    by (intro exI [of _ s]) auto
qed

end
