(* ===== verification/Scaler_Naming.thy ===== *)
theory Scaler_Naming
  imports Table_Memory
begin

text \<open>
  \<^verbatim>\<open>scaler/naming.go\<close>: the name of the metric of an HTTPScaledObject. The regular expression matches one
  rune outside \<^verbatim>\<open>[-.0-9A-Za-z]\<close>, and the replacement prints its bytes in hexadecimal, padded with zeros to
  four digits. A rune is what \<open>unicode/utf8\<close> decodes: up to four bytes, or a single invalid byte.
\<close>

section \<open>Definitions\<close>

definition safe_char :: "char \<Rightarrow> bool" where
  "safe_char c \<longleftrightarrow>
     (let n = of_char c :: nat
      in n = 45 \<or> n = 46 \<or> (48 \<le> n \<and> n \<le> 57) \<or> (65 \<le> n \<and> n \<le> 90) \<or> (97 \<le> n \<and> n \<le> 122))"

definition byte_in :: "nat \<Rightarrow> nat \<Rightarrow> char \<Rightarrow> bool" where
  "byte_in lo hi c \<longleftrightarrow> lo \<le> of_char c \<and> of_char c \<le> hi"

text \<open>The number of bytes of the first rune of a string.\<close>

fun rune_width :: "string \<Rightarrow> nat" where
  "rune_width [] = 0"
| "rune_width (c # s) =
     (let n = of_char c :: nat
      in if byte_in 0xC2 0xDF c \<and> 1 \<le> length s \<and> byte_in 0x80 0xBF (s ! 0) then 2
         else if byte_in 0xE0 0xEF c \<and> 2 \<le> length s \<and>
           byte_in (if n = 0xE0 then 0xA0 else 0x80) (if n = 0xED then 0x9F else 0xBF) (s ! 0) \<and> byte_in 0x80 0xBF (s ! 1) then 3
         else if byte_in 0xF0 0xF4 c \<and> 3 \<le> length s \<and>
           byte_in (if n = 0xF0 then 0x90 else 0x80) (if n = 0xF4 then 0x8F else 0xBF) (s ! 0) \<and>
           byte_in 0x80 0xBF (s ! 1) \<and> byte_in 0x80 0xBF (s ! 2) then 4
         else 1)"

definition hex_digit :: "nat \<Rightarrow> char" where
  "hex_digit n = (if n < 10 then char_of (48 + n) else char_of (55 + n))"

definition hex_byte :: "char \<Rightarrow> string" where
  "hex_byte c = [hex_digit (of_char c div 16), hex_digit (of_char c mod 16)]"

text \<open>\<open>fmt.Sprintf("_%04X", r)\<close>.\<close>

definition escapeRune :: "string \<Rightarrow> string" where
  "escapeRune r = CHR ''_'' # replicate (4 - 2 * length r) CHR ''0'' @ concat (map hex_byte r)"

fun escapeString :: "string \<Rightarrow> string" where
  "escapeString [] = []"
| "escapeString (c # s) =
     (let w = rune_width (c # s)
      in if w = 1 \<and> safe_char c then c # escapeString s
         else escapeRune (take w (c # s)) @ escapeString (drop (w - 1) s))"

declare escapeString.simps(2) [simp del]

text \<open>A nil name prints as \<^verbatim>\<open><nil>\<close>.\<close>

definition MetricName :: "(NamespacedName \<Rightarrow> string) \<Rightarrow> NamespacedName option \<Rightarrow> string" where
  "MetricName str namespacedName =
     escapeString (''http-'' @ (case namespacedName of None \<Rightarrow> ''<nil>'' | Some nn \<Rightarrow> str nn))"

section \<open>Escaping is reversible\<close>

definition hex_val :: "char \<Rightarrow> nat" where
  "hex_val c = (let n = of_char c in if n < 58 then n - 48 else n - 55)"

fun unhex :: "string \<Rightarrow> string" where
  "unhex (a # b # s) = char_of (16 * hex_val a + hex_val b) # unhex s"
| "unhex s = []"

text \<open>The number of hexadecimal digits of an escaped rune, by the first byte.\<close>

definition escape_digits :: "string \<Rightarrow> nat" where
  "escape_digits s =
     (let v = 16 * hex_val (s ! 0) + hex_val (s ! 1)
      in if v < 0xE0 then 4 else if v < 0xF0 then 6 else 8)"

fun unescape :: "string \<Rightarrow> string" where
  "unescape [] = []"
| "unescape (c # s) =
     (if c \<noteq> CHR ''_'' then c # unescape s
      else (let bs = unhex (take (escape_digits s) s)
            in (if take 2 s = ''00'' then tl bs else bs) @ unescape (drop (escape_digits s) s)))"

lemma hex_val_digit: "n < 16 \<Longrightarrow> hex_val (hex_digit n) = n"
  by (simp add: hex_val_def hex_digit_def)

lemma byte_div: "of_char (c :: char) div 16 < (16 :: nat)"
  by (rule less_mult_imp_div_less) simp

lemma hex_byte_val: "16 * hex_val (hex_byte c ! 0) + hex_val (hex_byte c ! 1) = of_char c"
  by (simp add: hex_byte_def hex_val_digit byte_div)

lemma unhex_hex: "unhex (hex_byte c @ s) = c # unhex s"
proof -
  have "16 * hex_val (hex_digit (of_char c div 16)) + hex_val (hex_digit (of_char c mod 16)) = of_char c"
    by (simp add: hex_val_digit byte_div)
  then show ?thesis by (simp add: hex_byte_def)
qed

lemma unhex_concat: "unhex (concat (map hex_byte bs)) = bs"
  by (induction bs) (simp_all add: unhex_hex)

lemma length_hex_concat: "length (concat (map hex_byte bs)) = 2 * length bs"
  by (induction bs) (simp_all add: hex_byte_def)

text \<open>A rune of several bytes starts with a byte that tells their number.\<close>

lemma rune_bytes:
  assumes "w = rune_width (c # s)"
  shows "1 \<le> w" "w \<le> Suc (length s)"
    "w = 2 \<Longrightarrow> byte_in 0xC2 0xDF c" "w = 3 \<Longrightarrow> byte_in 0xE0 0xEF c" "w = 4 \<Longrightarrow> byte_in 0xF0 0xF4 c"
    "w = 1 \<or> w = 2 \<or> w = 3 \<or> w = 4"
  using assms by (auto simp: Let_def split: if_splits)

lemma hex_byte_zero: "hex_byte c = ''00'' \<longleftrightarrow> of_char c = (0 :: nat)"
proof
  assume "hex_byte c = ''00''"
  then show "of_char c = (0 :: nat)" using hex_byte_val [of c] by (simp add: hex_val_def)
next
  assume "of_char c = (0 :: nat)"
  moreover have "hex_digit 0 = CHR ''0''" by (simp add: hex_digit_def char_of_eq_iff)
  ultimately show "hex_byte c = ''00''" by (simp add: hex_byte_def)
qed

lemma unescape_rune:
  assumes "w = rune_width (c # s)"
  shows "unescape (escapeRune (take w (c # s)) @ t) = take w (c # s) @ unescape t"
proof (cases "w = 1")
  case True
  define u where "u = ''00'' @ hex_byte c @ t"
  have "escapeRune (take w (c # s)) @ t = CHR ''_'' # u" using True by (simp add: escapeRune_def numeral_2_eq_2 u_def)
  moreover have "escape_digits u = 4" "take 2 u = ''00''" "take 4 u = ''00'' @ hex_byte c" "drop 4 u = t"
    by (simp_all add: escape_digits_def hex_val_def hex_byte_def u_def)
  moreover have "unhex (''00'' @ hex_byte c) = [CHR 0x00, c]"
    using unhex_hex [of c "[]"] by (simp add: hex_val_def char_of_eq_iff)
  ultimately show ?thesis using True by simp
next
  case False
  define bs where "bs = take w (c # s)"
  define d where "d = concat (map hex_byte bs)"
  have w: "w = 2 \<or> w = 3 \<or> w = 4" using False rune_bytes(6) [OF assms] by blast
  have len: "length bs = w" using rune_bytes(2) [OF assms] by (simp add: bs_def)
  have ld: "length d = 2 * w" by (simp add: d_def length_hex_concat len)
  obtain r where r: "d = hex_byte c @ r" using rune_bytes(1) [OF assms] by (cases w) (simp_all add: d_def bs_def)
  have esc: "escapeRune bs @ t = CHR ''_'' # d @ t" using w len by (auto simp: escapeRune_def d_def)
  have v: "16 * hex_val ((d @ t) ! 0) + hex_val ((d @ t) ! 1) = of_char c"
    using hex_byte_val [of c] by (simp add: r hex_byte_def)
  have digits: "escape_digits (d @ t) = 2 * w"
    unfolding escape_digits_def v Let_def using w rune_bytes(3-5) [OF assms] by (elim disjE) (simp_all add: byte_in_def)
  have "take 2 (d @ t) = hex_byte c" by (simp add: r hex_byte_def)
  moreover have "of_char c \<noteq> (0 :: nat)" using w rune_bytes(3-5) [OF assms] by (elim disjE) (simp_all add: byte_in_def)
  ultimately have "take 2 (d @ t) \<noteq> ''00''" by (simp add: hex_byte_zero)
  moreover have "unhex d = bs" unfolding d_def by (rule unhex_concat)
  ultimately show ?thesis
    unfolding bs_def [symmetric] esc by (simp add: digits ld)
qed

lemma unescape_escape: "unescape (escapeString s) = s"
proof (induction s rule: escapeString.induct)
  case (2 c s)
  define w where "w = rune_width (c # s)"
  show ?case
  proof (cases "w = 1 \<and> safe_char c")
    case True
    then have "c \<noteq> CHR ''_''" by (auto simp: safe_char_def)
    with True "2.IH"(1) [OF w_def] show ?thesis
      unfolding escapeString.simps(2) [of c s] w_def [symmetric] by simp
  next
    case False
    have "take w (c # s) @ drop (w - 1) s = c # s"
      using rune_bytes(1) [OF w_def] by (cases w) simp_all
    with False "2.IH"(2) [OF w_def] unescape_rune [OF w_def] show ?thesis
      unfolding escapeString.simps(2) [of c s] w_def [symmetric] Let_def by (simp only: if_False False)
  qed
qed simp

lemma escape_chars: "c \<in> set (escapeString s) \<Longrightarrow> safe_char c \<or> c = CHR ''_''"
proof (induction s rule: escapeString.induct)
  case (2 d s)
  have digit: "safe_char (hex_digit n)" if "n < 16" for n
    using that by (auto simp: safe_char_def hex_digit_def Let_def)
  have "safe_char x" if "x \<in> set (hex_byte b)" for x b
    using that digit [of "of_char b div 16"] digit [of "of_char b mod 16"] by (auto simp: hex_byte_def byte_div)
  then have "safe_char x \<or> x = CHR ''_''" if "x \<in> set (escapeRune r)" for x r
    using that by (auto simp: escapeRune_def safe_char_def split: if_splits)
  with 2 show ?case by (auto simp: escapeString.simps(2) Let_def simp del: rune_width.simps split: if_splits)
qed simp

text \<open>C40: two HTTPScaledObjects with different names have different metric names, and a metric name has only
  letters, digits, \<open>-\<close>, \<open>.\<close> and \<open>_\<close>.\<close>

theorem MetricName_unique:
  assumes "inj_on str {nn. valid_name nn}" "valid_name a" "valid_name b"
  shows "(MetricName str (Some a) = MetricName str (Some b) \<longleftrightarrow> a = b) \<and>
    (\<forall>c. c \<in> set (MetricName str (Some a)) \<longrightarrow> safe_char c \<or> c = CHR ''_'')"
proof -
  have "str a = str b" if "MetricName str (Some a) = MetricName str (Some b)"
    using arg_cong [OF that, of unescape] unfolding MetricName_def unescape_escape by simp
  with assms escape_chars show ?thesis by (auto simp: MetricName_def inj_on_def)
qed

theorem MetricName_unique_witness:
  "MetricName demo_str (Some \<lparr>Namespace = ''ns'', NName = ''app''\<rparr>) \<noteq> MetricName demo_str (Some \<lparr>Namespace = ''ns'', NName = ''api''\<rparr>) \<and>
   MetricName demo_str (Some \<lparr>Namespace = ''ns'', NName = ''app''\<rparr>) = ''http-ns_002Fapp''"
proof -
  have digits: "char_of (50 :: nat) = CHR ''2''" "char_of (70 :: nat) = CHR ''F''" by (simp_all add: char_of_eq_iff)
  have "MetricName demo_str (Some \<lparr>Namespace = ''ns'', NName = ''app''\<rparr>) = ''http-ns_002Fapp''"
    by (simp add: MetricName_def demo_str_def escapeString.simps(2) Let_def byte_in_def safe_char_def escapeRune_def
        hex_byte_def hex_digit_def digits numeral_2_eq_2)
  moreover have "valid_name \<lparr>Namespace = ''ns'', NName = ''app''\<rparr>" "valid_name \<lparr>Namespace = ''ns'', NName = ''api''\<rparr>"
    by (simp_all add: valid_name_def)
  note MetricName_unique [OF demo_str_inj this, THEN conjunct1]
  ultimately show ?thesis by simp
qed

end
