(* ===== verification/Scaled_Object.thy ===== *)
theory Scaled_Object
  imports K8s Util
begin

text \<open>
  What the operator writes and how it is configured: the KEDA \<open>ScaledObject\<close> built by \<open>NewScaledObject\<close> of
  \<^verbatim>\<open>pkg/k8s/scaledobject.go\<close>, \<open>ObjectKind\<close> of \<^verbatim>\<open>pkg/k8s/scheme.go\<close>, and
  \<^verbatim>\<open>operator/controllers/http/config/config.go\<close>. Of a \<open>ScaledObject\<close>, a type of KEDA, the record has the fields
  the program writes. The program only hands over its labels, annotations and trigger metadata, so they are maps.
\<close>

section \<open>The kind of an object\<close>

text \<open>A type as \<open>reflect\<close> presents it. A pointer type has no name.\<close>

datatype go_type = NamedType string | PointerType go_type

definition type_name :: "go_type \<Rightarrow> string" where
  "type_name t = (case t of NamedType n \<Rightarrow> n | PointerType _ \<Rightarrow> [])"

definition ObjectKind :: "go_type \<Rightarrow> string" where
  "ObjectKind t = type_name (case t of PointerType t' \<Rightarrow> t' | NamedType _ \<Rightarrow> t)"

section \<open>Scaled objects\<close>

record ScaleTarget =
  StAPIVersion :: string
  StKind :: string
  StName :: string

record ScaleTriggers =
  TriggerType :: string
  TriggerMetadata :: "string \<rightharpoonup> string"

record OwnerReference =
  OwnerKind :: string
  OwnerName :: string

record ScaledObject =
  SoAPIVersion :: string
  SoKind :: string
  SoNamespace :: string
  SoName :: string
  SoLabels :: "string \<rightharpoonup> string"
  SoAnnotations :: "string \<rightharpoonup> string"
  OwnerReferences :: "OwnerReference list"
  SoScaleTarget :: ScaleTarget
  PollingInterval :: "int32 option"
  SoCooldownPeriod :: "int32 option"
  MinReplicaCount :: "int32 option"
  MaxReplicaCount :: "int32 option"
  RestoreToOriginalReplicaCount :: bool
  Triggers :: "ScaleTriggers list"
  SoInitialCooldownPeriod :: "int32 option"

definition so_name :: "ScaledObject \<Rightarrow> NamespacedName" where
  "so_name so = \<lparr>Namespace = SoNamespace so, NName = SoName so\<rparr>"

definition soPollingInterval :: int32 where
  "soPollingInterval = 15"

definition soTriggerType :: string where
  "soTriggerType = ''external-push''"

definition ScalerAddressKey :: string where
  "ScalerAddressKey = ''scalerAddress''"

definition HTTPScaledObjectKey :: string where
  "HTTPScaledObjectKey = ''httpScaledObject''"

text \<open>\<open>NewScaledObject\<close>; the identifier of the group and version is a constant of KEDA, the first argument.\<close>

definition NewScaledObject :: "string \<Rightarrow> string \<Rightarrow> string \<Rightarrow> (string, string) gomap \<Rightarrow> (string, string) gomap \<Rightarrow>
    ScaleTargetRef \<Rightarrow> string \<Rightarrow> int32 option \<Rightarrow> int32 option \<Rightarrow> int32 option \<Rightarrow> int32 option \<Rightarrow> ScaledObject" where
  "NewScaledObject identifier ns nm labels annotations workloadRef scalerAddress minReplicas maxReplicas
     cooldownPeriod initialCooldownPeriod =
     \<lparr>SoAPIVersion = identifier, SoKind = ObjectKind (PointerType (NamedType ''ScaledObject'')),
      SoNamespace = ns, SoName = nm, SoLabels = map_of labels, SoAnnotations = map_of annotations, OwnerReferences = [],
      SoScaleTarget = \<lparr>StAPIVersion = APIVersion workloadRef, StKind = Kind workloadRef, StName = Name workloadRef\<rparr>,
      PollingInterval = Some soPollingInterval, SoCooldownPeriod = cooldownPeriod,
      MinReplicaCount = minReplicas, MaxReplicaCount = maxReplicas, RestoreToOriginalReplicaCount = True,
      Triggers = [\<lparr>TriggerType = soTriggerType,
                   TriggerMetadata = [ScalerAddressKey \<mapsto> scalerAddress, HTTPScaledObjectKey \<mapsto> nm]\<rparr>],
      SoInitialCooldownPeriod = initialCooldownPeriod\<rparr>"

section \<open>The configuration of the operator\<close>

record InterceptorConfig =
  IcServiceName :: string
  IcProxyPort :: int32
  IcAdminPort :: int32

record ExternalScaler =
  EsServiceName :: string
  EsPort :: int32

record Base =
  BaseTargetPendingRequests :: int32
  CurrentNamespace :: string
  WatchNamespace :: string

text \<open>\<open>envconfig.Process\<close> is the argument \<open>process\<close>.\<close>

definition NewBaseFromEnv :: "(string \<Rightarrow> Base \<Rightarrow> Base result) \<Rightarrow> Base result" where
  "NewBaseFromEnv process =
     (case process ''KEDA_HTTP_OPERATOR'' \<lparr>BaseTargetPendingRequests = 0, CurrentNamespace = [], WatchNamespace = []\<rparr> of
        Inl err \<Rightarrow> Inl err
      | Inr ret \<Rightarrow> Inr ret)"

definition HostName :: "ExternalScaler \<Rightarrow> string \<Rightarrow> string" where
  "HostName e ns = EsServiceName e @ ''.'' @ ns @ '':'' @ itoa (sint (EsPort e))"

definition AdminPortString :: "InterceptorConfig \<Rightarrow> string" where
  "AdminPortString i = itoa (sint (IcAdminPort i))"

definition NewInterceptorFromEnv :: "environment \<Rightarrow> InterceptorConfig result" where
  "NewInterceptorFromEnv env =
     (case env_Get env ''KEDAHTTP_INTERCEPTOR_SERVICE'' of
        Inl _ \<Rightarrow> Inl (ErrMsg (''missing '' @ [CHR 0x27] @ ''KEDAHTTP_INTERCEPTOR_SERVICE'' @ [CHR 0x27]))
      | Inr serviceName \<Rightarrow>
          Inr \<lparr>IcServiceName = serviceName,
               IcProxyPort = GetInt32Or env ''KEDAHTTP_INTERCEPTOR_PROXY_PORT'' 8091,
               IcAdminPort = GetInt32Or env ''KEDAHTTP_INTERCEPTOR_ADMIN_PORT'' 8090\<rparr>)"

definition NewExternalScalerFromEnv :: "environment \<Rightarrow> ExternalScaler result" where
  "NewExternalScalerFromEnv env =
     (case env_Get env ''KEDAHTTP_OPERATOR_EXTERNAL_SCALER_SERVICE'' of
        Inl _ \<Rightarrow> Inl (ErrMsg ''missing KEDAHTTP_OPERATOR_EXTERNAL_SCALER_SERVICE'')
      | Inr serviceName \<Rightarrow>
          Inr \<lparr>EsServiceName = serviceName, EsPort = GetInt32Or env ''KEDAHTTP_OPERATOR_EXTERNAL_SCALER_PORT'' 8091\<rparr>)"

lemma so_name_NewScaledObject [simp]:
  "so_name (NewScaledObject i ns nm l a w sa mi ma c ic) = \<lparr>Namespace = ns, NName = nm\<rparr>"
  "OwnerReferences (NewScaledObject i ns nm l a w sa mi ma c ic) = []"
  by (simp_all add: so_name_def NewScaledObject_def)

end
