(* ===== verification/Scaler.thy ===== *)
theory Scaler
  imports Scaler_Fetch Scaler_Naming Scaled_Object
begin

text \<open>
  The external scaler: the queue pinger of \<^verbatim>\<open>scaler/queue_pinger.go\<close>, the gRPC handlers of
  \<^verbatim>\<open>scaler/handlers.go\<close>, and the health check loop of \<^verbatim>\<open>scaler/main.go\<close>. The lister of HTTPScaledObjects and
  the stream of gRPC are arguments; a message of the protocol is a tuple of its fields.
\<close>

section \<open>The queue pinger\<close>

datatype PingerStatus = PingerUNKNOWN | PingerACTIVE | PingerERROR

record queuePinger =
  interceptorNS :: string
  interceptorSvcName :: string
  interceptorServiceName :: string
  adminPort :: string
  lastPingTime :: instant
  allCounts :: Counts
  status :: PingerStatus

definition newQueuePinger :: "string \<Rightarrow> string \<Rightarrow> string \<Rightarrow> string \<Rightarrow> queuePinger" where
  "newQueuePinger ns svcName deplName port =
     \<lparr>interceptorNS = ns, interceptorSvcName = svcName, interceptorServiceName = deplName, adminPort = port,
      lastPingTime = 0, allCounts = [], status = PingerUNKNOWN\<rparr>"

text \<open>\<open>fetchAndSaveCounts\<close>, with the outcome of \<open>fetchCounts\<close> and the time afterwards.\<close>

definition fetchAndSaveCounts :: "queuePinger \<Rightarrow> Counts result \<Rightarrow> instant \<Rightarrow> queuePinger \<times> go_error option" where
  "fetchAndSaveCounts q fetched now =
     (case fetched of
        Inl err \<Rightarrow> (q\<lparr>status := PingerERROR\<rparr>, Some err)
      | Inr cts \<Rightarrow> (q\<lparr>status := PingerACTIVE, allCounts := cts, lastPingTime := now\<rparr>, None))"

text \<open>The loop of \<open>start\<close> over what its select receives: a tick or an event of the endpoints, each followed by
  a fetch, or the end of the context. None while it runs on.\<close>

datatype pinger_event =
    PingTick "Counts result" instant
  | PingEndpoints "Counts result" instant
  | PingDone go_error

fun pinger_loop :: "queuePinger \<Rightarrow> pinger_event list \<Rightarrow> queuePinger \<times> go_error option" where
  "pinger_loop q [] = (q, None)"
| "pinger_loop q (PingTick fetched now # evs) = pinger_loop (fst (fetchAndSaveCounts q fetched now)) evs"
| "pinger_loop q (PingEndpoints fetched now # evs) = pinger_loop (fst (fetchAndSaveCounts q fetched now)) evs"
| "pinger_loop q (PingDone e # evs) =
     (q\<lparr>status := PingerERROR\<rparr>, Some (WrapErr ''context marked done. stopping queuePinger loop: '' e))"

definition pinger_start :: "go_error option \<Rightarrow> queuePinger \<Rightarrow> pinger_event list \<Rightarrow> queuePinger \<times> go_error option" where
  "pinger_start watchErr q evs = (case watchErr of Some err \<Rightarrow> (q, Some err) | None \<Rightarrow> pinger_loop q evs)"

definition pinger_counts :: "queuePinger \<Rightarrow> Counts" where
  "pinger_counts q = allCounts q"

text \<open>The health check loop of \<open>startGrpcServer\<close>: the status that a tick sets for liveness and readiness. The
  values of \<open>PingerStatus\<close> are those of the health protocol.\<close>

datatype ServingStatus = ServingUnknown | Serving | NotServing

definition propagate_status :: "PingerStatus \<Rightarrow> ServingStatus" where
  "propagate_status st = (case st of PingerUNKNOWN \<Rightarrow> ServingUnknown | PingerACTIVE \<Rightarrow> Serving | PingerERROR \<Rightarrow> NotServing)"

definition health_tick :: "duration \<Rightarrow> queuePinger \<Rightarrow> instant \<Rightarrow> ServingStatus" where
  "health_tick queueTickDuration q now =
     (if time_After now (time_Add (lastPingTime q) (wrap64 (queueTickDuration * 2))) then NotServing
      else propagate_status (status q))"

text \<open>The loop, over what its select receives: a tick, with the pinger and the clock at that time, or the end of the
  context. It gives the status that is set last, and whether it has returned.\<close>

datatype health_event = HealthTick queuePinger instant | HealthDone

fun health_loop :: "duration \<Rightarrow> ServingStatus \<Rightarrow> health_event list \<Rightarrow> ServingStatus \<times> bool" where
  "health_loop queueTickDuration st [] = (st, False)"
| "health_loop queueTickDuration st (HealthDone # evs) = (NotServing, True)"
| "health_loop queueTickDuration st (HealthTick q now # evs) = health_loop queueTickDuration (health_tick queueTickDuration q now) evs"

section \<open>The handlers\<close>

definition keyInterceptorTargetPendingRequests :: string where
  "keyInterceptorTargetPendingRequests = ''interceptorTargetPendingRequests''"

definition streamInterval :: "environment \<Rightarrow> duration" where
  "streamInterval env =
     (let defaultMS = 200;
          timeoutMS = (case ResolveOsEnvInt env ''KEDA_HTTP_SCALER_STREAM_INTERVAL_MS'' defaultMS of Inl _ \<Rightarrow> defaultMS | Inr v \<Rightarrow> v)
      in wrap64 (sint timeoutMS * millisecond))"

text \<open>A reference to a ScaledObject with its scaler metadata; a nil map has no keys.\<close>

record ScaledObjectRef =
  SorName :: string
  SorNamespace :: string
  ScalerMetadata :: "string \<rightharpoonup> string"

definition NamespacedNameFromScaledObjectRef :: "ScaledObjectRef option \<Rightarrow> NamespacedName option" where
  "NamespacedNameFromScaledObjectRef sor = map_option (\<lambda>s. \<lparr>Namespace = SorNamespace s, NName = SorName s\<rparr>) sor"

type_synonym metric = "string \<times> go_int"
type_synonym httpso_lister = "string \<Rightarrow> string \<Rightarrow> HTTPScaledObject result"

definition errNoReference :: go_error where
  "errNoReference = ErrMsg ''unable to get HTTPScaledObject reference''"

definition interceptorMetricSpec :: "string \<Rightarrow> string \<Rightarrow> metric list result" where
  "interceptorMetricSpec metricName interceptorTargetPendingRequests =
     (case ParseInt interceptorTargetPendingRequests 64 of
        Inl err \<Rightarrow> Inl err
      | Inr targetPendingRequests \<Rightarrow> Inr [(metricName, word_of_int targetPendingRequests)])"

text \<open>The target value: the pending requests of the object or 100, a concurrency target over it, a rate target
  over both.\<close>

definition targetValue :: "HTTPScaledObject \<Rightarrow> go_int" where
  "targetValue httpso =
     (let v = (case TargetPendingRequests (Spec httpso) of None \<Rightarrow> 100 | Some t \<Rightarrow> scast t)
      in case ScalingMetric (Spec httpso) of
           None \<Rightarrow> v
         | Some sm \<Rightarrow>
             (let v = (case ConcurrencyMetric sm of None \<Rightarrow> v | Some c \<Rightarrow> ConcurrencyTargetValue c)
              in case Rate sm of None \<Rightarrow> v | Some r \<Rightarrow> RateTargetValue r))"

definition GetMetricSpec :: "(NamespacedName \<Rightarrow> string) \<Rightarrow> httpso_lister \<Rightarrow> ScaledObjectRef \<Rightarrow> metric list result" where
  "GetMetricSpec str lister sor =
     (case ScalerMetadata sor HTTPScaledObjectKey of
        None \<Rightarrow>
          (case ScalerMetadata sor keyInterceptorTargetPendingRequests of
             Some v \<Rightarrow> interceptorMetricSpec (MetricName str (NamespacedNameFromScaledObjectRef (Some sor))) v
           | None \<Rightarrow> Inl errNoReference)
      | Some httpScaledObjectName \<Rightarrow>
          (case lister (SorNamespace sor) httpScaledObjectName of
             Inl err \<Rightarrow> Inl err
           | Inr httpso \<Rightarrow>
               Inr [(MetricName str (NamespacedNameFromNameAndNamespace httpScaledObjectName (SorNamespace sor)), targetValue httpso)]))"

definition interceptorMetrics :: "Counts \<Rightarrow> string \<Rightarrow> metric list result" where
  "interceptorMetrics counts metricName =
     (let c = foldl (\<lambda>n (k, v). n + Concurrency v) (0 :: go_int) counts
      in if c <s 0 then Inl ErrRange else Inr [(metricName, c)])"

text \<open>\<open>GetMetrics\<close>; a nil name would be dereferenced by \<open>namespacedName.String()\<close>.\<close>

definition GetMetrics :: "(NamespacedName \<Rightarrow> string) \<Rightarrow> httpso_lister \<Rightarrow> queuePinger \<Rightarrow> ScaledObjectRef \<Rightarrow> fault + metric list result" where
  "GetMetrics str lister q sor =
     (case ScalerMetadata sor HTTPScaledObjectKey of
        None \<Rightarrow>
          (case ScalerMetadata sor keyInterceptorTargetPendingRequests of
             Some _ \<Rightarrow> Inr (interceptorMetrics (pinger_counts q) (MetricName str (NamespacedNameFromScaledObjectRef (Some sor))))
           | None \<Rightarrow> Inr (Inl errNoReference))
      | Some httpScaledObjectName \<Rightarrow>
          (case lister (SorNamespace sor) httpScaledObjectName of
             Inl err \<Rightarrow> Inr (Inl err)
           | Inr httpso \<Rightarrow>
               (case NamespacedNameFromNameAndNamespace httpScaledObjectName (SorNamespace sor) of
                  None \<Rightarrow> Inl NilDereference
                | Some namespacedName \<Rightarrow>
                    (let metricName = MetricName str (Some namespacedName);
                         c = (case map_of (pinger_counts q) (str namespacedName) of None \<Rightarrow> \<lparr>Concurrency = 0, RPS = 0\<rparr> | Some c \<Rightarrow> c);
                         metricValue = (case ScalingMetric (Spec httpso) of
                             None \<Rightarrow> Concurrency c
                           | Some sm \<Rightarrow> if Rate sm \<noteq> None then word_of_int (f64_to_int (math_ceil (RPS c))) else Concurrency c)
                     in Inr (Inr [(metricName, metricValue)])))))"

definition IsActive :: "(NamespacedName \<Rightarrow> string) \<Rightarrow> httpso_lister \<Rightarrow> queuePinger \<Rightarrow> ScaledObjectRef \<Rightarrow> fault + bool result" where
  "IsActive str lister q sor =
     (case GetMetrics str lister q sor of
        Inl f \<Rightarrow> Inl f
      | Inr (Inl err) \<Rightarrow> Inr (Inl err)
      | Inr (Inr metricValues) \<Rightarrow>
          (case metricValues of
             [(_, metricValue)] \<Rightarrow> Inr (Inr (0 <s metricValue))
           | _ \<Rightarrow> Inr (Inl (ErrMsg ''len(metricValues) != 1''))))"

text \<open>The loop of \<open>StreamIsActive\<close> over what its select receives: a tick, with the pinger at that time and the
  outcome of \<open>Send\<close>, or the end of the stream's context. It gives what was sent, and the returned
  error once it has returned.\<close>

datatype stream_event = StreamTick queuePinger "go_error option" | StreamDone

fun StreamIsActive :: "(NamespacedName \<Rightarrow> string) \<Rightarrow> httpso_lister \<Rightarrow> ScaledObjectRef \<Rightarrow> stream_event list \<Rightarrow>
    bool list \<times> (fault + go_error option) option" where
  "StreamIsActive str lister sor [] = ([], None)"
| "StreamIsActive str lister sor (StreamDone # evs) = ([], Some (Inr None))"
| "StreamIsActive str lister sor (StreamTick q sendErr # evs) =
     (case IsActive str lister q sor of
        Inl f \<Rightarrow> ([], Some (Inl f))
      | Inr (Inl err) \<Rightarrow> ([], Some (Inr (Some err)))
      | Inr (Inr active) \<Rightarrow>
          (case sendErr of
             Some err \<Rightarrow> ([active], Some (Inr (Some err)))
           | None \<Rightarrow> apfst (Cons active) (StreamIsActive str lister sor evs)))"

section \<open>Lemmas\<close>

lemma not_isl: "\<not> isl x \<longleftrightarrow> (\<exists>c. x = Inr c)"
  by (cases x) auto

lemma ceil_to_int: "f64_to_int (math_ceil x) = \<lceil>x\<rceil>"
  by (simp add: f64_to_int_def math_ceil_def)

lemma positive_word: "- (2 ^ 63) \<le> n \<Longrightarrow> n < 2 ^ 63 \<Longrightarrow> 0 <s (word_of_int n :: go_int) \<longleftrightarrow> 0 < n"
  using wrap64_id [of n] by (simp add: word_sless_alt wrap64_def)

lemma sum_concurrency: "foldl (\<lambda>n (k, v). n + Concurrency v) n q = n + (\<Sum>kv\<leftarrow>q. Concurrency (snd kv))"
  by (induction q arbitrary: n) (auto simp: algebra_simps)

lemma sum_words: "(\<Sum>x\<leftarrow>xs. f x :: go_int) = word_of_int (\<Sum>x\<leftarrow>xs. sint (f x))"
  by (induction xs) simp_all

section \<open>Properties\<close>

text \<open>\<open>IsActive\<close> tells KEDA to activate an object exactly when its metric is positive: the request rate if
  the object scales on a rate, the concurrency otherwise, as the pinger last fetched them; an object without
  counts is inactive.\<close>

theorem IsActive_positive:
  assumes "ScalerMetadata sor HTTPScaledObjectKey = Some nm" "lister (SorNamespace sor) nm = Inr h" "nm \<noteq> []" "SorNamespace sor \<noteq> []"
    "\<And>c. map_of (allCounts q) (str \<lparr>Namespace = SorNamespace sor, NName = nm\<rparr>) = Some c \<Longrightarrow> 0 \<le> RPS c \<and> RPS c < 2 ^ 62"
  shows "IsActive str lister q sor = Inr (Inr
    (case map_of (allCounts q) (str \<lparr>Namespace = SorNamespace sor, NName = nm\<rparr>) of
       None \<Rightarrow> False
     | Some c \<Rightarrow> (case ScalingMetric (Spec h) of
         Some sm \<Rightarrow> if Rate sm \<noteq> None then 0 < RPS c else 0 < sint (Concurrency c)
       | None \<Rightarrow> 0 < sint (Concurrency c))))"
proof -
  have rate: "0 <s (word_of_int \<lceil>x\<rceil> :: go_int) \<longleftrightarrow> 0 < x" if "0 \<le> x" "x < 2 ^ 62" for x :: rat
  proof -
    have "\<lceil>x\<rceil> \<le> 2 ^ 62" using that(2) by (simp add: ceiling_le_iff)
    moreover have "0 \<le> \<lceil>x\<rceil>" using that(1) by (simp add: order_less_le_trans)
    ultimately show ?thesis using positive_word [of "\<lceil>x\<rceil>"] by simp
  qed
  show ?thesis
    using assms rate
    by (cases "map_of (allCounts q) (str \<lparr>Namespace = SorNamespace sor, NName = nm\<rparr>)"; cases "ScalingMetric (Spec h)")
      (auto simp: IsActive_def GetMetrics_def NamespacedNameFromNameAndNamespace_def pinger_counts_def Let_def ceil_to_int word_sless_alt)
qed

definition demo_sor :: ScaledObjectRef where
  "demo_sor = \<lparr>SorName = ''app'', SorNamespace = ''ns'', ScalerMetadata = [HTTPScaledObjectKey \<mapsto> ''b'']\<rparr>"

definition demo_pinger :: queuePinger where
  "demo_pinger = (newQueuePinger ''keda'' ''admin'' ''interceptor'' ''9090'')\<lparr>allCounts := demo_counts\<rparr>"

theorem IsActive_positive_witness: "IsActive demo_str (\<lambda>_ _. Inr (plain_httpso ''ns'' ''b'')) demo_pinger demo_sor = Inr (Inr True)"
proof -
  have c: "map_of (allCounts demo_pinger) (demo_str \<lparr>Namespace = SorNamespace demo_sor, NName = ''b''\<rparr>) = Some \<lparr>Concurrency = 3, RPS = 0\<rparr>"
    by (simp add: demo_pinger_def demo_counts_def demo_sor_def demo_str_def)
  show ?thesis
    using IsActive_positive [of demo_sor "''b''" "\<lambda>_ _. Inr (plain_httpso ''ns'' ''b'')" "plain_httpso ''ns'' ''b''" demo_pinger demo_str] c
    by (simp add: demo_sor_def plain_httpso_def plain_spec_def)
qed

text \<open>the two answers that KEDA combines carry one metric of the same name: when \<open>GetMetricSpec\<close> and
  \<open>GetMetrics\<close> both succeed for a reference, they name the same single metric.\<close>

theorem metric_names_agree:
  assumes "GetMetricSpec str lister sor = Inr specs" "GetMetrics str lister q sor = Inr (Inr metrics)"
  shows "map fst specs = map fst metrics \<and> length metrics = 1"
  using assms
  by (auto simp: GetMetricSpec_def GetMetrics_def interceptorMetricSpec_def interceptorMetrics_def Let_def
      split: option.splits sum.splits if_splits)

theorem metric_names_agree_witness:
  "map fst (projr (GetMetricSpec demo_str (\<lambda>_ _. Inr (plain_httpso ''ns'' ''b'')) demo_sor)) =
   map fst (projr (projr (GetMetrics demo_str (\<lambda>_ _. Inr (plain_httpso ''ns'' ''b'')) demo_pinger demo_sor)))"
proof -
  let ?l = "\<lambda>_ _. Inr (plain_httpso ''ns'' ''b'')"
  have "GetMetricSpec demo_str ?l demo_sor = Inr (projr (GetMetricSpec demo_str ?l demo_sor))"
    "GetMetrics demo_str ?l demo_pinger demo_sor = Inr (Inr (projr (projr (GetMetrics demo_str ?l demo_pinger demo_sor))))"
    by (simp_all add: GetMetricSpec_def GetMetrics_def demo_sor_def NamespacedNameFromNameAndNamespace_def Let_def)
  from metric_names_agree [OF this] show ?thesis by simp
qed

text \<open>The metric of the interceptors themselves is the sum of all concurrencies. For non-negative counts it
  is exact below \<open>2\<^sup>6\<^sup>3\<close>, and a sum that no longer fits, up to \<open>2\<^sup>6\<^sup>4\<close>, is an error and never a wrong number.\<close>

theorem interceptorMetrics_total:
  assumes "\<And>c. c \<in> snd ` set q \<Longrightarrow> 0 \<le> sint (Concurrency c)" "(\<Sum>kv\<leftarrow>q. sint (Concurrency (snd kv))) < 2 ^ 64"
  shows "interceptorMetrics q nm =
    (if (\<Sum>kv\<leftarrow>q. sint (Concurrency (snd kv))) < 2 ^ 63
     then Inr [(nm, word_of_int (\<Sum>kv\<leftarrow>q. sint (Concurrency (snd kv))))] else Inl ErrRange)"
proof -
  define n where "n = (\<Sum>kv\<leftarrow>q. sint (Concurrency (snd kv)))"
  have n: "0 \<le> n" "n < 2 ^ 64" using assms by (force simp: n_def intro!: sum_list_nonneg)+
  have c: "foldl (\<lambda>n (k, v). n + Concurrency v) 0 q = (word_of_int n :: go_int)"
    by (simp add: sum_concurrency sum_words n_def)
  show ?thesis
  proof (cases "n < 2 ^ 63")
    case True
    then show ?thesis using n wrap64_id [of n] by (simp add: interceptorMetrics_def c word_sless_alt wrap64_def flip: n_def)
  next
    case False
    have e: "(word_of_int (n - 2 ^ 64) :: go_int) = word_of_int n" by (simp add: word_of_int_eq_iff take_bit_int_def)
    have "wrap64 (n - 2 ^ 64) = n - 2 ^ 64" by (rule wrap64_id) (use False n in simp_all)
    then have "sint (word_of_int n :: go_int) = n - 2 ^ 64" unfolding wrap64_def e .
    with False n show ?thesis by (simp add: interceptorMetrics_def c word_sless_alt flip: n_def)
  qed
qed

theorem interceptorMetrics_total_witness:
  "interceptorMetrics demo_counts ''m'' = Inr [(''m'', 4)] \<and>
   interceptorMetrics [(''a'', \<lparr>Concurrency = 2 ^ 63 - 1, RPS = 0\<rparr>), (''b'', \<lparr>Concurrency = 1, RPS = 0\<rparr>)] ''m'' = Inl ErrRange"
proof -
  have m: "sint (2 ^ 63 - 1 :: go_int) = 2 ^ 63 - 1" by (simp add: sint_uint)
  have "interceptorMetrics demo_counts ''m'' = Inr [(''m'', 4)]"
    by (subst interceptorMetrics_total) (auto simp: demo_counts_def)
  moreover have "interceptorMetrics [(''a'', \<lparr>Concurrency = 2 ^ 63 - 1, RPS = 0\<rparr>), (''b'', \<lparr>Concurrency = 1, RPS = 0\<rparr>)] ''m'' = Inl ErrRange"
    using m by (subst interceptorMetrics_total) auto
  ultimately show ?thesis by blast
qed

text \<open>The counts of the last fetch that succeeded, and whether the last one did.\<close>

fun last_fetched :: "pinger_event list \<Rightarrow> (Counts \<times> instant) option" where
  "last_fetched [] = None"
| "last_fetched (PingTick f now # evs) =
     (case last_fetched evs of Some x \<Rightarrow> Some x | None \<Rightarrow> (case f of Inr c \<Rightarrow> Some (c, now) | Inl _ \<Rightarrow> None))"
| "last_fetched (PingEndpoints f now # evs) =
     (case last_fetched evs of Some x \<Rightarrow> Some x | None \<Rightarrow> (case f of Inr c \<Rightarrow> Some (c, now) | Inl _ \<Rightarrow> None))"
| "last_fetched (PingDone e # evs) = None"

fun fetch_of :: "pinger_event \<Rightarrow> Counts result option" where
  "fetch_of (PingTick f now) = Some f"
| "fetch_of (PingEndpoints f now) = Some f"
| "fetch_of (PingDone e) = None"

lemma pinger_loop_counts:
  "allCounts (fst (pinger_loop q evs)) = (case last_fetched evs of Some (c, _) \<Rightarrow> c | None \<Rightarrow> allCounts q) \<and>
   lastPingTime (fst (pinger_loop q evs)) = (case last_fetched evs of Some (_, t) \<Rightarrow> t | None \<Rightarrow> lastPingTime q)"
  by (induction q evs rule: pinger_loop.induct) (auto simp: fetchAndSaveCounts_def split: sum.splits option.splits)

lemma pinger_loop_status:
  "status (fst (pinger_loop q (evs @ [ev]))) = PingerACTIVE \<longleftrightarrow>
     (case fetch_of ev of Some f \<Rightarrow> \<not> isl f | None \<Rightarrow> False) \<and> (\<forall>e. PingDone e \<notin> set evs)"
proof (induction q evs rule: pinger_loop.induct)
  case (1 q)
  then show ?case by (cases ev) (auto simp: fetchAndSaveCounts_def split: sum.splits)
qed auto

text \<open>The pinger serves the counts of the last fetch that succeeded, whatever failed after it. Its health is
  reported as serving exactly when the last thing it did was a successful fetch and that was at most two
  ticks ago.\<close>

theorem pinger_serves_last_counts:
  assumes "fst (pinger_start None (newQueuePinger ns svc depl port) (evs @ [ev])) = q" "0 \<le> tick" "tick < 2 ^ 62"
  shows "pinger_counts q = (case last_fetched (evs @ [ev]) of Some (c, _) \<Rightarrow> c | None \<Rightarrow> []) \<and>
    (health_tick tick q now = Serving \<longleftrightarrow>
      (\<forall>e. PingDone e \<notin> set evs) \<and>
      (\<exists>c t. (ev = PingTick (Inr c) t \<or> ev = PingEndpoints (Inr c) t) \<and> now \<le> t + 2 * tick))"
proof -
  let ?q0 = "newQueuePinger ns svc depl port"
  have q: "q = fst (pinger_loop ?q0 (evs @ [ev]))" using assms(1) by (simp add: pinger_start_def)
  have w: "wrap64 (tick * 2) = 2 * tick" using assms(2,3) wrap64_id [of "tick * 2"] by simp
  have lf: "last_fetched (evs @ [ev]) = Some (c, t)"
    if "ev = PingTick (Inr c) t \<or> ev = PingEndpoints (Inr c) t" "\<forall>e. PingDone e \<notin> set evs" for c t
    using that by (induction evs rule: last_fetched.induct) auto
  have st: "status q = PingerACTIVE \<longleftrightarrow>
      (\<forall>e. PingDone e \<notin> set evs) \<and> (\<exists>c t. ev = PingTick (Inr c) t \<or> ev = PingEndpoints (Inr c) t)"
    using pinger_loop_status [of ?q0 evs ev] unfolding q by (cases ev) (auto simp: not_isl)
  have h: "health_tick tick q now = Serving \<longleftrightarrow> status q = PingerACTIVE \<and> now \<le> lastPingTime q + 2 * tick"
    by (auto simp: health_tick_def propagate_status_def time_defs w split: PingerStatus.splits)
  have c: "pinger_counts q = (case last_fetched (evs @ [ev]) of Some (c, _) \<Rightarrow> c | None \<Rightarrow> [])"
    using pinger_loop_counts [of ?q0 "evs @ [ev]"] unfolding q [symmetric]
    by (auto simp: pinger_counts_def newQueuePinger_def split: option.splits)
  have "lastPingTime q = t" if "ev = PingTick (Inr c) t \<or> ev = PingEndpoints (Inr c) t" "\<forall>e. PingDone e \<notin> set evs" for c t
    using pinger_loop_counts [of ?q0 "evs @ [ev]"] lf [OF that] unfolding q [symmetric] by simp
  then show ?thesis using c h st by blast
qed

theorem pinger_serves_last_counts_witness:
  "let q = fst (pinger_start None (newQueuePinger ''keda'' ''admin'' ''interceptor'' ''9090'')
        [PingTick (Inr demo_counts) 100, PingEndpoints (Inl DeadlineExceeded) 200])
   in pinger_counts q = demo_counts \<and> health_tick second q 100 \<noteq> Serving"
  using pinger_serves_last_counts [of "''keda''" "''admin''" "''interceptor''" "''9090''" "[PingTick (Inr demo_counts) 100]"
      "PingEndpoints (Inl DeadlineExceeded) 200" _ second 100, OF refl]
  by (simp add: nanosecond_per_second_def)

end
