(* ===== verification/Operator.thy ===== *)
theory Operator
  imports Scaled_Object
begin

text \<open>
  The operator: the reconciler of \<^verbatim>\<open>operator/controllers/http\<close> and the predicates of
  \<^verbatim>\<open>operator/controllers/util/predicate.go\<close>. The objects of the API server are a record \<open>cluster\<close>; the client of
  controller-runtime, a library, is a record of functions on it, and the scheme one that has
  \<open>SetControllerReference\<close>. What the operator relies on is the locale \<open>api_server\<close>: calls may fail, and a call that
  succeeds has the documented effect, a patch that of a JSON merge patch. Nobody else writes during a run. An
  \<open>HTTPScaledObject\<close> that a function changes through its pointer is an argument and a result.
\<close>

section \<open>Conditions\<close>

definition CreateCondition :: "string \<Rightarrow> HTTPScaledObjectCreationStatus \<Rightarrow> ConditionStatus \<Rightarrow>
    HTTPScaledObjectConditionReason \<Rightarrow> HTTPScaledObjectCondition" where
  "CreateCondition now condType st reason =
     \<lparr>Timestamp = now, Type = condType, Status = st, Reason = reason, Message = []\<rparr>"

definition SetMessage :: "HTTPScaledObjectCondition \<Rightarrow> string \<Rightarrow> HTTPScaledObjectCondition" where
  "SetMessage c message = c\<lparr>Message := message\<rparr>"

fun update_loop :: "HTTPScaledObjectCondition \<Rightarrow> HTTPScaledObjectCondition list \<Rightarrow> bool \<times> HTTPScaledObjectCondition list" where
  "update_loop condition [] = (False, [])"
| "update_loop condition (c # cs) =
     (let (found, cs') = update_loop condition cs
      in if Reason c = Reason condition then (True, condition # cs') else (found, c # cs'))"

definition AddOrUpdateCondition :: "HTTPScaledObject \<Rightarrow> HTTPScaledObjectCondition \<Rightarrow> HTTPScaledObject" where
  "AddOrUpdateCondition httpso condition =
     (let conditions = (case StatusConditions (HStatus httpso) of None \<Rightarrow> [] | Some cs \<Rightarrow> cs);
          (found, cs) = update_loop condition conditions
      in httpso\<lparr>HStatus := (HStatus httpso)\<lparr>StatusConditions := Some (if found then cs else cs @ [condition])\<rparr>\<rparr>)"

section \<open>The API server and the scheme\<close>

record cluster =
  HSOs :: "NamespacedName \<rightharpoonup> HTTPScaledObject"
  SOs :: "NamespacedName \<rightharpoonup> ScaledObject"

record client =
  cl_GetHTTPSO :: "NamespacedName \<Rightarrow> cluster \<Rightarrow> HTTPScaledObject result"
  cl_GetSO :: "NamespacedName \<Rightarrow> cluster \<Rightarrow> ScaledObject result"
  cl_Update :: "HTTPScaledObject \<Rightarrow> cluster \<Rightarrow> HTTPScaledObject result \<times> cluster"
  cl_StatusUpdate :: "HTTPScaledObject \<Rightarrow> cluster \<Rightarrow> HTTPScaledObject result \<times> cluster"
  cl_Create :: "ScaledObject \<Rightarrow> cluster \<Rightarrow> go_error option \<times> cluster"
  cl_Patch :: "ScaledObject \<Rightarrow> cluster \<Rightarrow> go_error option \<times> cluster"
  cl_Delete :: "ScaledObject \<Rightarrow> cluster \<Rightarrow> go_error option \<times> cluster"

record scheme =
  SchemeIdentifier :: string
  SetControllerReference :: "HTTPScaledObject \<Rightarrow> ScaledObject \<Rightarrow> ScaledObject result"

record HTTPScaledObjectReconciler =
  Client :: client
  Scheme_of :: scheme
  ExternalScalerConfig :: ExternalScaler
  BaseConfig :: Base

definition SaveStatus :: "client \<Rightarrow> HTTPScaledObject \<Rightarrow> cluster \<Rightarrow> HTTPScaledObject \<times> cluster" where
  "SaveStatus cl httpso s =
     (case cl_StatusUpdate cl httpso s of
        (Inl err, s') \<Rightarrow> (httpso, s')
      | (Inr httpso', s') \<Rightarrow> (httpso', s'))"

section \<open>Finalizers\<close>

definition httpScaledObjectFinalizer :: string where
  "httpScaledObjectFinalizer = ''httpscaledobject.http.keda.sh''"

fun contains :: "string list \<Rightarrow> string \<Rightarrow> bool" where
  "contains [] s = False"
| "contains (v # vs) s = (if v = s then True else contains vs s)"

text \<open>\<open>remove\<close> deletes from the array it ranges over: \<open>list\<close> is always the first \<open>len\<close> elements of the array
  \<open>arr\<close>, and \<open>append(list[:i], list[i+1:]...)\<close> moves the elements behind \<open>i\<close> in that array, while the range still runs
  over the indices of the whole array.\<close>

fun remove_loop :: "string \<Rightarrow> nat list \<Rightarrow> string list \<Rightarrow> nat \<Rightarrow> fault + string list" where
  "remove_loop s [] arr len = Inr (take len arr)"
| "remove_loop s (i # is) arr len =
     (if arr ! i = s then
        if i + 1 \<le> len then remove_loop s is (take i arr @ drop (i + 1) (take len arr) @ drop (len - 1) arr) (len - 1)
        else Inl SliceBounds
      else remove_loop s is arr len)"

definition remove :: "string list \<Rightarrow> string \<Rightarrow> fault + string list" where
  "remove list s = remove_loop s [0..<length list] list (length list)"

definition ensureFinalizer :: "client \<Rightarrow> HTTPScaledObject \<Rightarrow> cluster \<Rightarrow> go_error option \<times> HTTPScaledObject \<times> cluster" where
  "ensureFinalizer cl httpso s =
     (if \<not> contains (GetFinalizers httpso) httpScaledObjectFinalizer then
        (let httpso = httpso\<lparr>GetFinalizers := GetFinalizers httpso @ [httpScaledObjectFinalizer]\<rparr>
         in case cl_Update cl httpso s of
              (Inl err, s') \<Rightarrow> (Some err, httpso, s')
            | (Inr httpso', s') \<Rightarrow> (None, httpso', s'))
      else (None, httpso, s))"

definition finalizeScaledObject :: "client \<Rightarrow> HTTPScaledObject \<Rightarrow> cluster \<Rightarrow> fault + (go_error option \<times> cluster)" where
  "finalizeScaledObject cl httpso s =
     (if contains (GetFinalizers httpso) httpScaledObjectFinalizer then
        (case remove (GetFinalizers httpso) httpScaledObjectFinalizer of
           Inl f \<Rightarrow> Inl f
         | Inr finalizers \<Rightarrow>
             (case cl_Update cl (httpso\<lparr>GetFinalizers := finalizers\<rparr>) s of
                (Inl err, s') \<Rightarrow> Inr (Some err, s')
              | (Inr _, s') \<Rightarrow> Inr (None, s')))
      else Inr (None, s))"

section \<open>The scaled object of an application\<close>

definition isOwnerReferenceMatch :: "ScaledObject \<Rightarrow> HTTPScaledObject \<Rightarrow> bool" where
  "isOwnerReferenceMatch scaledObject httpso \<longleftrightarrow>
     list_ex (\<lambda>ownerRef. to_lower (OwnerKind ownerRef) = ''httpscaledobject'' \<and> OwnerName ownerRef = GetName httpso)
       (OwnerReferences scaledObject)"

definition deleteScaledObject :: "client \<Rightarrow> HTTPScaledObject \<Rightarrow> cluster \<Rightarrow> go_error option \<times> cluster" where
  "deleteScaledObject cl httpso s =
     (case cl_GetSO cl (name_of httpso) s of
        Inl err \<Rightarrow> (Some err, s)
      | Inr fetchedSO \<Rightarrow>
          if isOwnerReferenceMatch fetchedSO httpso then (None, snd (cl_Delete cl fetchedSO s)) else (None, s))"

text \<open>\<open>createOrUpdateScaledObject\<close>. The times of the conditions created in one run are an argument \<open>now\<close>, by
  the reason of the condition: no run creates two with the same reason.\<close>

definition appScaledObject :: "HTTPScaledObjectReconciler \<Rightarrow> string \<Rightarrow> HTTPScaledObject \<Rightarrow> ScaledObject" where
  "appScaledObject r externalScalerHostName httpso =
     (let (minReplicaCount, maxReplicaCount) =
            (case Replicas (Spec httpso) of None \<Rightarrow> (None, None) | Some replicas \<Rightarrow> (Min replicas, Max replicas))
      in NewScaledObject (SchemeIdentifier (Scheme_of r)) (GetNamespace httpso) (GetName httpso) (Labels httpso)
           (Annotations httpso) (ScaleTarget (Spec httpso)) externalScalerHostName minReplicaCount maxReplicaCount
           (CooldownPeriod (Spec httpso)) (InitialCooldownPeriod (Spec httpso)))"

definition createOrUpdateScaledObject :: "HTTPScaledObjectReconciler \<Rightarrow> (HTTPScaledObjectConditionReason \<Rightarrow> string) \<Rightarrow>
    client \<Rightarrow> string \<Rightarrow> HTTPScaledObject \<Rightarrow> cluster \<Rightarrow> go_error option \<times> HTTPScaledObject \<times> cluster" where
  "createOrUpdateScaledObject r now cl externalScalerHostName httpso s =
     (case SetControllerReference (Scheme_of r) httpso (appScaledObject r externalScalerHostName httpso) of
        Inl err \<Rightarrow> (Some err, httpso, s)
      | Inr so \<Rightarrow>
          (let created = (\<lambda>s. (None, AddOrUpdateCondition httpso
                 (SetMessage (CreateCondition (now AppScaledObjectCreated) Ready ConditionTrue AppScaledObjectCreated)
                    ''App ScaledObject created''), s))
           in case cl_Create cl so s of
                (None, s) \<Rightarrow> created s
              | (Some err, s) \<Rightarrow>
                  if IsAlreadyExists err then
                    (case cl_GetSO cl \<lparr>Namespace = GetNamespace httpso, NName = SoName so\<rparr> s of
                       Inl err \<Rightarrow> (Some err, httpso, s)
                     | Inr fetchedSO \<Rightarrow>
                         (case cl_Patch cl so s of
                            (Some err, s) \<Rightarrow> (Some err, httpso, s)
                          | (None, s) \<Rightarrow> created s))
                  else (Some err, AddOrUpdateCondition httpso
                    (SetMessage (CreateCondition (now ErrorCreatingAppScaledObject) Ready ConditionFalse ErrorCreatingAppScaledObject)
                       (error_text err)), s)))"

definition SkipScaledObjectCreationAnnotation :: string where
  "SkipScaledObjectCreationAnnotation = ''httpscaledobject.keda.sh/skip-scaledobject-creation''"

definition skips :: "HTTPScaledObject \<Rightarrow> bool" where
  "skips httpso \<longleftrightarrow> map_of (Annotations httpso) SkipScaledObjectCreationAnnotation = Some ''true''"

text \<open>\<open>createOrUpdateApplicationResources\<close> with its deferred \<open>SaveStatus\<close>, which runs on every return.\<close>

definition createOrUpdateApplicationResources :: "HTTPScaledObjectReconciler \<Rightarrow> (HTTPScaledObjectConditionReason \<Rightarrow> string) \<Rightarrow>
    client \<Rightarrow> Base \<Rightarrow> ExternalScaler \<Rightarrow> HTTPScaledObject \<Rightarrow> cluster \<Rightarrow> go_error option \<times> HTTPScaledObject \<times> cluster" where
  "createOrUpdateApplicationResources r now cl baseConfig externalScalerConfig httpso s =
     (let httpso = AddOrUpdateCondition httpso
            (SetMessage (CreateCondition (now PendingCreation) Ready ConditionUnknown PendingCreation)
               ''Identified HTTPScaledObject creation signal'');
          (err, httpso, s) =
            (if skips httpso then (None, httpso, snd (deleteScaledObject cl httpso s))
             else createOrUpdateScaledObject r now cl (HostName externalScalerConfig (CurrentNamespace baseConfig)) httpso s)
      in (err, SaveStatus cl httpso s))"

section \<open>Reconciliation\<close>

record Result =
  RequeueAfter :: duration

definition errMutuallyExclusive :: go_error where
  "errMutuallyExclusive = ErrMsg ''.spec.scalingMetric.concurrency and .spec.scalingMetric.rate are mutually exclusive''"

definition metric_conflict :: "HTTPScaledObject \<Rightarrow> bool" where
  "metric_conflict httpso \<longleftrightarrow>
     (case ScalingMetric (Spec httpso) of None \<Rightarrow> False | Some m \<Rightarrow> ConcurrencyMetric m \<noteq> None \<and> Rate m \<noteq> None)"

definition target_status :: "HTTPScaledObject \<Rightarrow> HTTPScaledObject" where
  "target_status httpso =
     (let ref = ScaleTarget (Spec httpso)
      in httpso\<lparr>HStatus := (HStatus httpso)
           \<lparr>TargetWorkload := APIVersion ref @ ''/'' @ Kind ref @ ''/'' @ Name ref,
            TargetService := Service ref @ '':'' @ itoa (sint (Port ref))\<rparr>\<rparr>)"

definition Reconcile :: "HTTPScaledObjectReconciler \<Rightarrow> (HTTPScaledObjectConditionReason \<Rightarrow> string) \<Rightarrow> NamespacedName \<Rightarrow>
    cluster \<Rightarrow> fault + ((Result \<times> go_error option) \<times> cluster)" where
  "Reconcile r now req s =
     (case cl_GetHTTPSO (Client r) req s of
        Inl err \<Rightarrow>
          if IsNotFound err then Inr ((\<lparr>RequeueAfter = 0\<rparr>, None), s)
          else Inr ((\<lparr>RequeueAfter = 500 * 10 ^ 6\<rparr>, Some err), s)
      | Inr httpso \<Rightarrow>
          if GetDeletionTimestamp httpso \<noteq> None then
            (case finalizeScaledObject (Client r) httpso s of
               Inl f \<Rightarrow> Inl f
             | Inr (err, s) \<Rightarrow> Inr ((\<lparr>RequeueAfter = 0\<rparr>, err), s))
          else
            (case ensureFinalizer (Client r) httpso s of
               (Some err, httpso, s) \<Rightarrow> Inr ((\<lparr>RequeueAfter = 0\<rparr>, Some err), s)
             | (None, httpso, s) \<Rightarrow>
                 (let httpso = target_status httpso
                  in if metric_conflict httpso then Inr ((\<lparr>RequeueAfter = 0\<rparr>, Some errMutuallyExclusive), s)
                     else
                       (case createOrUpdateApplicationResources r now (Client r) (BaseConfig r) (ExternalScalerConfig r) httpso s of
                          (Some err, httpso, s) \<Rightarrow> Inr ((\<lparr>RequeueAfter = 0\<rparr>, Some err), s)
                        | (None, httpso, s) \<Rightarrow>
                            (let (_, s) = SaveStatus (Client r) (AddOrUpdateCondition httpso
                                   (SetMessage (CreateCondition (now HTTPScaledObjectIsReady) Ready ConditionTrue HTTPScaledObjectIsReady)
                                      ''Finished object creation'')) s
                             in Inr ((\<lparr>RequeueAfter = 0\<rparr>, None), s))))))"

section \<open>What triggers a reconciliation\<close>

datatype k8s_object =
    HTTPSOObject HTTPScaledObject
  | SOObject ScaledObject

datatype controller_event =
    CreateEvent k8s_object
  | DeleteEvent k8s_object
  | GenericEvent k8s_object
  | UpdateEvent "k8s_object option" "k8s_object option"

definition ReadyConditionPredicate_Update :: "k8s_object option \<Rightarrow> k8s_object option \<Rightarrow> bool" where
  "ReadyConditionPredicate_Update objectOld objectNew =
     (case (objectOld, objectNew) of
        (Some (HTTPSOObject oldObj), Some (HTTPSOObject newObj)) \<Rightarrow>
          \<not> IsTrue (GetReadyCondition (StatusConditions (HStatus oldObj))) \<and>
          IsTrue (GetReadyCondition (StatusConditions (HStatus newObj)))
      | _ \<Rightarrow> False)"

text \<open>The type assertions of \<open>ScaledObjectSpecChangedPredicate\<close> are unchecked; \<open>deepDerivative\<close> stands for
  \<open>equality.Semantic.DeepDerivative\<close> on the specs.\<close>

definition SpecChangedPredicate_Update :: "(ScaledObject \<Rightarrow> ScaledObject \<Rightarrow> bool) \<Rightarrow> k8s_object option \<Rightarrow> k8s_object option \<Rightarrow> fault + bool" where
  "SpecChangedPredicate_Update deepDerivative objectOld objectNew =
     (case (objectOld, objectNew) of
        (Some (SOObject oldObj), Some (SOObject newObj)) \<Rightarrow> Inr (\<not> deepDerivative newObj oldObj)
      | _ \<Rightarrow> Inl TypeAssertion)"

text \<open>\<open>SetupWithManager\<close>: the events of HTTPScaledObjects and of owned ScaledObjects that are let through. The
  predicates of controller-runtime are arguments; a predicate lets every event but an update pass.\<close>

definition reconciles_httpso :: "(k8s_object option \<Rightarrow> k8s_object option \<Rightarrow> bool) \<Rightarrow> controller_event \<Rightarrow> bool" where
  "reconciles_httpso generationChanged e =
     (case e of
        UpdateEvent old new \<Rightarrow> generationChanged old new \<or> ReadyConditionPredicate_Update old new
      | _ \<Rightarrow> True)"

definition reconciles_owned :: "(k8s_object option \<Rightarrow> k8s_object option \<Rightarrow> bool) \<Rightarrow> (k8s_object option \<Rightarrow> k8s_object option \<Rightarrow> bool) \<Rightarrow>
    (ScaledObject \<Rightarrow> ScaledObject \<Rightarrow> bool) \<Rightarrow> controller_event \<Rightarrow> fault + bool" where
  "reconciles_owned labelChanged annotationChanged deepDerivative e =
     (case e of
        UpdateEvent old new \<Rightarrow>
          if labelChanged old new \<or> annotationChanged old new then Inr True
          else SpecChangedPredicate_Update deepDerivative old new
      | _ \<Rightarrow> Inr True)"

section \<open>Pinging the interceptors\<close>

text \<open>The results that \<open>pingInterceptors\<close> may return: the group reports the error of the request that failed first,
  which may be any that fails. \<open>get\<close> is the HTTP client, \<open>render\<close> the text of a URL.\<close>

definition pingInterceptors :: "(URL \<Rightarrow> string) \<Rightarrow> (string \<Rightarrow> go_error option) \<Rightarrow> GetEndpointsFunc \<Rightarrow> string \<Rightarrow> string \<Rightarrow> string \<Rightarrow>
    go_error option list" where
  "pingInterceptors render get endpointsFn ns interceptorSvcName interceptorPort =
     (case EndpointsForService ns interceptorSvcName interceptorPort endpointsFn of
        Inl err \<Rightarrow> [Some (WrapErr ''pingInterceptors: '' err)]
      | Inr endpointURLs \<Rightarrow>
          (let errs = filter (\<lambda>e. e \<noteq> None) (map (\<lambda>u. get (render u @ ''/routing_ping'')) endpointURLs)
           in if errs = [] then [None] else errs))"

end
