(* ===== verification/Operator_Proofs.thy ===== *)
theory Operator_Proofs
  imports Operator
begin

text \<open>
  Proofs about the operator. The locale \<open>api_server\<close> is what the reconciler relies on, with calls that may fail;
  \<open>reachable_api_server\<close> adds that they do not. The lemmas inside them say what each step of a reconciliation leaves in
  the cluster; both are interpreted for a reconciler whose server keeps its objects in memory. The properties
  are about whole runs of \<open>Reconcile\<close>.
\<close>

section \<open>The contract of the API server\<close>

text \<open>A JSON merge patch made of a whole object: what the object leaves empty is not in the patch and stays.\<close>

definition or_else :: "'a option \<Rightarrow> 'a option \<Rightarrow> 'a option" where
  "or_else new old = (case new of None \<Rightarrow> old | Some x \<Rightarrow> Some x)"

definition text_else :: "'a list \<Rightarrow> 'a list \<Rightarrow> 'a list" where
  "text_else new old = (if new = [] then old else new)"

definition merge_patch :: "ScaledObject \<Rightarrow> ScaledObject \<Rightarrow> ScaledObject" where
  "merge_patch p old = p
     \<lparr>SoLabels := SoLabels old ++ SoLabels p, SoAnnotations := SoAnnotations old ++ SoAnnotations p,
      OwnerReferences := text_else (OwnerReferences p) (OwnerReferences old),
      SoScaleTarget := \<lparr>StAPIVersion = text_else (StAPIVersion (SoScaleTarget p)) (StAPIVersion (SoScaleTarget old)),
        StKind = text_else (StKind (SoScaleTarget p)) (StKind (SoScaleTarget old)), StName = StName (SoScaleTarget p)\<rparr>,
      PollingInterval := or_else (PollingInterval p) (PollingInterval old),
      SoCooldownPeriod := or_else (SoCooldownPeriod p) (SoCooldownPeriod old),
      MinReplicaCount := or_else (MinReplicaCount p) (MinReplicaCount old),
      MaxReplicaCount := or_else (MaxReplicaCount p) (MaxReplicaCount old),
      SoInitialCooldownPeriod := or_else (SoInitialCooldownPeriod p) (SoInitialCooldownPeriod old)\<rparr>"

definition stored_so :: "ScaledObject \<Rightarrow> ScaledObject option \<Rightarrow> ScaledObject" where
  "stored_so so old = (case old of None \<Rightarrow> so | Some o' \<Rightarrow> merge_patch so o')"

lemma or_else_simps [simp]: "or_else a (or_else a b) = or_else a b" "or_else a a = a"
    "text_else x (text_else x y) = text_else x y" "text_else x x = x"
  by (simp_all add: or_else_def text_else_def split: option.split)

lemma map_add_twice [simp]: "m ++ p ++ p = m ++ (p :: 'a \<rightharpoonup> 'b)" "p ++ p = p"
  by (auto simp: map_add_def fun_eq_iff split: option.splits)

lemma merge_patch_idem [simp]: "merge_patch p (merge_patch p old) = merge_patch p old" "merge_patch p p = p"
  by (simp_all add: merge_patch_def del: map_add_assoc)

lemma stored_so_idem [simp]: "stored_so so (Some (stored_so so old)) = stored_so so old"
  by (simp add: stored_so_def split: option.split)

text \<open>An update of an object that is being deleted and has no finalizer left removes the object; an update does not
  touch the status and an update of the status touches nothing else.\<close>

definition updated :: "HTTPScaledObject \<Rightarrow> HTTPScaledObject \<Rightarrow> cluster \<Rightarrow> cluster" where
  "updated old h s = s\<lparr>HSOs := (HSOs s)(name_of h :=
     (if GetDeletionTimestamp old \<noteq> None \<and> GetFinalizers h = [] then None else Some (h\<lparr>HStatus := HStatus old\<rparr>)))\<rparr>"

locale api_server =
  fixes r :: HTTPScaledObjectReconciler
  assumes get_httpso: "cl_GetHTTPSO (Client r) nn s = Inr h \<Longrightarrow> HSOs s nn = Some h"
    and get_so: "cl_GetSO (Client r) nn s = Inr so \<Longrightarrow> SOs s nn = Some so"
    and update_ok: "cl_Update (Client r) h s = (Inr h', s') \<Longrightarrow>
      \<exists>old. HSOs s (name_of h) = Some old \<and> h' = h\<lparr>HStatus := HStatus old\<rparr> \<and> s' = updated old h s"
    and update_err: "cl_Update (Client r) h s = (Inl e, s') \<Longrightarrow> s' = s"
    and status_ok: "cl_StatusUpdate (Client r) h s = (Inr h', s') \<Longrightarrow>
      \<exists>old. HSOs s (name_of h) = Some old \<and> h' = old\<lparr>HStatus := HStatus h\<rparr> \<and> s' = s\<lparr>HSOs := (HSOs s)(name_of h \<mapsto> h')\<rparr>"
    and status_err: "cl_StatusUpdate (Client r) h s = (Inl e, s') \<Longrightarrow> s' = s"
    and create_ok: "cl_Create (Client r) so s = (None, s') \<Longrightarrow> SOs s (so_name so) = None \<and> s' = s\<lparr>SOs := (SOs s)(so_name so \<mapsto> so)\<rparr>"
    and create_err: "cl_Create (Client r) so s = (Some e, s') \<Longrightarrow> s' = s"
    and patch_ok: "cl_Patch (Client r) so s = (None, s') \<Longrightarrow>
      \<exists>old. SOs s (so_name so) = Some old \<and> s' = s\<lparr>SOs := (SOs s)(so_name so \<mapsto> merge_patch so old)\<rparr>"
    and patch_err: "cl_Patch (Client r) so s = (Some e, s') \<Longrightarrow> s' = s"
    and delete_ok: "cl_Delete (Client r) so s = (None, s') \<Longrightarrow> s' = s\<lparr>SOs := (SOs s)(so_name so := None)\<rparr>"
    and delete_err: "cl_Delete (Client r) so s = (Some e, s') \<Longrightarrow> s' = s"
    and set_owner: "SetControllerReference (Scheme_of r) h so = Inr so' \<Longrightarrow> OwnerReferences so = [] \<Longrightarrow>
      so' = so\<lparr>OwnerReferences := [\<lparr>OwnerKind = ''HTTPScaledObject'', OwnerName = GetName h\<rparr>]\<rparr>"

text \<open>A server that can be reached and that nobody else writes to.\<close>

locale reachable_api_server = api_server +
  assumes get_httpso_stored: "HSOs s nn = Some h \<Longrightarrow> cl_GetHTTPSO (Client r) nn s = Inr h"
    and get_so_stored: "SOs s nn = Some so \<Longrightarrow> cl_GetSO (Client r) nn s = Inr so"
    and get_so_missing: "SOs s nn = None \<Longrightarrow> isl (cl_GetSO (Client r) nn s)"
    and update_stored: "HSOs s (name_of h) \<noteq> None \<Longrightarrow> \<not> isl (fst (cl_Update (Client r) h s))"
    and status_stored: "HSOs s (name_of h) \<noteq> None \<Longrightarrow> \<not> isl (fst (cl_StatusUpdate (Client r) h s))"
    and create_missing: "SOs s (so_name so) = None \<Longrightarrow> fst (cl_Create (Client r) so s) = None"
    and create_stored: "SOs s (so_name so) \<noteq> None \<Longrightarrow> \<exists>e. fst (cl_Create (Client r) so s) = Some e \<and> IsAlreadyExists e"
    and patch_stored: "SOs s (so_name so) \<noteq> None \<Longrightarrow> fst (cl_Patch (Client r) so s) = None"
    and delete_stored: "SOs s (so_name so) \<noteq> None \<Longrightarrow> fst (cl_Delete (Client r) so s) = None"
    and owner_settable: "OwnerReferences so = [] \<Longrightarrow> SoNamespace so = GetNamespace h \<Longrightarrow> \<not> isl (SetControllerReference (Scheme_of r) h so)"

text \<open>Objects are stored under their names.\<close>

definition keyed :: "cluster \<Rightarrow> bool" where
  "keyed s \<longleftrightarrow> (\<forall>nn h. HSOs s nn = Some h \<longrightarrow> name_of h = nn) \<and> (\<forall>nn so. SOs s nn = Some so \<longrightarrow> so_name so = nn)"

section \<open>Lemmas\<close>

lemma contains_iff [simp]: "contains xs s \<longleftrightarrow> s \<in> set xs"
  by (induction xs) auto

lemma update_loop_eq: "update_loop c cs = (Reason c \<in> Reason ` set cs, map (\<lambda>x. if Reason x = Reason c then c else x) cs)"
  by (induction cs) auto

text \<open>The conditions after \<open>AddOrUpdateCondition\<close>.\<close>

definition add_condition :: "HTTPScaledObjectCondition \<Rightarrow> Conditions \<Rightarrow> HTTPScaledObjectCondition list" where
  "add_condition c conds = (let cs = (case conds of None \<Rightarrow> [] | Some cs \<Rightarrow> cs)
     in if Reason c \<in> Reason ` set cs then map (\<lambda>x. if Reason x = Reason c then c else x) cs else cs @ [c])"

lemma AddOrUpdateCondition_eq:
  "AddOrUpdateCondition h c = h\<lparr>HStatus := (HStatus h)\<lparr>StatusConditions := Some (add_condition c (StatusConditions (HStatus h)))\<rparr>\<rparr>"
proof -
  have "map (\<lambda>x. if Reason x = Reason c then c else x) cs = cs" if "Reason c \<notin> Reason ` set cs" for cs
    using that by (induction cs) auto
  then show ?thesis by (simp add: AddOrUpdateCondition_def add_condition_def update_loop_eq Let_def)
qed

lemma add_condition_mem: "c \<in> set (add_condition c conds)"
  by (auto simp: add_condition_def Let_def image_iff)

lemma AddOrUpdateCondition_fields [simp]:
  "GetName (AddOrUpdateCondition h c) = GetName h" "GetNamespace (AddOrUpdateCondition h c) = GetNamespace h"
  "Spec (AddOrUpdateCondition h c) = Spec h" "Annotations (AddOrUpdateCondition h c) = Annotations h"
  "Labels (AddOrUpdateCondition h c) = Labels h" "skips (AddOrUpdateCondition h c) = skips h"
  "HStatus (AddOrUpdateCondition h c) = (HStatus h)\<lparr>StatusConditions := Some (add_condition c (StatusConditions (HStatus h)))\<rparr>"
  by (simp_all add: AddOrUpdateCondition_eq skips_def)

lemma target_status_fields [simp]:
  "GetName (target_status h) = GetName h" "GetNamespace (target_status h) = GetNamespace h"
  "Spec (target_status h) = Spec h" "Annotations (target_status h) = Annotations h" "Labels (target_status h) = Labels h"
  "StatusConditions (HStatus (target_status h)) = StatusConditions (HStatus h)" "skips (target_status h) = skips h"
  "metric_conflict (target_status h) = metric_conflict h"
  by (simp_all add: target_status_def skips_def metric_conflict_def Let_def)

text \<open>The scaled object that belongs to an HTTPScaledObject, with its owner.\<close>

definition wanted_so :: "HTTPScaledObjectReconciler \<Rightarrow> HTTPScaledObject \<Rightarrow> ScaledObject" where
  "wanted_so r h = (appScaledObject r (HostName (ExternalScalerConfig r) (CurrentNamespace (BaseConfig r))) h)
     \<lparr>OwnerReferences := [\<lparr>OwnerKind = ''HTTPScaledObject'', OwnerName = GetName h\<rparr>]\<rparr>"

lemma wanted_so_cong:
  assumes "GetName h = GetName h'" "GetNamespace h = GetNamespace h'" "Labels h = Labels h'" "Annotations h = Annotations h'" "Spec h = Spec h'"
  shows "wanted_so r h = wanted_so r h'" "skips h = skips h'" "metric_conflict h = metric_conflict h'"
  using assms by (simp_all add: wanted_so_def appScaledObject_def skips_def metric_conflict_def)

lemma so_name_app [simp]: "so_name (appScaledObject r host h) = name_of h" "OwnerReferences (appScaledObject r host h) = []"
    "SoNamespace (appScaledObject r host h) = GetNamespace h" "SoName (appScaledObject r host h) = GetName h"
  by (auto simp: appScaledObject_def NewScaledObject_def so_name_def Let_def split: option.splits)

lemma so_name_owner [simp]: "so_name (so\<lparr>OwnerReferences := x\<rparr>) = so_name so"
  by (simp add: so_name_def)

definition ensured :: "string list \<Rightarrow> string list" where
  "ensured fs = (if httpScaledObjectFinalizer \<in> set fs then fs else fs @ [httpScaledObjectFinalizer])"

context api_server
begin

lemma SaveStatus_cases:
  "SaveStatus (Client r) h s = (h, s) \<or>
   (\<exists>old. HSOs s (name_of h) = Some old \<and> SaveStatus (Client r) h s =
      (old\<lparr>HStatus := HStatus h\<rparr>, s\<lparr>HSOs := (HSOs s)(name_of h \<mapsto> old\<lparr>HStatus := HStatus h\<rparr>)\<rparr>))"
proof (cases "cl_StatusUpdate (Client r) h s")
  case (Pair x s')
  then show ?thesis using status_ok [of h s _ s'] status_err [of h s _ s'] by (cases x) (auto simp: SaveStatus_def)
qed

lemma SaveStatus_SOs [simp]: "SOs (snd (SaveStatus (Client r) h s)) = SOs s"
  using SaveStatus_cases [of h s] by auto

lemma ensureFinalizer_ok:
  assumes "ensureFinalizer (Client r) h s = (None, h', s')" "HSOs s (name_of h) = Some h" "GetDeletionTimestamp h = None"
  shows "h' = h\<lparr>GetFinalizers := ensured (GetFinalizers h)\<rparr> \<and> s' = s\<lparr>HSOs := (HSOs s)(name_of h \<mapsto> h')\<rparr>"
proof (cases "httpScaledObjectFinalizer \<in> set (GetFinalizers h)")
  case True
  with assms show ?thesis by (auto simp: ensureFinalizer_def ensured_def fun_upd_idem)
next
  case False
  let ?h = "h\<lparr>GetFinalizers := GetFinalizers h @ [httpScaledObjectFinalizer]\<rparr>"
  obtain x where x: "cl_Update (Client r) ?h s = (x, s')" using assms(1) False by (auto simp: ensureFinalizer_def Let_def split: prod.splits sum.splits)
  with assms(1) False have "x = Inr h'" by (auto simp: ensureFinalizer_def Let_def split: sum.splits)
  with update_ok [of ?h s h' s'] x assms(2,3) False show ?thesis by (auto simp: ensured_def updated_def)
qed

lemma createOrUpdateScaledObject_ok:
  assumes "createOrUpdateScaledObject r now (Client r) host h s = (None, h', s')"
    "so = (appScaledObject r host h)\<lparr>OwnerReferences := [\<lparr>OwnerKind = ''HTTPScaledObject'', OwnerName = GetName h\<rparr>]\<rparr>"
  shows "s' = s\<lparr>SOs := (SOs s)(name_of h \<mapsto> stored_so so (SOs s (name_of h)))\<rparr> \<and> h' = AddOrUpdateCondition h
    (SetMessage (CreateCondition (now AppScaledObjectCreated) Ready ConditionTrue AppScaledObjectCreated) ''App ScaledObject created'')"
proof -
  have name: "so_name so = name_of h" by (simp add: assms(2))
  obtain so' where ref: "SetControllerReference (Scheme_of r) h (appScaledObject r host h) = Inr so'"
    using assms(1) by (auto simp: createOrUpdateScaledObject_def split: sum.splits)
  have so': "so' = so" using set_owner [OF ref] assms(2) by simp
  obtain e s1 where cr: "cl_Create (Client r) so s = (e, s1)" by (cases "cl_Create (Client r) so s")
  show ?thesis
  proof (cases e)
    case None
    with cr create_ok [of so s s1] assms(1) ref so' name show ?thesis
      by (auto simp: createOrUpdateScaledObject_def Let_def stored_so_def)
  next
    case (Some err)
    then have s1: "s1 = s" using create_err cr by simp
    obtain p s2 where pa: "cl_Patch (Client r) so s = (p, s2)" by (cases "cl_Patch (Client r) so s")
    from assms(1) ref so' cr Some s1 pa have "p = None" "s' = s2" "h' = AddOrUpdateCondition h
        (SetMessage (CreateCondition (now AppScaledObjectCreated) Ready ConditionTrue AppScaledObjectCreated) ''App ScaledObject created'')"
      by (auto simp: createOrUpdateScaledObject_def Let_def split: if_splits sum.splits option.splits)
    with pa patch_ok [of so s s2] name show ?thesis by (auto simp: stored_so_def)
  qed
qed

end

context api_server
begin

text \<open>What a run without an error leaves of the scaled objects.\<close>

lemma Reconcile_ok:
  assumes run: "Reconcile r now nn s = Inr ((res, None), s')"
    and h: "HSOs s nn = Some h" "name_of h = nn" "GetDeletionTimestamp h = None" and get: "cl_GetHTTPSO (Client r) nn s = Inr h"
    and wanted: "\<not> skips h"
  shows "SOs s' = (SOs s)(nn \<mapsto> stored_so (wanted_so r h) (SOs s nn))"
proof -
  obtain h1 s1 where e: "ensureFinalizer (Client r) h s = (None, h1, s1)"
    using run h get by (auto simp: Reconcile_def split: prod.splits option.splits)
  have h1: "h1 = h\<lparr>GetFinalizers := ensured (GetFinalizers h)\<rparr>" and s1: "SOs s1 = SOs s"
    using ensureFinalizer_ok [OF e] h by auto
  let ?p = "SetMessage (CreateCondition (now PendingCreation) Ready ConditionUnknown PendingCreation)
               ''Identified HTTPScaledObject creation signal''"
  let ?h = "AddOrUpdateCondition (target_status h1) ?p"
  let ?host = "HostName (ExternalScalerConfig r) (CurrentNamespace (BaseConfig r))"
  obtain h2 s2 where c: "createOrUpdateScaledObject r now (Client r) ?host ?h s1 = (None, h2, s2)" and s': "SOs s' = SOs s2"
    using run h get e wanted h1
    by (auto simp: Reconcile_def Let_def createOrUpdateApplicationResources_def skips_def split: prod.splits option.splits if_splits
        dest!: arg_cong [where f = "\<lambda>x. SOs (snd x)"])
  have "(appScaledObject r ?host ?h)\<lparr>OwnerReferences := [\<lparr>OwnerKind = ''HTTPScaledObject'', OwnerName = GetName ?h\<rparr>]\<rparr> = wanted_so r h"
    by (simp add: wanted_so_def appScaledObject_def h1)
  with createOrUpdateScaledObject_ok [OF c refl] s' s1 h h1 show ?thesis by simp
qed

end

context reachable_api_server
begin

lemma SaveStatus_stored:
  assumes "HSOs s (name_of h) = Some old"
  shows "SaveStatus (Client r) h s =
    (old\<lparr>HStatus := HStatus h\<rparr>, s\<lparr>HSOs := (HSOs s)(name_of h \<mapsto> old\<lparr>HStatus := HStatus h\<rparr>)\<rparr>)"
proof (cases "cl_StatusUpdate (Client r) h s")
  case (Pair x s')
  with assms status_stored [of s h] status_ok [of h s _ s'] show ?thesis by (cases x) (auto simp: SaveStatus_def)
qed

lemma ensureFinalizer_stored:
  assumes "HSOs s (name_of h) = Some h" "GetDeletionTimestamp h = None"
  shows "ensureFinalizer (Client r) h s = (None, h\<lparr>GetFinalizers := ensured (GetFinalizers h)\<rparr>,
    s\<lparr>HSOs := (HSOs s)(name_of h \<mapsto> h\<lparr>GetFinalizers := ensured (GetFinalizers h)\<rparr>)\<rparr>)"
proof -
  have "fst (ensureFinalizer (Client r) h s) = None"
    using assms update_stored [of s "h\<lparr>GetFinalizers := GetFinalizers h @ [httpScaledObjectFinalizer]\<rparr>"]
    by (auto simp: ensureFinalizer_def Let_def split: prod.splits sum.splits)
  then show ?thesis using ensureFinalizer_ok [of h s] assms by (metis prod.collapse)
qed

lemma createOrUpdateScaledObject_stored: "fst (createOrUpdateScaledObject r now (Client r) host h s) = None"
proof -
  let ?so = "appScaledObject r host h"
  obtain so where ref: "SetControllerReference (Scheme_of r) h ?so = Inr so"
    using owner_settable [of ?so h] by (cases "SetControllerReference (Scheme_of r) h ?so") auto
  have so: "so_name so = name_of h" "SoName so = GetName h" using set_owner [OF ref] by simp_all
  obtain e s1 where cr: "cl_Create (Client r) so s = (e, s1)" by (cases "cl_Create (Client r) so s")
  show ?thesis
  proof (cases "SOs s (name_of h)")
    case None
    with create_missing [of s so] cr so ref show ?thesis by (simp add: createOrUpdateScaledObject_def Let_def)
  next
    case (Some old)
    obtain err where e: "e = Some err" "IsAlreadyExists err" "s1 = s"
      using create_stored [of s so] create_err [of so s _ s1] cr so Some by auto
    have "cl_GetSO (Client r) (name_of h) s = Inr old" using get_so_stored Some by simp
    moreover have "fst (cl_Patch (Client r) so s) = None" using patch_stored [of s so] so Some by simp
    ultimately show ?thesis
      using ref cr e so by (auto simp: createOrUpdateScaledObject_def Let_def split: prod.splits option.splits)
  qed
qed

lemma deleteScaledObject_stored:
  assumes "keyed s"
  shows "snd (deleteScaledObject (Client r) h s) = s\<lparr>SOs := (case SOs s (name_of h) of
      Some so \<Rightarrow> if isOwnerReferenceMatch so h then (SOs s)(name_of h := None) else SOs s | None \<Rightarrow> SOs s)\<rparr>"
proof (cases "SOs s (name_of h)")
  case None
  then show ?thesis using get_so_missing [of s "name_of h"] by (auto simp: deleteScaledObject_def split: sum.splits)
next
  case (Some so)
  then have "so_name so = name_of h" using assms by (auto simp: keyed_def)
  moreover obtain d s1 where d: "cl_Delete (Client r) so s = (d, s1)" by (cases "cl_Delete (Client r) so s")
  ultimately have "s1 = s\<lparr>SOs := (SOs s)(name_of h := None)\<rparr>"
    using delete_stored [of s so] delete_ok [of so s s1] Some by auto
  with Some get_so_stored [of s "name_of h" so] d show ?thesis by (auto simp: deleteScaledObject_def)
qed

end

text \<open>The scaled objects after the reconciliation of an HTTPScaledObject, and its status.\<close>

definition scaled_objects :: "HTTPScaledObjectReconciler \<Rightarrow> HTTPScaledObject \<Rightarrow> (NamespacedName \<rightharpoonup> ScaledObject) \<Rightarrow> (NamespacedName \<rightharpoonup> ScaledObject)" where
  "scaled_objects r h sos =
     (if skips h then
        (case sos (name_of h) of
           Some so \<Rightarrow> if isOwnerReferenceMatch so h then sos(name_of h := None) else sos
         | None \<Rightarrow> sos)
      else sos(name_of h \<mapsto> stored_so (wanted_so r h) (sos (name_of h))))"

definition reports_ready :: "HTTPScaledObject \<Rightarrow> HTTPScaledObjectStatus \<Rightarrow> bool" where
  "reports_ready h st \<longleftrightarrow>
     TargetWorkload st = TargetWorkload (HStatus (target_status h)) \<and> TargetService st = TargetService (HStatus (target_status h)) \<and>
     (case StatusConditions st of None \<Rightarrow> False
      | Some cs \<Rightarrow> list_ex (\<lambda>c. Reason c = HTTPScaledObjectIsReady \<and> Type c = Ready \<and> Status c = ConditionTrue) cs)"

context reachable_api_server
begin

lemma application_stored:
  assumes "HSOs s (name_of h) = Some old" "keyed s"
  shows "\<exists>cs. createOrUpdateApplicationResources r now (Client r) (BaseConfig r) (ExternalScalerConfig r) h s =
    (None, old\<lparr>HStatus := (HStatus h)\<lparr>StatusConditions := Some cs\<rparr>\<rparr>,
     s\<lparr>HSOs := (HSOs s)(name_of h \<mapsto> old\<lparr>HStatus := (HStatus h)\<lparr>StatusConditions := Some cs\<rparr>\<rparr>),
       SOs := scaled_objects r h (SOs s)\<rparr>)"
proof -
  let ?p = "SetMessage (CreateCondition (now PendingCreation) Ready ConditionUnknown PendingCreation)
               ''Identified HTTPScaledObject creation signal''"
  let ?h = "AddOrUpdateCondition h ?p"
  let ?host = "HostName (ExternalScalerConfig r) (CurrentNamespace (BaseConfig r))"
  show ?thesis
  proof (cases "skips h")
    case True
    have "isOwnerReferenceMatch so ?h = isOwnerReferenceMatch so h" for so by (simp add: isOwnerReferenceMatch_def)
    then have "snd (deleteScaledObject (Client r) ?h s) = s\<lparr>SOs := scaled_objects r h (SOs s)\<rparr>"
      using deleteScaledObject_stored [OF assms(2), of ?h] True by (simp add: scaled_objects_def split: option.split)
    with True assms(1) show ?thesis
      by (auto simp: createOrUpdateApplicationResources_def Let_def SaveStatus_stored)
  next
    case False
    obtain h2 s2 where c: "createOrUpdateScaledObject r now (Client r) ?host ?h s = (None, h2, s2)"
      using createOrUpdateScaledObject_stored [of now ?host ?h s] by (metis prod.collapse)
    have "(appScaledObject r ?host ?h)\<lparr>OwnerReferences := [\<lparr>OwnerKind = ''HTTPScaledObject'', OwnerName = GetName ?h\<rparr>]\<rparr> = wanted_so r h"
      by (simp add: wanted_so_def appScaledObject_def)
    with createOrUpdateScaledObject_ok [OF c refl] False assms(1) c show ?thesis
      by (auto simp: createOrUpdateApplicationResources_def Let_def SaveStatus_stored scaled_objects_def)
  qed
qed

lemma Reconcile_stored:
  assumes "HSOs s nn = Some h" "keyed s" "GetDeletionTimestamp h = None" "\<not> metric_conflict h"
  shows "\<exists>st. Reconcile r now nn s = Inr ((\<lparr>RequeueAfter = 0\<rparr>, None),
      s\<lparr>HSOs := (HSOs s)(nn \<mapsto> h\<lparr>GetFinalizers := ensured (GetFinalizers h), HStatus := st\<rparr>), SOs := scaled_objects r h (SOs s)\<rparr>) \<and>
    reports_ready h st"
proof -
  have nn: "name_of h = nn" using assms(1,2) by (auto simp: keyed_def)
  let ?h1 = "h\<lparr>GetFinalizers := ensured (GetFinalizers h)\<rparr>"
  let ?s1 = "s\<lparr>HSOs := (HSOs s)(nn \<mapsto> ?h1)\<rparr>"
  have e: "ensureFinalizer (Client r) h s = (None, ?h1, ?s1)" using ensureFinalizer_stored [of s h] assms nn by simp
  have keyed: "keyed ?s1" using assms(2) nn by (auto simp: keyed_def)
  have so: "scaled_objects r (target_status ?h1) (SOs s) = scaled_objects r h (SOs s)"
    by (simp add: scaled_objects_def wanted_so_def appScaledObject_def isOwnerReferenceMatch_def skips_def split: option.split)
  obtain cs where a: "createOrUpdateApplicationResources r now (Client r) (BaseConfig r) (ExternalScalerConfig r) (target_status ?h1) ?s1 =
    (None, ?h1\<lparr>HStatus := (HStatus (target_status ?h1))\<lparr>StatusConditions := Some cs\<rparr>\<rparr>,
     s\<lparr>HSOs := (HSOs s)(nn \<mapsto> ?h1\<lparr>HStatus := (HStatus (target_status ?h1))\<lparr>StatusConditions := Some cs\<rparr>\<rparr>),
       SOs := scaled_objects r h (SOs s)\<rparr>)"
    using application_stored [of ?s1 "target_status ?h1" ?h1 now] nn keyed so by auto
  have "\<not> metric_conflict ?h1" using assms(4) by (simp add: metric_conflict_def)
  let ?c = "SetMessage (CreateCondition (now HTTPScaledObjectIsReady) Ready ConditionTrue HTTPScaledObjectIsReady) ''Finished object creation''"
  let ?st = "(HStatus (target_status ?h1))\<lparr>StatusConditions := Some (add_condition ?c (Some cs))\<rparr>"
  have "Reconcile r now nn s = Inr ((\<lparr>RequeueAfter = 0\<rparr>, None),
      s\<lparr>HSOs := (HSOs s)(nn \<mapsto> h\<lparr>GetFinalizers := ensured (GetFinalizers h), HStatus := ?st\<rparr>), SOs := scaled_objects r h (SOs s)\<rparr>)"
    using e a assms nn get_httpso_stored [of s nn h] \<open>\<not> metric_conflict ?h1\<close> by (simp add: Reconcile_def Let_def SaveStatus_stored)
  moreover have "reports_ready h ?st"
    using add_condition_mem [of ?c "Some cs"]
    by (auto simp: reports_ready_def target_status_def Let_def list_ex_iff SetMessage_def CreateCondition_def intro!: bexI [of _ ?c])
  ultimately show ?thesis by blast
qed

end

section \<open>The conditions of an object\<close>

text \<open>The conditions the operator writes: at most one per reason, all of type \<open>Ready\<close>, and the one of a pending
  creation first.\<close>

definition conditions_ok :: "Conditions \<Rightarrow> bool" where
  "conditions_ok conds =
     (case conds of
        None \<Rightarrow> True
      | Some cs \<Rightarrow> distinct (map Reason cs) \<and> list_all (\<lambda>c. Type c = Ready \<and> (Reason c = PendingCreation \<longrightarrow> Status c = ConditionUnknown)) cs \<and>
          (cs = [] \<or> Reason (hd cs) = PendingCreation))"

definition statuses_ok :: "cluster \<Rightarrow> bool" where
  "statuses_ok s \<longleftrightarrow> (\<forall>nn h. HSOs s nn = Some h \<longrightarrow> conditions_ok (StatusConditions (HStatus h)))"

abbreviation h_ok :: "HTTPScaledObject \<Rightarrow> bool" where
  "h_ok h \<equiv> conditions_ok (StatusConditions (HStatus h))"

lemma add_condition_Reasons: "map Reason (add_condition c (Some cs)) = (if Reason c \<in> Reason ` set cs then map Reason cs else map Reason cs @ [Reason c])"
  by (auto simp: add_condition_def Let_def)

lemma add_condition_set: "set (add_condition c (Some cs)) \<subseteq> insert c (set cs)"
  by (auto simp: add_condition_def Let_def)

lemma conditions_ok_add:
  assumes "conditions_ok conds" "Type c = Ready" "Reason c = PendingCreation \<longrightarrow> Status c = ConditionUnknown"
    "Reason c = PendingCreation \<or> (\<exists>x xs. conds = Some (x # xs))"
  shows "conditions_ok (Some (add_condition c conds)) \<and> add_condition c conds \<noteq> []"
proof -
  define cs where "cs = (case conds of None \<Rightarrow> [] | Some cs \<Rightarrow> cs)"
  have add: "add_condition c conds = add_condition c (Some cs)" by (simp add: cs_def add_condition_def)
  have ok: "conditions_ok (Some cs)" using assms(1) by (simp add: cs_def conditions_ok_def split: option.splits)
  have ne: "add_condition c (Some cs) \<noteq> []" using add_condition_mem [of c "Some cs"] by force
  have "hd (map Reason (add_condition c (Some cs))) = PendingCreation"
    using ok assms(4) by (cases cs) (auto simp: add_condition_Reasons conditions_ok_def cs_def)
  then have "Reason (hd (add_condition c (Some cs))) = PendingCreation" using ne by (simp add: hd_map)
  moreover have "distinct (map Reason (add_condition c (Some cs)))"
    using ok by (auto simp: add_condition_Reasons conditions_ok_def)
  moreover have "list_all (\<lambda>c. Type c = Ready \<and> (Reason c = PendingCreation \<longrightarrow> Status c = ConditionUnknown)) (add_condition c (Some cs))"
    using ok assms(2,3) add_condition_set [of c cs] by (auto simp: conditions_ok_def list_all_iff)
  ultimately show ?thesis using ne by (simp add: add conditions_ok_def)
qed

text \<open>The same for an object, whose conditions become non-empty with the first one added.\<close>

definition started :: "HTTPScaledObject \<Rightarrow> bool" where
  "started h \<longleftrightarrow> h_ok h \<and> (\<exists>c cs. StatusConditions (HStatus h) = Some (c # cs))"

lemma started_add:
  assumes "h_ok h" "reason = PendingCreation \<and> st = ConditionUnknown \<or> started h \<and> reason \<noteq> PendingCreation"
  shows "started (AddOrUpdateCondition h (SetMessage (CreateCondition now Ready st reason) m))"
proof -
  let ?c = "SetMessage (CreateCondition now Ready st reason) m"
  have "conditions_ok (Some (add_condition ?c (StatusConditions (HStatus h)))) \<and> add_condition ?c (StatusConditions (HStatus h)) \<noteq> []"
    using assms by (intro conditions_ok_add) (auto simp: SetMessage_def CreateCondition_def started_def)
  then show ?thesis by (auto simp: started_def neq_Nil_conv)
qed

lemma started_ok: "started h \<Longrightarrow> h_ok h"
  by (simp add: started_def)

lemma h_ok_not_ready: "h_ok h \<Longrightarrow> \<not> IsTrue (GetReadyCondition (StatusConditions (HStatus h)))"
proof (cases "StatusConditions (HStatus h)")
  case None
  then show ?thesis by (simp add: IsTrue_def GetReadyCondition_def getCondition_def GetInitializedConditions_def noCondition_def)
next
  case (Some cs)
  then show "h_ok h \<Longrightarrow> ?thesis"
    by (cases cs) (auto simp: IsTrue_def GetReadyCondition_def getCondition_def noCondition_def conditions_ok_def)
qed

context api_server
begin

lemma SaveStatus_ok: "statuses_ok s \<Longrightarrow> h_ok h \<Longrightarrow> SaveStatus (Client r) h s = (h', s') \<Longrightarrow> statuses_ok s' \<and> HStatus h' = HStatus h"
  using SaveStatus_cases [of h s] by (auto simp: statuses_ok_def split: if_splits)

lemma SaveStatus_statuses: "statuses_ok s \<Longrightarrow> h_ok h \<Longrightarrow> statuses_ok (snd (SaveStatus (Client r) h s))"
  using SaveStatus_ok [of s h] by (cases "SaveStatus (Client r) h s") simp

lemma update_statuses: "statuses_ok s \<Longrightarrow> cl_Update (Client r) h s = (x, s') \<Longrightarrow> statuses_ok s' \<and> (\<forall>h'. x = Inr h' \<longrightarrow> h_ok h')"
  using update_ok [of h s _ s'] update_err [of h s _ s']
  by (cases x) (auto simp: statuses_ok_def updated_def split: if_splits)

lemma ensureFinalizer_statuses:
  assumes "statuses_ok s" "h_ok h" "ensureFinalizer (Client r) h s = (e, h', s')"
  shows "statuses_ok s' \<and> (e = None \<longrightarrow> h_ok h')"
  using assms update_statuses by (fastforce simp: ensureFinalizer_def Let_def split: if_splits prod.splits sum.splits)

lemma finalizeScaledObject_statuses: "statuses_ok s \<Longrightarrow> finalizeScaledObject (Client r) h s = Inr (e, s') \<Longrightarrow> statuses_ok s'"
  using update_statuses by (fastforce simp: finalizeScaledObject_def split: if_splits prod.splits sum.splits)

lemma createOrUpdateScaledObject_statuses:
  assumes "started h" "createOrUpdateScaledObject r now (Client r) host h s = (e, h', s')"
  shows "started h' \<and> HSOs s' = HSOs s"
proof -
  have add: "started (AddOrUpdateCondition h (SetMessage (CreateCondition t Ready st reason) m))" if "reason \<noteq> PendingCreation" for t st reason m
    using started_add [of h reason st t m] that assms(1) by (simp add: started_ok)
  have cr: "HSOs s2 = HSOs s1" if "cl_Create (Client r) so s1 = (x, s2)" for so s1 s2 x
    using that create_ok [of so s1 s2] create_err [of so s1 _ s2] by (cases x) auto
  have pa: "HSOs s2 = HSOs s1" if "cl_Patch (Client r) so s1 = (x, s2)" for so s1 s2 x
    using that patch_ok [of so s1 s2] patch_err [of so s1 _ s2] by (cases x) auto
  show ?thesis
    using assms add [of AppScaledObjectCreated] add [of ErrorCreatingAppScaledObject]
    by (auto simp: createOrUpdateScaledObject_def Let_def dest!: cr pa split: sum.splits prod.splits option.splits if_splits)
qed

lemma deleteScaledObject_HSOs: "HSOs (snd (deleteScaledObject (Client r) h s)) = HSOs s"
proof -
  have "HSOs (snd (cl_Delete (Client r) so s)) = HSOs s" for so
    using delete_ok [of so s] delete_err [of so s] by (cases "cl_Delete (Client r) so s"; cases "fst (cl_Delete (Client r) so s)") auto
  then show ?thesis by (auto simp: deleteScaledObject_def split: sum.splits)
qed

lemma application_statuses:
  assumes "statuses_ok s" "h_ok h"
    "createOrUpdateApplicationResources r now (Client r) (BaseConfig r) (ExternalScalerConfig r) h s = (e, h', s')"
  shows "statuses_ok s' \<and> started h'"
proof -
  let ?h = "AddOrUpdateCondition h (SetMessage (CreateCondition (now PendingCreation) Ready ConditionUnknown PendingCreation)
               ''Identified HTTPScaledObject creation signal'')"
  have h: "started ?h" using started_add [of h PendingCreation ConditionUnknown] assms(2) by simp
  obtain h1 s1 where a: "started h1" "HSOs s1 = HSOs s" "SaveStatus (Client r) h1 s1 = (h', s')"
  proof (cases "skips h")
    case True
    with assms(3) h show thesis
      using that [of ?h "snd (deleteScaledObject (Client r) ?h s)"]
      by (auto simp: createOrUpdateApplicationResources_def Let_def deleteScaledObject_HSOs)
  next
    case False
    let ?c = "createOrUpdateScaledObject r now (Client r) (HostName (ExternalScalerConfig r) (CurrentNamespace (BaseConfig r))) ?h s"
    obtain h1 s1 where c: "?c = (e, h1, s1)" "SaveStatus (Client r) h1 s1 = (h', s')"
      using assms(3) False by (cases ?c) (auto simp: createOrUpdateApplicationResources_def Let_def)
    from createOrUpdateScaledObject_statuses [OF h c(1)] c(2) show thesis by (intro that) auto
  qed
  then have "statuses_ok s1" using assms(1) by (simp add: statuses_ok_def)
  with SaveStatus_ok [of s1 h1 h' s'] a started_ok [of h1] show ?thesis by (auto simp: started_def)
qed

lemma Reconcile_statuses:
  assumes "statuses_ok s" "Reconcile r now nn s = Inr (res, s')"
  shows "statuses_ok s'"
proof (cases "cl_GetHTTPSO (Client r) nn s")
  case (Inl e)
  with assms show ?thesis by (auto simp: Reconcile_def split: if_splits)
next
  case (Inr h)
  then have h: "h_ok h" using assms(1) get_httpso [OF Inr] by (auto simp: statuses_ok_def)
  show ?thesis
  proof (cases "GetDeletionTimestamp h")
    case (Some t)
    with assms Inr finalizeScaledObject_statuses [of s h] show ?thesis by (auto simp: Reconcile_def split: sum.splits)
  next
    case None
    obtain e h1 s1 where e: "ensureFinalizer (Client r) h s = (e, h1, s1)" by (cases "ensureFinalizer (Client r) h s")
    note ok = ensureFinalizer_statuses [OF assms(1) h e]
    let ?a = "createOrUpdateApplicationResources r now (Client r) (BaseConfig r) (ExternalScalerConfig r) (target_status h1) s1"
    obtain e2 h2 s2 where a: "?a = (e2, h2, s2)" by (cases ?a)
    show ?thesis
    proof (cases "e = None \<and> \<not> metric_conflict h1")
      case False
      with assms(2) Inr None e ok show ?thesis by (cases e) (simp_all add: Reconcile_def Let_def)
    next
      case True
      have app: "statuses_ok s2" "started h2" using application_statuses [OF _ _ a] ok True by simp_all
      have "h_ok (AddOrUpdateCondition h2 (SetMessage (CreateCondition t Ready ConditionTrue HTTPScaledObjectIsReady) m))" for t m
        using started_add [of h2 HTTPScaledObjectIsReady ConditionTrue t m] app(2) started_ok by blast
      note save = SaveStatus_statuses [OF app(1) this]
      from assms(2) Inr None e a True app(1) save [of "now HTTPScaledObjectIsReady" "''Finished object creation''"] show ?thesis
        by (cases e2) (auto simp: Reconcile_def Let_def split: prod.splits)
    qed
  qed
qed

end

section \<open>Finalizers\<close>

lemma remove_loop_absent: "list_all (\<lambda>i. arr ! i \<noteq> s) is \<Longrightarrow> remove_loop s is arr len = Inr (take len arr)"
  by (induction "is") auto

lemma remove_loop_skip: "list_all (\<lambda>i. arr ! i \<noteq> s) is \<Longrightarrow> remove_loop s (is @ js) arr len = remove_loop s js arr len"
  by (induction "is") auto

lemma remove_split:
  assumes "s \<notin> set xs"
  shows "remove (xs @ s # ys) s =
    remove_loop s [Suc (length xs)..<Suc (length xs + length ys)] (xs @ ys @ [last (s # ys)]) (length xs + length ys)"
proof -
  let ?l = "xs @ s # ys"
  have "[0..<length ?l] = [0..<length xs] @ length xs # [Suc (length xs)..<length ?l]"
    using upt_add_eq_append [of 0 "length xs" "Suc (length ys)"] by (simp add: upt_conv_Cons del: upt_Suc)
  moreover have "list_all (\<lambda>i. ?l ! i \<noteq> s) [0..<length xs]"
    using assms by (auto simp: list_all_iff nth_append)
  moreover have "drop (length xs + length ys) ?l = [last (s # ys)]"
    by (induction ys rule: rev_induct) auto
  ultimately show ?thesis by (simp add: remove_def remove_loop_skip)
qed

lemma remove_once:
  assumes "s \<notin> set xs" "s \<notin> set ys"
  shows "remove (xs @ s # ys) s = Inr (xs @ ys)"
proof -
  have "list_all (\<lambda>i. (xs @ ys @ [last (s # ys)]) ! i \<noteq> s) [Suc (length xs)..<Suc (length xs + length ys)]"
  proof -
    have "(xs @ ys @ [last (s # ys)]) ! i \<noteq> s" if "Suc (length xs) \<le> i" "i \<le> length xs + length ys" for i
    proof -
      have ne: "ys \<noteq> []" using that by auto
      have "(ys @ [last ys]) ! (i - length xs) \<in> set (ys @ [last ys])" using that by (intro nth_mem) auto
      also have "\<dots> = set ys" using ne by auto
      finally show ?thesis using that assms(2) ne by (auto simp: nth_append)
    qed
    then show ?thesis by (simp add: list_all_iff less_Suc_eq_le del: upt_Suc)
  qed
  then show ?thesis using remove_split [OF assms(1)] by (simp add: remove_loop_absent)
qed

lemma moved_last:
  assumes "Suc i \<le> len" "len < n" "length arr = n"
  shows "length (take i arr @ drop (Suc i) (take len arr) @ drop (len - 1) arr) = n"
    "(take i arr @ drop (Suc i) (take len arr) @ drop (len - 1) arr) ! (n - 1) = arr ! (n - 1)"
proof -
  show "length (take i arr @ drop (Suc i) (take len arr) @ drop (len - 1) arr) = n" using assms by simp
  have "length (take i arr @ drop (Suc i) (take len arr)) = len - 1" using assms by simp
  then have "((take i arr @ drop (Suc i) (take len arr)) @ drop (len - 1) arr) ! (n - 1) = drop (len - 1) arr ! (n - 1 - (len - 1))"
    using assms by (simp only: nth_append) simp
  then show "(take i arr @ drop (Suc i) (take len arr) @ drop (len - 1) arr) ! (n - 1) = arr ! (n - 1)"
    using assms by simp
qed

lemma remove_loop_last_panics:
  assumes "length arr = n" "arr ! (n - 1) = s" "len < n" "i < n"
  shows "remove_loop s [i..<n] arr len = Inl SliceBounds"
  using assms
proof (induction "n - i" arbitrary: i arr len)
  case (Suc k)
  have upt: "[i..<n] = i # [Suc i..<n]" using Suc.prems by (simp add: upt_conv_Cons)
  show ?case
  proof (cases "arr ! i = s \<and> Suc i \<le> len")
    case True
    let ?arr = "take i arr @ drop (Suc i) (take len arr) @ drop (len - 1) arr"
    have "remove_loop s [Suc i..<n] ?arr (len - 1) = Inl SliceBounds"
      using True Suc.prems moved_last [of i len n arr] by (intro Suc.hyps(1)) (use Suc.hyps(2) in simp_all)
    with upt True show ?thesis by simp
  next
    case False
    show ?thesis
    proof (cases "Suc i < n")
      case True
      then have "remove_loop s [Suc i..<n] arr len = Inl SliceBounds" using Suc.prems Suc.hyps(2) by (intro Suc.hyps(1)) simp_all
      with upt False show ?thesis by simp
    next
      case False
      then have "i = n - 1" using Suc.prems by simp
      with Suc.prems upt show ?thesis by simp
    qed
  qed
qed simp

lemma remove_twice_panics:
  assumes "s \<notin> set xs"
  shows "remove (xs @ s # ys @ [s]) s = Inl SliceBounds"
  using remove_split [OF assms, of "ys @ [s]"]
    remove_loop_last_panics [of "xs @ (ys @ [s]) @ [s]" "length xs + length ys + 2" s "length xs + length ys + 1" "Suc (length xs)"]
  by (simp add: nth_append)

context reachable_api_server
begin

lemma finalize_stored:
  assumes "HSOs s nn = Some h" "name_of h = nn" "GetFinalizers h = xs @ httpScaledObjectFinalizer # ys"
    "httpScaledObjectFinalizer \<notin> set xs" "httpScaledObjectFinalizer \<notin> set ys"
  shows "finalizeScaledObject (Client r) h s = Inr (None, updated h (h\<lparr>GetFinalizers := xs @ ys\<rparr>) s)"
proof -
  let ?h = "h\<lparr>GetFinalizers := xs @ ys\<rparr>"
  obtain x s' where u: "cl_Update (Client r) ?h s = (x, s')" by (cases "cl_Update (Client r) ?h s")
  then have "\<not> isl x" using update_stored [of s ?h] assms(1,2) by auto
  with u update_ok [of ?h s _ s'] assms show ?thesis by (cases x) (auto simp: finalizeScaledObject_def remove_once)
qed

end

section \<open>A server in memory\<close>

text \<open>A client of a server that keeps its objects in memory meets the contract.\<close>

definition memory_client :: client where
  "memory_client =
     \<lparr>cl_GetHTTPSO = (\<lambda>nn s. case HSOs s nn of None \<Rightarrow> Inl (NotFound ''httpscaledobject'') | Some h \<Rightarrow> Inr h),
      cl_GetSO = (\<lambda>nn s. case SOs s nn of None \<Rightarrow> Inl (NotFound ''scaledobject'') | Some so \<Rightarrow> Inr so),
      cl_Update = (\<lambda>h s. case HSOs s (name_of h) of
         None \<Rightarrow> (Inl (NotFound ''httpscaledobject''), s)
       | Some old \<Rightarrow> (Inr (h\<lparr>HStatus := HStatus old\<rparr>), updated old h s)),
      cl_StatusUpdate = (\<lambda>h s. case HSOs s (name_of h) of
         None \<Rightarrow> (Inl (NotFound ''httpscaledobject''), s)
       | Some old \<Rightarrow> (Inr (old\<lparr>HStatus := HStatus h\<rparr>), s\<lparr>HSOs := (HSOs s)(name_of h \<mapsto> old\<lparr>HStatus := HStatus h\<rparr>)\<rparr>)),
      cl_Create = (\<lambda>so s. case SOs s (so_name so) of
         None \<Rightarrow> (None, s\<lparr>SOs := (SOs s)(so_name so \<mapsto> so)\<rparr>)
       | Some _ \<Rightarrow> (Some (AlreadyExists ''scaledobject''), s)),
      cl_Patch = (\<lambda>so s. case SOs s (so_name so) of
         None \<Rightarrow> (Some (NotFound ''scaledobject''), s)
       | Some old \<Rightarrow> (None, s\<lparr>SOs := (SOs s)(so_name so \<mapsto> merge_patch so old)\<rparr>)),
      cl_Delete = (\<lambda>so s. case SOs s (so_name so) of
         None \<Rightarrow> (Some (NotFound ''scaledobject''), s)
       | Some _ \<Rightarrow> (None, s\<lparr>SOs := (SOs s)(so_name so := None)\<rparr>))\<rparr>"

definition memory_scheme :: scheme where
  "memory_scheme = \<lparr>SchemeIdentifier = ''keda.sh/v1alpha1'',
     SetControllerReference = (\<lambda>h so.
       if OwnerReferences so = [] then Inr (so\<lparr>OwnerReferences := [\<lparr>OwnerKind = ''HTTPScaledObject'', OwnerName = GetName h\<rparr>]\<rparr>)
       else Inl (ErrMsg ''already owned''))\<rparr>"

definition memory_reconciler :: "ExternalScaler \<Rightarrow> Base \<Rightarrow> HTTPScaledObjectReconciler" where
  "memory_reconciler es b = \<lparr>Client = memory_client, Scheme_of = memory_scheme, ExternalScalerConfig = es, BaseConfig = b\<rparr>"

interpretation memory_server: reachable_api_server "memory_reconciler es b" for es b
  by unfold_locales
    (auto simp: memory_reconciler_def memory_client_def memory_scheme_def split: option.splits if_splits)

definition demo_reconciler :: HTTPScaledObjectReconciler where
  "demo_reconciler = memory_reconciler \<lparr>EsServiceName = ''scaler'', EsPort = 9090\<rparr>
     \<lparr>BaseTargetPendingRequests = 100, CurrentNamespace = ''keda'', WatchNamespace = []\<rparr>"

lemma demo_reconciler_laws: "reachable_api_server demo_reconciler" "api_server demo_reconciler"
  by (simp_all add: demo_reconciler_def memory_server.reachable_api_server_axioms memory_server.api_server_axioms)

definition demo_cluster :: "HTTPScaledObject \<Rightarrow> cluster" where
  "demo_cluster h = \<lparr>HSOs = [name_of h \<mapsto> h], SOs = Map.empty\<rparr>"

lemma demo_cluster_simps [simp]:
  "HSOs (demo_cluster h) (name_of h) = Some h" "keyed (demo_cluster h)" "SOs (demo_cluster h) = Map.empty"
  by (auto simp: demo_cluster_def keyed_def)

text \<open>A run on one object, for the witnesses.\<close>

abbreviation demo_h :: HTTPScaledObject where
  "demo_h \<equiv> plain_httpso ''ns'' ''app''"

lemma demo_h_simps [simp]:
  "GetDeletionTimestamp demo_h = None" "\<not> metric_conflict demo_h" "\<not> skips demo_h" "Replicas (Spec demo_h) = None"
  "GetName demo_h = ''app''" "GetNamespace demo_h = ''ns''" "Name (ScaleTarget (Spec demo_h)) = ''app''"
  "HSOs (demo_cluster demo_h) \<lparr>Namespace = ''ns'', NName = ''app''\<rparr> = Some demo_h"
  by (simp_all add: plain_httpso_def plain_spec_def plain_target_def metric_conflict_def skips_def demo_cluster_def)

lemma demo_get: "HSOs s nn = Some h \<Longrightarrow> cl_GetHTTPSO (Client demo_reconciler) nn s = Inr h"
  by (rule reachable_api_server.get_httpso_stored [OF demo_reconciler_laws(1)])

lemma demo_run:
  assumes "HSOs s nn = Some h" "keyed s" "GetDeletionTimestamp h = None" "\<not> metric_conflict h"
  shows "\<exists>s' h'. Reconcile demo_reconciler now nn s = Inr ((\<lparr>RequeueAfter = 0\<rparr>, None), s') \<and> HSOs s' nn = Some h'"
  using reachable_api_server.Reconcile_stored [OF demo_reconciler_laws(1) assms, of now] by auto

lemma demo_statuses: "statuses_ok (demo_cluster demo_h)"
  by (auto simp: statuses_ok_def demo_cluster_def plain_httpso_def conditions_ok_def split: if_splits)

section \<open>Properties\<close>

text \<open>C8: a run of the reconciler that reports no error has installed the scaled object of the application, whatever
  calls failed on the way: for an object that is neither being deleted nor marked to be skipped, the API server then has
  a scaled object under its name with its target, its scaler, its owner, and its limits.\<close>

theorem Reconcile_installs:
  assumes "api_server r" "keyed s" "cl_GetHTTPSO (Client r) nn s = Inr h" "GetDeletionTimestamp h = None" "\<not> skips h"
    "Reconcile r now nn s = Inr ((res, None), s')"
  shows "\<exists>so. SOs s' nn = Some so \<and> so_name so = nn \<and> StName (SoScaleTarget so) = Name (ScaleTarget (Spec h)) \<and>
    map TriggerMetadata (Triggers so) = [[ScalerAddressKey \<mapsto> HostName (ExternalScalerConfig r) (CurrentNamespace (BaseConfig r)),
      HTTPScaledObjectKey \<mapsto> GetName h]] \<and> isOwnerReferenceMatch so h \<and>
    (\<forall>n replicas. Replicas (Spec h) = Some replicas \<longrightarrow> (Min replicas = Some n \<longrightarrow> MinReplicaCount so = Some n) \<and>
       (Max replicas = Some n \<longrightarrow> MaxReplicaCount so = Some n))"
proof -
  have h: "HSOs s nn = Some h" "name_of h = nn" using api_server.get_httpso [OF assms(1,3)] assms(2) by (auto simp: keyed_def)
  let ?so = "stored_so (wanted_so r h) (SOs s nn)"
  have "SOs s' nn = Some ?so"
    using api_server.Reconcile_ok [OF assms(1,6) h assms(4,3,5)] by simp
  moreover have "so_name ?so = nn"
    using h(2) by (auto simp: stored_so_def merge_patch_def so_name_def wanted_so_def split: option.split)
  moreover have "to_lower ''HTTPScaledObject'' = ''httpscaledobject''" by code_simp
  ultimately show ?thesis
    by (intro exI [of _ ?so]) (auto simp: stored_so_def merge_patch_def wanted_so_def appScaledObject_def NewScaledObject_def
        isOwnerReferenceMatch_def text_else_def or_else_def Let_def split: option.split)
qed

theorem Reconcile_installs_witness:
  "\<exists>s' so. Reconcile demo_reconciler (\<lambda>_. []) (name_of demo_h) (demo_cluster demo_h) = Inr ((\<lparr>RequeueAfter = 0\<rparr>, None), s') \<and>
    SOs s' (name_of demo_h) = Some so \<and> StName (SoScaleTarget so) = ''app''"
proof -
  obtain s' where run: "Reconcile demo_reconciler (\<lambda>_. []) (name_of demo_h) (demo_cluster demo_h) = Inr ((\<lparr>RequeueAfter = 0\<rparr>, None), s')"
    using demo_run [of "demo_cluster demo_h" "name_of demo_h" demo_h] by auto
  from Reconcile_installs [OF demo_reconciler_laws(2) _ demo_get _ _ this, of demo_h] run show ?thesis by auto
qed

text \<open>C5: against a server that can be reached, reconciling a valid object succeeds and brings the cluster into
  the state the object asks for: the scaled object is created, or merged into the one that exists, or, for an object
  that is to be skipped, removed if the object owns it; the object keeps its spec, carries the finalizer and
  reports that it is ready. Reconciling again changes no scaled object.\<close>

theorem Reconcile_converges:
  assumes "reachable_api_server r" "keyed s" "HSOs s nn = Some h" "GetDeletionTimestamp h = None" "\<not> metric_conflict h"
  shows "\<exists>s' h'. Reconcile r now nn s = Inr ((\<lparr>RequeueAfter = 0\<rparr>, None), s') \<and>
    SOs s' = scaled_objects r h (SOs s) \<and> HSOs s' = (HSOs s)(nn \<mapsto> h') \<and> Spec h' = Spec h \<and>
    httpScaledObjectFinalizer \<in> set (GetFinalizers h') \<and> reports_ready h (HStatus h') \<and>
    (\<exists>s''. Reconcile r now' nn s' = Inr ((\<lparr>RequeueAfter = 0\<rparr>, None), s'') \<and> SOs s'' = SOs s')"
proof -
  have nn: "name_of h = nn" using assms(2,3) by (auto simp: keyed_def)
  obtain st where run: "Reconcile r now nn s = Inr ((\<lparr>RequeueAfter = 0\<rparr>, None),
      s\<lparr>HSOs := (HSOs s)(nn \<mapsto> h\<lparr>GetFinalizers := ensured (GetFinalizers h), HStatus := st\<rparr>), SOs := scaled_objects r h (SOs s)\<rparr>)"
    and st: "reports_ready h st"
    using reachable_api_server.Reconcile_stored [OF assms(1,3,2,4,5)] by blast
  let ?h = "h\<lparr>GetFinalizers := ensured (GetFinalizers h), HStatus := st\<rparr>"
  let ?s = "s\<lparr>HSOs := (HSOs s)(nn \<mapsto> ?h), SOs := scaled_objects r h (SOs s)\<rparr>"
  have keyed: "keyed ?s"
    using assms(2) nn by (auto simp: keyed_def scaled_objects_def stored_so_def merge_patch_def so_name_def wanted_so_def
        split: option.splits if_splits)
  have w: "wanted_so r ?h = wanted_so r h" "skips ?h = skips h" "metric_conflict ?h = metric_conflict h"
    using wanted_so_cong [of ?h h] by simp_all
  have again: "scaled_objects r ?h (scaled_objects r h (SOs s)) = scaled_objects r h (SOs s)"
    by (auto simp: scaled_objects_def w isOwnerReferenceMatch_def split: option.splits)
  have "\<exists>s''. Reconcile r now' nn ?s = Inr ((\<lparr>RequeueAfter = 0\<rparr>, None), s'') \<and> SOs s'' = SOs ?s"
    using reachable_api_server.Reconcile_stored [where nn = nn and h = ?h and now = now', OF assms(1) _ keyed] assms(4,5) w again by auto
  with run st show ?thesis
    by (intro exI [of _ ?s] exI [of _ ?h]) (simp add: ensured_def)
qed

theorem Reconcile_converges_witness:
  "\<exists>s' h'. Reconcile demo_reconciler (\<lambda>_. []) (name_of demo_h) (demo_cluster demo_h) = Inr ((\<lparr>RequeueAfter = 0\<rparr>, None), s') \<and>
    SOs s' = [name_of demo_h \<mapsto> wanted_so demo_reconciler demo_h] \<and> HSOs s' (name_of demo_h) = Some h' \<and>
    httpScaledObjectFinalizer \<in> set (GetFinalizers h')"
  using Reconcile_converges [OF demo_reconciler_laws(1), of "demo_cluster demo_h" "name_of demo_h" demo_h "\<lambda>_. []" "\<lambda>_. []"]
  by (auto simp: scaled_objects_def stored_so_def)

text \<open>C36: a limit that is taken out of an HTTPScaledObject stays in force. The operator updates an existing scaled
  object by a merge patch made of the new one, which has no field for a limit that is not set, so the server keeps the
  old minimum and maximum of the replicas, and the labels and annotations that were removed.\<close>

theorem removed_settings_stay:
  assumes "api_server r" "keyed s" "cl_GetHTTPSO (Client r) nn s = Inr h" "GetDeletionTimestamp h = None" "\<not> skips h"
    "Reconcile r now nn s = Inr ((res, None), s')" "SOs s nn = Some old" "Replicas (Spec h) = None"
  shows "\<exists>so. SOs s' nn = Some so \<and> MinReplicaCount so = MinReplicaCount old \<and> MaxReplicaCount so = MaxReplicaCount old \<and>
    dom (SoLabels old) \<subseteq> dom (SoLabels so) \<and> dom (SoAnnotations old) \<subseteq> dom (SoAnnotations so)"
proof -
  have h: "HSOs s nn = Some h" "name_of h = nn" using api_server.get_httpso [OF assms(1,3)] assms(2) by (auto simp: keyed_def)
  show ?thesis
    using api_server.Reconcile_ok [OF assms(1,6) h assms(4,3,5)] assms(7,8)
    by (auto simp: stored_so_def merge_patch_def wanted_so_def appScaledObject_def NewScaledObject_def or_else_def)
qed

theorem removed_settings_stay_witness:
  "\<exists>s' so. Reconcile demo_reconciler (\<lambda>_. []) (name_of demo_h) ((demo_cluster demo_h)
      \<lparr>SOs := [name_of demo_h \<mapsto> (wanted_so demo_reconciler demo_h)\<lparr>MaxReplicaCount := Some 5\<rparr>]\<rparr>) = Inr ((\<lparr>RequeueAfter = 0\<rparr>, None), s') \<and>
    SOs s' (name_of demo_h) = Some so \<and> MaxReplicaCount so = Some 5"
proof -
  let ?s = "(demo_cluster demo_h)\<lparr>SOs := [name_of demo_h \<mapsto> (wanted_so demo_reconciler demo_h)\<lparr>MaxReplicaCount := Some 5\<rparr>]\<rparr>"
  have keyed: "keyed ?s" by (auto simp: keyed_def demo_cluster_def so_name_def wanted_so_def split: if_splits)
  have h: "HSOs ?s (name_of demo_h) = Some demo_h" by (simp add: demo_cluster_def)
  obtain s' where run: "Reconcile demo_reconciler (\<lambda>_. []) (name_of demo_h) ?s = Inr ((\<lparr>RequeueAfter = 0\<rparr>, None), s')"
    using demo_run [OF h keyed] by auto
  from removed_settings_stay [OF demo_reconciler_laws(2) keyed demo_get [OF h] _ _ this] run show ?thesis by auto
qed

text \<open>C29: the conditions of every stored object keep their form through any run, failed calls included: at most one
  condition per reason, each of type \<open>Ready\<close>, and first the one for the pending creation, whose status stays unknown.\<close>

theorem Reconcile_conditions:
  assumes "api_server r" "statuses_ok s" "Reconcile r now nn s = Inr (res, s')"
  shows "statuses_ok s'"
  by (rule api_server.Reconcile_statuses [OF assms])

theorem Reconcile_conditions_witness:
  "\<exists>s' h'. Reconcile demo_reconciler (\<lambda>_. []) (name_of demo_h) (demo_cluster demo_h) = Inr ((\<lparr>RequeueAfter = 0\<rparr>, None), s') \<and>
    HSOs s' (name_of demo_h) = Some h' \<and> conditions_ok (StatusConditions (HStatus h'))"
proof -
  obtain s' h' where run: "Reconcile demo_reconciler (\<lambda>_. []) (name_of demo_h) (demo_cluster demo_h) = Inr ((\<lparr>RequeueAfter = 0\<rparr>, None), s')"
    and "HSOs s' (name_of demo_h) = Some h'"
    using demo_run [of "demo_cluster demo_h" "name_of demo_h" demo_h "\<lambda>_. []"] by auto
  with Reconcile_conditions [OF demo_reconciler_laws(2) demo_statuses run] show ?thesis by (auto simp: statuses_ok_def)
qed

text \<open>C35: the predicate that is to let an object pass when it becomes ready never does. \<open>GetReadyCondition\<close> returns
  the first condition of type \<open>Ready\<close>, and that is the one for the pending creation, which is never true; so a change of the
  conditions made by the operator, even the one that reports the object ready, triggers nothing.\<close>

theorem ready_predicate_never_fires:
  assumes "api_server r" "statuses_ok s" "Reconcile r now nn s = Inr (res, s')" "HSOs s m = Some old" "HSOs s' m = Some new"
  shows "\<not> ReadyConditionPredicate_Update (Some (HTTPSOObject old)) (Some (HTTPSOObject new))"
  using api_server.Reconcile_statuses [OF assms(1-3)] assms(5) h_ok_not_ready [of new]
  by (auto simp: ReadyConditionPredicate_Update_def statuses_ok_def)

theorem ready_predicate_never_fires_witness:
  "\<exists>s' h'. Reconcile demo_reconciler (\<lambda>_. []) (name_of demo_h) (demo_cluster demo_h) = Inr ((\<lparr>RequeueAfter = 0\<rparr>, None), s') \<and>
    HSOs s' (name_of demo_h) = Some h' \<and> \<not> ReadyConditionPredicate_Update (Some (HTTPSOObject demo_h)) (Some (HTTPSOObject h'))"
proof -
  obtain s' h' where run: "Reconcile demo_reconciler (\<lambda>_. []) (name_of demo_h) (demo_cluster demo_h) = Inr ((\<lparr>RequeueAfter = 0\<rparr>, None), s')"
    and "HSOs s' (name_of demo_h) = Some h'"
    using demo_run [of "demo_cluster demo_h" "name_of demo_h" demo_h "\<lambda>_. []"] by auto
  with ready_predicate_never_fires [OF demo_reconciler_laws(2) demo_statuses run, of "name_of demo_h" demo_h h'] show ?thesis by simp
qed

text \<open>Reconciling an object that is being deleted takes out the finalizer of the operator and no other. The
  object then disappears if it had no other.\<close>

theorem Reconcile_finalizes:
  assumes "reachable_api_server r" "keyed s" "HSOs s nn = Some h" "GetDeletionTimestamp h \<noteq> None"
    "GetFinalizers h = xs @ httpScaledObjectFinalizer # ys" "httpScaledObjectFinalizer \<notin> set (xs @ ys)"
  shows "Reconcile r now nn s = Inr ((\<lparr>RequeueAfter = 0\<rparr>, None),
    s\<lparr>HSOs := (HSOs s)(nn := (if xs @ ys = [] then None else Some (h\<lparr>GetFinalizers := xs @ ys\<rparr>)))\<rparr>)"
proof -
  have nn: "name_of h = nn" using assms(2,3) by (auto simp: keyed_def)
  show ?thesis
    using reachable_api_server.finalize_stored [OF assms(1,3) nn assms(5)] assms(4,6) nn
      reachable_api_server.get_httpso_stored [OF assms(1,3)]
    by (auto simp: Reconcile_def updated_def)
qed

theorem Reconcile_finalizes_witness:
  "Reconcile demo_reconciler (\<lambda>_. []) (name_of demo_h)
     (demo_cluster (demo_h\<lparr>GetDeletionTimestamp := Some 0, GetFinalizers := [httpScaledObjectFinalizer]\<rparr>)) =
   Inr ((\<lparr>RequeueAfter = 0\<rparr>, None), \<lparr>HSOs = Map.empty, SOs = Map.empty\<rparr>)"
  using Reconcile_finalizes [OF demo_reconciler_laws(1), where nn = "name_of demo_h" and now = "\<lambda>_. []" and
      s = "demo_cluster (demo_h\<lparr>GetDeletionTimestamp := Some 0, GetFinalizers := [httpScaledObjectFinalizer]\<rparr>)" and
      h = "demo_h\<lparr>GetDeletionTimestamp := Some 0, GetFinalizers := [httpScaledObjectFinalizer]\<rparr>" and xs = "[]" and ys = "[]"]
  by (simp add: demo_cluster_def keyed_def split: if_splits)

text \<open>\<open>remove\<close> deletes from the slice it ranges over and panics when the finalizer is listed twice, the second time
  at the end; the object can then never be finalized.\<close>

theorem finalizer_twice_panics:
  assumes "cl_GetHTTPSO (Client r) nn s = Inr h" "GetDeletionTimestamp h \<noteq> None"
    "GetFinalizers h = xs @ httpScaledObjectFinalizer # ys @ [httpScaledObjectFinalizer]" "httpScaledObjectFinalizer \<notin> set xs"
  shows "Reconcile r now nn s = Inl SliceBounds"
  using assms remove_twice_panics [OF assms(4), of ys] by (auto simp: Reconcile_def finalizeScaledObject_def)

theorem finalizer_twice_panics_witness:
  "Reconcile demo_reconciler (\<lambda>_. []) (name_of demo_h)
     (demo_cluster (demo_h\<lparr>GetDeletionTimestamp := Some 0, GetFinalizers := [httpScaledObjectFinalizer, httpScaledObjectFinalizer]\<rparr>)) =
   Inl SliceBounds"
  by (rule finalizer_twice_panics [where xs = "[]" and ys = "[]", OF demo_get [where h =
        "demo_h\<lparr>GetDeletionTimestamp := Some 0, GetFinalizers := [httpScaledObjectFinalizer, httpScaledObjectFinalizer]\<rparr>"]])
    (simp_all add: demo_cluster_def)

end
