(* ===== verification/Errgroup.thy ===== *)
theory Errgroup
  imports Util
begin

text \<open>
  Groups of goroutines that share a context, as \<open>errgroup.WithContext\<close>, \<open>Go\<close> and \<open>Wait\<close> run them. A group is the
  state of its goroutines with the state they share; a step is a step of one of them, the end of the context from
  outside, or an event of the surroundings. As documented for \<open>errgroup\<close>, the first goroutine that returns
  an error cancels the context, its error is the one \<open>Wait\<close> returns, and \<open>Wait\<close> returns once all goroutines
  have.

  What a goroutine does is the relation \<open>pstep\<close>, from whether the context is done, the shared state and the goroutine to
  the shared state and the goroutine after one step; \<open>ret\<close> tells what it has returned, \<open>alive\<close> whether the
  process still runs, \<open>estep\<close> what the surroundings do to the shared state, before and after the end of the context.
\<close>

section \<open>The steps of a group\<close>

record ('s, 'p) group =
  gdone :: bool
  gerr :: "go_error option"
  gshared :: 's
  procs :: "'p list"

definition settle :: "('p \<Rightarrow> go_error option option) \<Rightarrow> 'p \<Rightarrow> ('s, 'p) group \<Rightarrow> ('s, 'p) group" where
  "settle ret p g =
     (case ret p of
        Some (Some e) \<Rightarrow> if gerr g = None then g\<lparr>gerr := Some e, gdone := True\<rparr> else g
      | _ \<Rightarrow> g)"

inductive group_step :: "('s \<Rightarrow> bool) \<Rightarrow> ('p \<Rightarrow> go_error option option) \<Rightarrow> (bool \<Rightarrow> 's \<Rightarrow> 's \<Rightarrow> bool) \<Rightarrow>
    (bool \<Rightarrow> 's \<Rightarrow> 'p \<Rightarrow> 's \<Rightarrow> 'p \<Rightarrow> bool) \<Rightarrow> ('s, 'p) group \<Rightarrow> ('s, 'p) group \<Rightarrow> bool" for alive ret estep pstep where
  cancel: "alive (gshared g) \<Longrightarrow> \<not> gdone g \<Longrightarrow> group_step alive ret estep pstep g (g\<lparr>gdone := True\<rparr>)"
| surroundings: "alive (gshared g) \<Longrightarrow> estep (gdone g) (gshared g) s \<Longrightarrow>
    group_step alive ret estep pstep g (g\<lparr>gshared := s\<rparr>)"
| run: "alive (gshared g) \<Longrightarrow> i < length (procs g) \<Longrightarrow> pstep (gdone g) (gshared g) (procs g ! i) s p \<Longrightarrow>
    group_step alive ret estep pstep g (settle ret p (g\<lparr>gshared := s, procs := (procs g)[i := p]\<rparr>))"

text \<open>\<open>Wait\<close> returns once every goroutine has returned.\<close>

definition all_returned :: "('p \<Rightarrow> go_error option option) \<Rightarrow> ('s, 'p) group \<Rightarrow> bool" where
  "all_returned ret g \<longleftrightarrow> (\<forall>p\<in>set (procs g). ret p \<noteq> None)"

definition new_group :: "'s \<Rightarrow> 'p list \<Rightarrow> ('s, 'p) group" where
  "new_group s ps = \<lparr>gdone = False, gerr = None, gshared = s, procs = ps\<rparr>"

lemma new_group_simps [simp]:
  "gdone (new_group s ps) = False" "gerr (new_group s ps) = None" "gshared (new_group s ps) = s" "procs (new_group s ps) = ps"
  by (simp_all add: new_group_def)

lemma settle_simps [simp]:
  "gshared (settle ret p g) = gshared g" "procs (settle ret p g) = procs g" "gdone g \<Longrightarrow> gdone (settle ret p g)"
  by (auto simp: settle_def split: option.split)

lemma settle_err: "gerr (settle ret p g) = (case gerr g of Some e \<Rightarrow> Some e | None \<Rightarrow> case ret p of Some r \<Rightarrow> r | None \<Rightarrow> None)"
  by (auto simp: settle_def split: option.split)

lemma settle_done: "gdone (settle ret p g) \<longleftrightarrow> gdone g \<or> gerr g = None \<and> (\<exists>e. ret p = Some (Some e))"
  by (auto simp: settle_def split: option.split)

section \<open>Groups whose goroutines return\<close>

text \<open>The contract of goroutines that heed their context: once it is done, each that has not returned can take a step or waits
  for a step of the surroundings, and both bring the group nearer to its end.\<close>

locale heeding =
  fixes ret :: "'p \<Rightarrow> go_error option option"
    and pstep :: "bool \<Rightarrow> 's \<Rightarrow> 'p \<Rightarrow> 's \<Rightarrow> 'p \<Rightarrow> bool"
    and estep :: "bool \<Rightarrow> 's \<Rightarrow> 's \<Rightarrow> bool"
    and alive :: "'s \<Rightarrow> bool"
    and ok :: "'p \<Rightarrow> bool"
    and weight :: "'p \<Rightarrow> nat"
    and slack :: "'s \<Rightarrow> nat"
  assumes returned_rests: "ret p \<noteq> None \<Longrightarrow> \<not> pstep d s p s' p'"
    and ok_step: "ok p \<Longrightarrow> pstep d s p s' p' \<Longrightarrow> ok p'"
    and nearer: "ok p \<Longrightarrow> pstep d s p s' p' \<Longrightarrow> weight p' < weight p"
    and pstep_slack: "ok p \<Longrightarrow> pstep d s p s' p' \<Longrightarrow> slack s' \<le> slack s"
    and estep_slack: "estep True s s' \<Longrightarrow> slack s' < slack s"
    and heeds: "ok p \<Longrightarrow> alive s \<Longrightarrow> ret p = None \<Longrightarrow> (\<exists>s' p'. pstep True s p s' p') \<or> (\<exists>s'. estep True s s')"
begin

abbreviation gstep :: "('s, 'p) group \<Rightarrow> ('s, 'p) group \<Rightarrow> bool" where
  "gstep \<equiv> group_step alive ret estep pstep"

definition all_ok :: "('s, 'p) group \<Rightarrow> bool" where
  "all_ok g \<longleftrightarrow> (\<forall>p\<in>set (procs g). ok p)"

definition work :: "('s, 'p) group \<Rightarrow> nat" where
  "work g = sum_list (map weight (procs g))"

lemma sum_list_lower: "i < length ws \<Longrightarrow> (w::nat) < ws ! i \<Longrightarrow> sum_list (ws[i := w]) < sum_list ws"
  using elem_le_sum_list [of i ws] by (simp add: sum_list_update)

lemma all_ok_step: "gstep g g' \<Longrightarrow> all_ok g \<Longrightarrow> all_ok g'"
proof (induction rule: group_step.induct)
  case (run g i s p)
  then show ?case using set_update_subset_insert [of "procs g" i p] ok_step [OF _ run(3)] by (fastforce simp: all_ok_def)
qed (auto simp: all_ok_def)

lemma all_ok_steps: "gstep\<^sup>*\<^sup>* g g' \<Longrightarrow> all_ok g \<Longrightarrow> all_ok g'"
  by (induction rule: rtranclp_induct) (auto intro: all_ok_step)

lemma work_step:
  "gstep g g' \<Longrightarrow> all_ok g \<Longrightarrow> gdone g \<Longrightarrow> gdone g' \<and> work g' + slack (gshared g') < work g + slack (gshared g)"
proof (induction rule: group_step.induct)
  case (surroundings g s)
  then show ?case using estep_slack [of "gshared g" s] by (simp add: work_def)
next
  case (run g i s p)
  have ok: "ok (procs g ! i)" using run by (auto simp: all_ok_def)
  have "weight p < weight (procs g ! i)" using nearer [OF ok run(3)] .
  then have "sum_list ((map weight (procs g))[i := weight p]) < sum_list (map weight (procs g))"
    using run(2) by (intro sum_list_lower) simp_all
  with pstep_slack [OF ok run(3)] run(5) show ?case by (simp add: work_def map_update)
qed simp

lemma work_mono: "gstep\<^sup>*\<^sup>* g g' \<Longrightarrow> all_ok g \<Longrightarrow> work g' \<le> work g"
proof (induction rule: rtranclp_induct)
  case (step y z)
  then have y: "all_ok y" using all_ok_steps by blast
  from step.hyps(2) have "work z \<le> work y"
  proof cases
    case (run i s p)
    then have "weight p < weight (procs y ! i)" using y by (intro nearer [OF _ run(4)]) (auto simp: all_ok_def)
    then show ?thesis using run(1,3) sum_list_lower [of i "map weight (procs y)" "weight p"] by (simp add: work_def map_update)
  qed (simp_all add: work_def)
  with step show ?case by simp
qed simp

lemma work_runs: "(gstep ^^ k) g g' \<Longrightarrow> all_ok g \<Longrightarrow> gdone g \<Longrightarrow> all_ok g' \<and> gdone g' \<and> work g' + slack (gshared g') + k \<le> work g + slack (gshared g)"
proof (induction k arbitrary: g')
  case (Suc k)
  then obtain h where h: "(gstep ^^ k) g h" "gstep h g'" by auto
  with Suc have "all_ok h" "gdone h" "work h + slack (gshared h) + k \<le> work g + slack (gshared g)" by auto
  with h(2) show ?case using all_ok_step work_step by fastforce
qed simp

lemma stuck_returned:
  assumes "all_ok g" "gdone g" "alive (gshared g)" "\<And>g'. \<not> gstep g g'"
  shows "all_returned ret g"
proof (rule ccontr)
  assume "\<not> all_returned ret g"
  then obtain i where i: "i < length (procs g)" "ret (procs g ! i) = None" by (auto simp: all_returned_def in_set_conv_nth)
  with assms(1) have "ok (procs g ! i)" by (simp add: all_ok_def)
  with heeds assms(3) i(2) consider s p where "pstep True (gshared g) (procs g ! i) s p" | s where "estep True (gshared g) s" by blast
  then show False
  proof cases
    case 1
    then have "gstep g (settle ret p (g\<lparr>gshared := s, procs := (procs g)[i := p]\<rparr>))"
      using assms(2,3) i(1) by (intro group_step.run) simp_all
    with assms(4) show False by blast
  next
    case 2
    then have "gstep g (g\<lparr>gshared := s\<rparr>)" using assms(2,3) by (intro group_step.surroundings) simp_all
    with assms(4) show False by blast
  qed
qed

text \<open>Once the context is done, the group ends after a bounded number of steps, whatever their order: with every goroutine
  returned, unless the process has been ended.\<close>

lemma group_ends:
  assumes "all_ok g" "gdone g" "(gstep ^^ k) g g'"
  shows "k \<le> work g + slack (gshared g) \<and> ((\<forall>g''. \<not> gstep g' g'') \<and> alive (gshared g') \<longrightarrow> all_returned ret g')"
  using work_runs [OF assms(3,1,2)] stuck_returned [of g'] by auto

end

lemma group_length: "(group_step alive ret estep pstep)\<^sup>*\<^sup>* g g' \<Longrightarrow> length (procs g') = length (procs g)"
  by (induction rule: rtranclp_induct) (auto elim: group_step.cases)

section \<open>The error of a group\<close>

text \<open>The error of the group is an error that one of its goroutines has returned, there is one as soon as one of them
  has, and then the context is done.\<close>

definition err_inv :: "('p \<Rightarrow> go_error option option) \<Rightarrow> ('s, 'p) group \<Rightarrow> bool" where
  "err_inv ret g \<longleftrightarrow>
     (\<forall>e. gerr g = Some e \<longrightarrow> gdone g \<and> Some (Some e) \<in> ret ` set (procs g)) \<and>
     (gerr g = None \<longrightarrow> (\<forall>p\<in>set (procs g). \<forall>e. ret p \<noteq> Some (Some e)))"

lemma err_inv_step:
  assumes "group_step alive ret estep pstep g g'" "err_inv ret g"
    "\<And>d s p s' p'. ret p \<noteq> None \<Longrightarrow> \<not> pstep d s p s' p'"
  shows "err_inv ret g'"
  using assms(1,2)
proof (induction rule: group_step.induct)
  case (run g i s p)
  have none: "ret (procs g ! i) = None" using run(3) assms(3) by blast
  have keep: "q \<in> set (procs g) \<Longrightarrow> ret q \<noteq> None \<Longrightarrow> q \<in> set ((procs g)[i := p])" for q
    using none by (metis in_set_conv_nth length_list_update nth_list_update_neq)
  have new: "p \<in> set ((procs g)[i := p])" using run(2) by (rule set_update_memI)
  show ?case
  proof (cases "gerr g")
    case None
    then have other: "q \<in> set ((procs g)[i := p]) \<Longrightarrow> q = p \<or> ret q \<noteq> Some (Some e)" for q e
      using run(4) set_update_subset_insert [of "procs g" i p] by (auto simp: err_inv_def)
    consider e where "ret p = Some (Some e)" | "\<forall>e. ret p \<noteq> Some (Some e)" by auto
    then show ?thesis
    proof cases
      case 1
      then have "Some (Some e) \<in> ret ` set ((procs g)[i := p])" using new by (metis imageI)
      with 1 None show ?thesis by (simp add: err_inv_def settle_def)
    next
      case 2
      then have "settle ret p h = h" for h :: "('a, 'b) group" by (auto simp: settle_def split: option.split)
      with None 2 other show ?thesis by (simp add: err_inv_def) blast
    qed
  next
    case (Some e)
    then have "Some (Some e) \<in> ret ` set (procs g)" "gdone g" using run(4) by (auto simp: err_inv_def)
    then obtain q where "q \<in> set (procs g)" "ret q = Some (Some e)" by (metis imageE)
    then have "q \<in> set ((procs g)[i := p])" "ret q = Some (Some e)" using keep by auto
    then have "Some (Some e) \<in> ret ` set ((procs g)[i := p])" by (metis imageI)
    with Some \<open>gdone g\<close> show ?thesis by (simp add: err_inv_def settle_err)
  qed
qed (auto simp: err_inv_def)

lemma err_inv_steps:
  assumes "(group_step alive ret estep pstep)\<^sup>*\<^sup>* (new_group s ps) g"
    "\<And>d s p s' p'. ret p \<noteq> None \<Longrightarrow> \<not> pstep d s p s' p'" "\<forall>p\<in>set ps. ret p = None"
  shows "err_inv ret g"
  using assms(1)
proof (induction rule: rtranclp_induct)
  case base
  then show ?case using assms(3) by (auto simp: err_inv_def)
next
  case (step y z)
  then show ?case using err_inv_step assms(2) by blast
qed

end
