(* ===== verification/Lifecycle.thy ===== *)
theory Lifecycle
  imports Errgroup Http_Server Proxy Scaler
begin

text \<open>
  The three programs from start to end: \<open>main\<close> of \<^verbatim>\<open>interceptor/main.go\<close>, \<^verbatim>\<open>scaler/main.go\<close> and \<^verbatim>\<open>operator/main.go\<close>, and
  \<open>Start\<close> of the routing table. Each \<open>main\<close> is a function from what the code outside of the program yields (the
  configuration read from the environment, the constructors of the clients) to either the exit status of a
  process that gives up or the group of goroutines it then waits for. A goroutine is the list of the calls it has still
  to make.
\<close>

section \<open>Goroutines\<close>

datatype component =
    RoutingTable
  | AdminServer
  | MetricsServer
  | TLSProxyServer
  | ProxyServer
  | ProfilingServer
  | QueuePinger

text \<open>The calls: an informer's \<open>Run\<close>, which returns when its stop channel is closed; \<open>Start\<close> and \<open>WaitForCacheSync\<close> of the
  shared informer factory behind the service cache; a component whose error is dropped if \<open>IsIgnoredErr\<close> says so; one
  whose error is returned as it is; and \<open>startGrpcServer\<close>, which first listens and then serves.\<close>

datatype instr =
    RunInformer
  | StartFactory
  | WaitForCacheSync
  | RunFiltered component
  | RunRaw component
  | ListenGrpc
  | ServeGrpc

datatype goroutine = Run "instr list" | Ended "go_error option"

fun returned :: "goroutine \<Rightarrow> go_error option option" where
  "returned (Run is) = None"
| "returned (Ended r) = Some r"

record process =
  factory_started :: bool
  factory_synced :: bool
  grpc_serving :: bool
  pending_rpcs :: nat
  exit_status :: "nat option"

definition newProcess :: process where
  "newProcess = \<lparr>factory_started = False, factory_synced = False, grpc_serving = False, pending_rpcs = 0, exit_status = None\<rparr>"

definition running :: "process \<Rightarrow> bool" where
  "running s \<longleftrightarrow> exit_status s = None"

text \<open>What happens around the goroutines: the started factory gets its objects; calls of the gRPC server begin, and end. The server
  takes no calls once the context is done: those that still begin before the goroutine behind \<open>GracefulStop\<close> gets to
  it count as begun before.\<close>

inductive outside :: "bool \<Rightarrow> process \<Rightarrow> process \<Rightarrow> bool" where
  factory_syncs: "factory_started s \<Longrightarrow> outside False s (s\<lparr>factory_synced := True\<rparr>)"
| rpc_begins: "grpc_serving s \<Longrightarrow> outside False s (s\<lparr>pending_rpcs := pending_rpcs s + 1\<rparr>)"
| rpc_ends: "0 < pending_rpcs s \<Longrightarrow> outside d s (s\<lparr>pending_rpcs := pending_rpcs s - 1\<rparr>)"

text \<open>What a component returns when its context is done. The servers return \<open>ErrServerClosed\<close>, see \<open>ServeContext\<close>.\<close>

fun stopped :: "component \<Rightarrow> go_error" where
  "stopped RoutingTable = Canceled"
| "stopped QueuePinger = WrapErr ''context marked done. stopping queuePinger loop: '' Canceled"
| "stopped _ = ErrServerClosed"

definition afterwards :: "go_error option \<Rightarrow> instr list \<Rightarrow> goroutine" where
  "afterwards err is = (if IsIgnoredErr err then Run is else Ended err)"

text \<open>One step of a goroutine; the flag tells whether the context is done. A component may fail with any error, and one
  for which \<open>fatal\<close> has a status ends the process with it. \<open>Serve\<close> of the gRPC server returns nil after
  \<open>GracefulStop\<close>, which waits for the calls that are pending.\<close>

inductive goroutine_step :: "(component \<Rightarrow> nat option) \<Rightarrow> bool \<Rightarrow> process \<Rightarrow> goroutine \<Rightarrow> process \<Rightarrow> goroutine \<Rightarrow> bool"
  for fatal where
  informer: "goroutine_step fatal True s (Run (RunInformer # is)) s (Run is)"
| start_factory: "goroutine_step fatal d s (Run (StartFactory # is)) (s\<lparr>factory_started := True\<rparr>) (Run is)"
| cache_synced: "d \<or> \<not> factory_started s \<or> factory_synced s \<Longrightarrow>
    goroutine_step fatal d s (Run (WaitForCacheSync # is)) s (Run is)"
| stops: "fatal c = None \<Longrightarrow> goroutine_step fatal True s (Run (RunFiltered c # is)) s (afterwards (Some (stopped c)) is)"
| fails: "fatal c = None \<Longrightarrow> goroutine_step fatal d s (Run (RunFiltered c # is)) s (afterwards (Some e) is)"
| exits: "fatal c = Some n \<Longrightarrow> goroutine_step fatal d s (Run (RunFiltered c # is)) (s\<lparr>exit_status := Some n\<rparr>) (Run is)"
| raw_fails: "goroutine_step fatal d s (Run (RunRaw c # is)) s (Ended (Some e))"
| listen_fails: "goroutine_step fatal d s (Run (ListenGrpc # is)) s (afterwards (Some e) is)"
| listens: "goroutine_step fatal d s (Run (ListenGrpc # is)) (s\<lparr>grpc_serving := True\<rparr>) (Run (ServeGrpc # is))"
| serve_fails: "goroutine_step fatal d s (Run (ServeGrpc # is)) (s\<lparr>grpc_serving := False\<rparr>) (afterwards (Some e) is)"
| graceful_stop: "pending_rpcs s = 0 \<Longrightarrow>
    goroutine_step fatal True s (Run (ServeGrpc # is)) (s\<lparr>grpc_serving := False\<rparr>) (afterwards None is)"
| returns: "goroutine_step fatal d s (Run []) s (Ended None)"

inductive_cases goroutine_ended: "goroutine_step fatal d s (Ended r) s' p"
inductive_cases goroutine_raw: "goroutine_step fatal d s (Run (RunRaw c # is)) s' p"
inductive_cases goroutine_serve: "goroutine_step fatal d s (Run (ServeGrpc # is)) s' p"

abbreviation main_step :: "(component \<Rightarrow> nat option) \<Rightarrow> (process, goroutine) group \<Rightarrow> (process, goroutine) group \<Rightarrow> bool" where
  "main_step fatal \<equiv> group_step running returned outside (goroutine_step fatal)"

section \<open>The interceptor\<close>

text \<open>What the code outside of the program yields: None for a configuration on which \<open>envconfig.MustProcess\<close> panics, which
  ends in the deferred \<open>os.Exit(1)\<close>; whether \<open>GetConfigOrDie\<close> finds a configuration of the cluster; the errors of the
  two clients, of registering the routing table with its informer, and of the metrics exporters, which end the process.\<close>

record interceptor_world =
  iw_timeouts :: "TimeoutsConfig option"
  iw_serving :: "ServingConfig option"
  iw_metrics :: "MetricsConfig option"
  iw_tracing :: "TracingConfig option"
  iw_environ :: environment
  iw_exporters :: "go_error option"
  iw_kubeconfig :: bool
  iw_client :: "go_error option"
  iw_httpClient :: "go_error option"
  iw_table :: "go_error option"

datatype main_outcome = Exits nat | Waits "(process, goroutine) group"

definition interceptor_goroutines :: "ServingConfig \<Rightarrow> MetricsConfig \<Rightarrow> instr list list" where
  "interceptor_goroutines servingCfg metricsCfg =
     [[RunInformer, StartFactory], [RunFiltered RoutingTable], [RunFiltered AdminServer]] @
     (if OtelPrometheusExporterEnabled metricsCfg then [[RunFiltered MetricsServer]] else []) @
     (if ProxyTLSEnabled servingCfg then [[WaitForCacheSync, RunFiltered TLSProxyServer]] else []) @
     [[WaitForCacheSync, WaitForCacheSync, RunFiltered ProxyServer]] @
     (if ProfilingAddr servingCfg \<noteq> [] then [[RunRaw ProfilingServer]] else [])"

definition interceptor_main :: "interceptor_world \<Rightarrow> main_outcome" where
  "interceptor_main w =
     (case (iw_timeouts w, iw_serving w, iw_metrics w, iw_tracing w) of
        (Some timeoutCfg, Some servingCfg, Some metricsCfg, Some tracingCfg) \<Rightarrow>
          (case Validate (iw_environ w) servingCfg timeoutCfg of
             (servingCfg, Some err) \<Rightarrow> Exits 1
           | (servingCfg, None) \<Rightarrow>
               if iw_exporters w \<noteq> None then Exits 1
               else if \<not> iw_kubeconfig w then Exits 1
               else if iw_client w \<noteq> None then Exits 1
               else if iw_httpClient w \<noteq> None then Exits 1
               else if iw_table w \<noteq> None then Exits 1
               else Waits (new_group newProcess (map Run (interceptor_goroutines servingCfg metricsCfg))))
      | _ \<Rightarrow> Exits 1)"

text \<open>What \<open>main\<close> logs once \<open>eg.Wait\<close> has returned and the status it exits with. The deferred \<open>os.Exit(1)\<close> of the
  interceptor runs in every case.\<close>

datatype farewell = FatalError go_error | Bye

definition farewell_of :: "go_error option \<Rightarrow> farewell" where
  "farewell_of err = (case err of None \<Rightarrow> Bye | Some e \<Rightarrow> if errors_is e Canceled then Bye else FatalError e)"

definition interceptor_exit :: "(process, goroutine) group \<Rightarrow> farewell \<times> nat" where
  "interceptor_exit g = (farewell_of (gerr g), 1)"

text \<open>The proxy server ends the process if \<open>getTLSConfig\<close>, called with the configured paths, fails.\<close>

definition interceptor_fatal :: "loader \<Rightarrow> ((string, string) gomap \<Rightarrow> (string, string) gomap) \<Rightarrow> string list \<Rightarrow> ServingConfig \<Rightarrow>
    component \<Rightarrow> nat option" where
  "interceptor_fatal F rng pool servingCfg c =
     (if c = TLSProxyServer \<and>
        snd (getTLSConfig F rng pool (TLSCertPath servingCfg) (TLSKeyPath servingCfg) (TLSCertStorePaths servingCfg) (TLSSkipVerify servingCfg)) \<noteq> None
      then Some 1 else None)"

text \<open>Tracing: an error of the set-up is only logged, and the clean-up is deferred to the end of \<open>main\<close>.\<close>

definition interceptor_tracing :: "(exporter \<Rightarrow> go_error option) \<Rightarrow> (tracer_provider \<Rightarrow> go_error option) \<Rightarrow> go_error option \<Rightarrow>
    TracingConfig \<Rightarrow> otel_state \<Rightarrow> otel_state" where
  "interceptor_tracing new close newResource tracingCfg s =
     (if TracingEnabled tracingCfg then fst (SetupOTelSDK new close newResource tracingCfg s) else s)"

definition interceptor_flush :: "(tracer_provider \<Rightarrow> go_error option) \<Rightarrow> TracingConfig \<Rightarrow> otel_state \<Rightarrow> otel_state" where
  "interceptor_flush close tracingCfg s = (if TracingEnabled tracingCfg then fst (shutdown close s) else s)"

section \<open>The scaler\<close>

record scaler_config =
  GRPCPort :: go_int
  TargetNamespace :: string
  TargetService :: string
  TargetDeployment :: string
  TargetPort :: go_int
  ScTargetPendingRequests :: go_int
  ScConfigMapCacheRsyncPeriod :: duration
  DeploymentCacheRsyncPeriod :: duration
  QueueTickDuration :: duration
  ScProfilingAddr :: string

definition defaultScaler :: "string \<Rightarrow> string \<Rightarrow> string \<Rightarrow> go_int \<Rightarrow> scaler_config" where
  "defaultScaler ns svc depl port =
     \<lparr>GRPCPort = 8080, TargetNamespace = ns, TargetService = svc, TargetDeployment = depl, TargetPort = port,
      ScTargetPendingRequests = 100, ScConfigMapCacheRsyncPeriod = 60 * minute, DeploymentCacheRsyncPeriod = 60 * minute,
      QueueTickDuration = 500 * millisecond, ScProfilingAddr = []\<rparr>"

definition scaler_goroutines :: "scaler_config \<Rightarrow> instr list list" where
  "scaler_goroutines cfg =
     [[RunInformer], [RunInformer], [RunFiltered QueuePinger]] @
     (if ScProfilingAddr cfg \<noteq> [] then [[RunRaw ProfilingServer]] else []) @
     [[ListenGrpc]]"

text \<open>\<open>time.NewTicker\<close> panics unless its duration is positive, which ends the process with status 2.\<close>

definition scaler_fatal :: "scaler_config \<Rightarrow> component \<Rightarrow> nat option" where
  "scaler_fatal cfg c = (if c = QueuePinger \<and> QueueTickDuration cfg \<le> 0 then Some 2 else None)"

text \<open>\<open>cfg\<close> is None if \<open>mustParseConfig\<close> panics, which ends the process with status 2; then the errors of \<open>GetConfig\<close> and
  of the two clients.\<close>

definition scaler_main :: "scaler_config option \<Rightarrow> go_error option \<Rightarrow> go_error option \<Rightarrow> go_error option \<Rightarrow> main_outcome" where
  "scaler_main cfg kubeconfig client httpClient =
     (case cfg of
        None \<Rightarrow> Exits 2
      | Some cfg \<Rightarrow>
          if kubeconfig \<noteq> None then Exits 1
          else if client \<noteq> None then Exits 1
          else if httpClient \<noteq> None then Exits 1
          else Waits (new_group newProcess (map Run (scaler_goroutines cfg))))"

definition scaler_exit :: "(process, goroutine) group \<Rightarrow> farewell \<times> nat" where
  "scaler_exit g = (case farewell_of (gerr g) of FatalError e \<Rightarrow> (FatalError e, 1) | Bye \<Rightarrow> (Bye, 0))"

section \<open>The operator\<close>

record operator_flags =
  metricsAddr :: string
  probeAddr :: string
  profilingAddr :: string
  enableLeaderElection :: bool

definition defaultFlags :: operator_flags where
  "defaultFlags = \<lparr>metricsAddr = '':8080'', probeAddr = '':8081'', profilingAddr = [], enableLeaderElection = False\<rparr>"

text \<open>The options of \<open>ctrl.NewManager\<close>; the map of namespaces is nil or has one key.\<close>

record manager_options =
  MetricsBindAddress :: string
  PprofBindAddress :: string
  HealthProbeBindAddress :: string
  LeaderElection :: bool
  LeaderElectionID :: string
  LeaderElectionReleaseOnCancel :: bool
  LeaseDuration :: "duration option"
  RenewDeadline :: "duration option"
  RetryPeriod :: "duration option"
  DefaultNamespaces :: "string list option"

text \<open>What the code outside of the program yields: the environment, \<open>envconfig.Process\<close>, whether \<open>GetConfigOrDie\<close> finds a
  configuration, and the errors of making the manager, registering the controller and the two checks, and running.\<close>

record operator_world =
  ow_environ :: environment
  ow_envconfig :: "string \<Rightarrow> Base \<Rightarrow> Base result"
  ow_kubeconfig :: bool
  ow_newManager :: "manager_options \<Rightarrow> go_error option"
  ow_controller :: "go_error option"
  ow_healthz :: "go_error option"
  ow_readyz :: "go_error option"
  ow_start :: "go_error option"

definition operator_options :: "operator_flags \<Rightarrow> Base \<Rightarrow> duration option \<Rightarrow> duration option \<Rightarrow> duration option \<Rightarrow> manager_options" where
  "operator_options flags baseConfig leaseDuration renewDeadline retryPeriod =
     \<lparr>MetricsBindAddress = metricsAddr flags, PprofBindAddress = profilingAddr flags, HealthProbeBindAddress = probeAddr flags,
      LeaderElection = enableLeaderElection flags, LeaderElectionID = ''http-add-on.keda.sh'', LeaderElectionReleaseOnCancel = True,
      LeaseDuration = leaseDuration, RenewDeadline = renewDeadline, RetryPeriod = retryPeriod,
      DefaultNamespaces = (if Base.WatchNamespace baseConfig \<noteq> [] then Some [Base.WatchNamespace baseConfig] else None)\<rparr>"

text \<open>The options the manager is made with, if it comes to that, and the exit status.\<close>

definition operator_main :: "operator_world \<Rightarrow> operator_flags \<Rightarrow> manager_options option \<times> nat" where
  "operator_main w flags =
     (case NewExternalScalerFromEnv (ow_environ w) of
        Inl err \<Rightarrow> (None, 1)
      | Inr externalScalerCfg \<Rightarrow>
        (case NewBaseFromEnv (ow_envconfig w) of
           Inl err \<Rightarrow> (None, 1)
         | Inr baseConfig \<Rightarrow>
           (case ResolveOsEnvDuration (ow_environ w) ''KEDA_HTTP_OPERATOR_LEADER_ELECTION_LEASE_DURATION'' of
              (_, Some err) \<Rightarrow> (None, 1)
            | (leaseDuration, None) \<Rightarrow>
              (case ResolveOsEnvDuration (ow_environ w) ''KEDA_HTTP_OPERATOR_LEADER_ELECTION_RENEW_DEADLINE'' of
                 (_, Some err) \<Rightarrow> (None, 1)
               | (renewDeadline, None) \<Rightarrow>
                 (case ResolveOsEnvDuration (ow_environ w) ''KEDA_HTTP_OPERATOR_LEADER_ELECTION_RETRY_PERIOD'' of
                    (_, Some err) \<Rightarrow> (None, 1)
                  | (retryPeriod, None) \<Rightarrow>
                    (case ValidateLeaderElectionConfig leaseDuration renewDeadline retryPeriod of
                       Some err \<Rightarrow> (None, 1)
                     | None \<Rightarrow>
                       if \<not> ow_kubeconfig w then (None, 1)
                       else
                         (let opts = operator_options flags baseConfig leaseDuration renewDeadline retryPeriod
                          in (Some opts,
                              if ow_newManager w opts \<noteq> None then 1
                              else if ow_controller w \<noteq> None then 1
                              else if ow_healthz w \<noteq> None then 1
                              else if ow_readyz w \<noteq> None then 1
                              else if ow_start w \<noteq> None then 1
                              else 0))))))))"

section \<open>The routing table\<close>

text \<open>\<open>table.Start\<close> runs two goroutines in a group of its own. \<open>runInformer\<close> fails if the informer has been started
  before, and otherwise returns when the informer does: with the error of the context if that is done. \<open>refreshMemory\<close>
  first waits for the handlers to be synced and then, in each round, for a signal or the end of the context.\<close>

definition errStartedSharedIndexInformer :: go_error where
  "errStartedSharedIndexInformer = ErrMsg ''sharedIndexInformer has started, run more than once is not allowed''"

definition errStoppedSharedIndexInformer :: go_error where
  "errStoppedSharedIndexInformer = ErrMsg ''sharedIndexInformer has stopped''"

datatype table_goroutine = TRunInformer | TInformerRuns | TAwaitSync | TRefresh | TEnded go_error

fun table_returned :: "table_goroutine \<Rightarrow> go_error option option" where
  "table_returned (TEnded e) = Some (Some e)"
| "table_returned _ = None"

inductive runInformer :: "bool \<Rightarrow> bool \<Rightarrow> table_goroutine \<Rightarrow> table_goroutine \<Rightarrow> bool" for hasStarted where
  has_started: "hasStarted \<Longrightarrow> runInformer hasStarted d TRunInformer (TEnded errStartedSharedIndexInformer)"
| informer_runs: "\<not> hasStarted \<Longrightarrow> runInformer hasStarted d TRunInformer TInformerRuns"
| informer_done: "runInformer hasStarted True TInformerRuns (TEnded Canceled)"
| informer_stops: "runInformer hasStarted False TInformerRuns (TEnded errStoppedSharedIndexInformer)"

inductive refreshMemory :: "bool \<Rightarrow> table_goroutine \<Rightarrow> table_goroutine \<Rightarrow> bool" where
  handlers_synced: "refreshMemory d TAwaitSync TRefresh"
| sync_canceled: "refreshMemory True TAwaitSync (TEnded Canceled)"
| wait_canceled: "refreshMemory True TRefresh (TEnded Canceled)"

definition table_goroutine_step :: "bool \<Rightarrow> bool \<Rightarrow> unit \<Rightarrow> table_goroutine \<Rightarrow> unit \<Rightarrow> table_goroutine \<Rightarrow> bool" where
  "table_goroutine_step hasStarted d s p s' p' \<longleftrightarrow> runInformer hasStarted d p p' \<or> refreshMemory d p p'"

definition table_Start :: "(unit, table_goroutine) group" where
  "table_Start = new_group () [TRunInformer, TAwaitSync]"

abbreviation start_step :: "bool \<Rightarrow> (unit, table_goroutine) group \<Rightarrow> (unit, table_goroutine) group \<Rightarrow> bool" where
  "start_step hasStarted \<equiv> group_step (\<lambda>_. True) table_returned (\<lambda>_ _ _. False) (table_goroutine_step hasStarted)"

section \<open>Goroutines heed their context\<close>

fun heedful :: "goroutine \<Rightarrow> bool" where
  "heedful (Run is) = (\<forall>c. RunRaw c \<notin> set is)"
| "heedful (Ended r) \<longleftrightarrow> r = None \<or> \<not> IsIgnoredErr r"

fun instr_steps :: "instr \<Rightarrow> nat" where
  "instr_steps ListenGrpc = 2"
| "instr_steps _ = 1"

fun calls_left :: "goroutine \<Rightarrow> nat" where
  "calls_left (Run is) = Suc (sum_list (map instr_steps is))"
| "calls_left (Ended r) = 0"

lemma goroutine_step_heedful:
  "goroutine_step fatal d s p s' p' \<Longrightarrow> heedful p \<Longrightarrow>
     heedful p' \<and> calls_left p' < calls_left p \<and> pending_rpcs s' = pending_rpcs s"
  by (induction rule: goroutine_step.induct) (auto simp: afterwards_def)

lemma goroutine_step_exists:
  assumes "heedful p" "returned p = None"
  shows "(\<exists>s' p'. goroutine_step fatal True s p s' p') \<or> (\<exists>s'. outside True s s')"
proof -
  obtain "is" where p: "p = Run is" using assms(2) by (cases p) auto
  show ?thesis
  proof (cases "is")
    case Nil
    then show ?thesis unfolding p by (blast intro: goroutine_step.returns)
  next
    case (Cons c rest)
    then show ?thesis
    proof (cases c)
      case (RunFiltered x)
      then show ?thesis unfolding p Cons by (cases "fatal x") (blast intro: goroutine_step.stops goroutine_step.exits)+
    next
      case (RunRaw x)
      then show ?thesis using assms(1) by (auto simp: p Cons)
    next
      case ServeGrpc
      then show ?thesis unfolding p Cons
        by (cases "pending_rpcs s") (use goroutine_step.graceful_stop outside.rpc_ends in \<open>blast+\<close>)
    next
      case WaitForCacheSync
      then show ?thesis unfolding p Cons using goroutine_step.cache_synced [of True s] by blast
    next
      case StartFactory
      then show ?thesis unfolding p Cons using goroutine_step.start_factory [of fatal True s] by blast
    next
      case ListenGrpc
      then show ?thesis unfolding p Cons using goroutine_step.listens [of fatal True s] by blast
    next
      case RunInformer
      then show ?thesis unfolding p Cons using goroutine_step.informer [of fatal s] by blast
    qed
  qed
qed

interpretation goroutines: heeding returned "goroutine_step fatal" outside running heedful calls_left pending_rpcs for fatal
proof unfold_locales
  show "\<not> goroutine_step fatal d s p s' p'" if "returned p \<noteq> None" for d s p s' p'
    using that by (cases p) (auto elim: goroutine_ended)
  show "pending_rpcs s' < pending_rpcs s" if "outside True s s'" for s s'
    using that by cases simp_all
qed (simp_all add: goroutine_step_heedful goroutine_step_exists)

fun table_left :: "table_goroutine \<Rightarrow> nat" where
  "table_left (TEnded e) = 0"
| "table_left p = (if p \<in> {TRunInformer, TAwaitSync} then 2 else 1)"

fun table_ok :: "bool \<Rightarrow> table_goroutine \<Rightarrow> bool" where
  "table_ok hasStarted (TEnded e) \<longleftrightarrow>
     e = Canceled \<or> e = errStoppedSharedIndexInformer \<or> hasStarted \<and> e = errStartedSharedIndexInformer"
| "table_ok hasStarted p \<longleftrightarrow> True"

interpretation table_start: heeding table_returned "table_goroutine_step hasStarted" "\<lambda>_ _ _. False" "\<lambda>_. True" "table_ok hasStarted" table_left "\<lambda>_. 0" for hasStarted
proof unfold_locales
  show "table_ok hasStarted p'" if "table_goroutine_step hasStarted d s p s' p'" for d s p s' p'
    using that by (auto simp: table_goroutine_step_def elim!: runInformer.cases refreshMemory.cases)
  show "\<not> table_goroutine_step hasStarted d s p s' p'" if "table_returned p \<noteq> None" for d s p s' p'
    using that by (cases p) (auto simp: table_goroutine_step_def elim: runInformer.cases refreshMemory.cases)
  show "table_left p' < table_left p" if "table_goroutine_step hasStarted d s p s' p'" for d s p s' p'
    using that by (auto simp: table_goroutine_step_def elim!: runInformer.cases refreshMemory.cases)
  show "(\<exists>s' p'. table_goroutine_step hasStarted True s p s' p') \<or> (\<exists>s'. False)" if "table_returned p = None" for s p
    using that by (cases p; cases hasStarted) (auto simp: table_goroutine_step_def intro: runInformer.intros refreshMemory.intros)
qed simp_all

section \<open>How the programs end\<close>

lemma farewell_fatal: "\<not> IsIgnoredErr (Some e) \<Longrightarrow> farewell_of (Some e) = FatalError e"
  by (simp add: farewell_of_def IsIgnoredErr_def)

lemma err_inv_main:
  assumes "(main_step fatal)\<^sup>*\<^sup>* (new_group s (map Run iss)) g"
  shows "err_inv returned g"
  using assms goroutines.returned_rests by (rule err_inv_steps) auto

text \<open>A process is ended early only with a status of \<open>fatal\<close>.\<close>

lemma exit_status_fatal:
  assumes "(main_step fatal)\<^sup>*\<^sup>* (new_group newProcess ps) g" "exit_status (gshared g) = Some n"
  shows "\<exists>c. fatal c = Some n"
  using assms
proof (induction rule: rtranclp_induct)
  case base
  then show ?case by (simp add: newProcess_def)
next
  case (step y z)
  have run: "exit_status s' = exit_status s \<or> (\<exists>c. exit_status s' = fatal c)" if "goroutine_step fatal d s p s' p'" for d s p s' p'
    using that by cases (auto intro: sym)
  have out: "exit_status s' = exit_status s" if "outside d s s'" for d s s' using that by cases auto
  from step(2) have "exit_status (gshared z) = exit_status (gshared y) \<or> (\<exists>c. exit_status (gshared z) = fatal c)"
    by cases (auto dest: run out)
  with step show ?case by metis
qed

text \<open>What holds of every group of goroutines that all heed the context, once it is done.\<close>

lemma shutdown_ends:
  assumes "(main_step fatal)\<^sup>*\<^sup>* (new_group s (map Run iss)) g" "gdone g" "(main_step fatal ^^ k) g g'"
    "\<forall>is\<in>set iss. \<forall>c. RunRaw c \<notin> set is"
  shows "k \<le> sum_list (map (calls_left \<circ> Run) iss) + pending_rpcs (gshared g) \<and>
    ((\<forall>g''. \<not> main_step fatal g' g'') \<and> exit_status (gshared g') = None \<longrightarrow>
       all_returned returned g' \<and> (\<forall>e. gerr g' = Some e \<longrightarrow> \<not> IsIgnoredErr (Some e) \<and> Ended (Some e) \<in> set (procs g')))"
proof -
  have ok0: "goroutines.all_ok (new_group s (map Run iss))" using assms(4) by (simp add: goroutines.all_ok_def)
  have ok: "goroutines.all_ok g" using assms(1) ok0 by (rule goroutines.all_ok_steps)
  have "goroutines.work (new_group s (map Run iss)) = sum_list (map (calls_left \<circ> Run) iss)"
    by (simp add: goroutines.work_def comp_def)
  then have "goroutines.work g \<le> sum_list (map (calls_left \<circ> Run) iss)" using goroutines.work_mono [OF assms(1) ok0] by simp
  with goroutines.group_ends [OF ok assms(2,3)]
  have ends: "k \<le> sum_list (map (calls_left \<circ> Run) iss) + pending_rpcs (gshared g)"
    "(\<forall>g''. \<not> main_step fatal g' g'') \<and> exit_status (gshared g') = None \<longrightarrow> all_returned returned g'" by (auto simp: running_def)
  have reach: "(main_step fatal)\<^sup>*\<^sup>* (new_group s (map Run iss)) g'"
    using assms(1,3) by (meson relpowp_imp_rtranclp rtranclp_trans)
  have "\<not> IsIgnoredErr (Some e) \<and> Ended (Some e) \<in> set (procs g')" if "gerr g' = Some e" for e
  proof -
    have "Some (Some e) \<in> returned ` set (procs g')" using err_inv_main [OF reach] that by (simp add: err_inv_def)
    then obtain q where q: "q \<in> set (procs g')" "returned q = Some (Some e)" by auto
    from q(2) have "q = Ended (Some e)" by (cases q) simp_all
    with q(1) have p: "Ended (Some e) \<in> set (procs g')" by simp
    then have "heedful (Ended (Some e))" using goroutines.all_ok_steps [OF reach ok0] by (auto simp: goroutines.all_ok_def)
    with p show ?thesis by simp
  qed
  with ends show ?thesis by simp
qed

lemma Validate_keeps: "Validate env srv ts = (srv', r) \<Longrightarrow> ProfilingAddr srv' = ProfilingAddr srv \<and> ProxyTLSEnabled srv' = ProxyTLSEnabled srv"
  by (auto simp: Validate_def Let_def split: if_splits)

lemma interceptor_main_waits:
  assumes "interceptor_main w = Waits g"
  obtains servingCfg metricsCfg where "g = new_group newProcess (map Run (interceptor_goroutines servingCfg metricsCfg))"
    "ProfilingAddr servingCfg = ProfilingAddr (the (iw_serving w))" "ProxyTLSEnabled servingCfg = ProxyTLSEnabled (the (iw_serving w))"
  using assms Validate_keeps by (auto simp: interceptor_main_def split: option.splits prod.splits if_splits)

text \<open>The calls a goroutine may still make stay among those it began with.\<close>

fun mentions :: "instr set \<Rightarrow> goroutine \<Rightarrow> bool" where
  "mentions X (Run is) \<longleftrightarrow> (\<exists>c\<in>X. c \<in> set is)"
| "mentions X (Ended r) \<longleftrightarrow> False"

lemma goroutine_step_mentions:
  "goroutine_step fatal d s p s' p' \<Longrightarrow> \<not> mentions X p \<Longrightarrow> (ServeGrpc \<in> X \<longrightarrow> ListenGrpc \<in> X) \<Longrightarrow>
     \<not> mentions X p' \<and> (StartFactory \<in> X \<longrightarrow> factory_started s' = factory_started s) \<and>
     (ListenGrpc \<in> X \<longrightarrow> grpc_serving s \<or> \<not> grpc_serving s') \<and> pending_rpcs s' = pending_rpcs s"
  by (induction rule: goroutine_step.induct) (auto simp: afterwards_def)

text \<open>A program without a gRPC server has no pending calls.\<close>

abbreviation grpc :: "instr set" where
  "grpc \<equiv> {ListenGrpc, ServeGrpc}"

definition grpc_free :: "(process, goroutine) group \<Rightarrow> bool" where
  "grpc_free g \<longleftrightarrow> \<not> grpc_serving (gshared g) \<and> pending_rpcs (gshared g) = 0 \<and> (\<forall>p\<in>set (procs g). \<not> mentions grpc p)"

lemma grpc_free_step:
  assumes "main_step fatal g g'" "grpc_free g"
  shows "grpc_free g'"
  using assms(1)
proof cases
  case (run i s p)
  have "\<not> mentions grpc (procs g ! i)" using assms(2) run(3) by (simp add: grpc_free_def)
  with run(4) have "\<not> mentions grpc p \<and> (grpc_serving (gshared g) \<or> \<not> grpc_serving s) \<and> pending_rpcs s = pending_rpcs (gshared g)"
    using goroutine_step_mentions [of fatal "gdone g" "gshared g" "procs g ! i" s p grpc] by simp
  with assms(2) run(1) set_update_subset_insert [of "procs g" i p] show ?thesis by (auto simp: grpc_free_def)
next
  case (surroundings s)
  from surroundings(3) show ?thesis using assms(2) surroundings(1) by cases (auto simp: grpc_free_def)
qed (use assms(2) in \<open>auto simp: grpc_free_def\<close>)

lemma grpc_free_steps:
  assumes "(main_step fatal)\<^sup>*\<^sup>* (new_group newProcess (map Run iss)) g" "\<forall>is\<in>set iss. \<forall>c\<in>grpc. c \<notin> set is"
  shows "pending_rpcs (gshared g) = 0"
proof -
  have "grpc_free (new_group newProcess (map Run iss))" using assms(2) by (simp add: grpc_free_def newProcess_def)
  with assms(1) have "grpc_free g" by (induction rule: rtranclp_induct) (use grpc_free_step in blast)+
  then show ?thesis by (simp add: grpc_free_def)
qed

text \<open>A goroutine that heeds the context can run to its end without an error, and so can a number of them; the gRPC server
  only if no call is pending.\<close>

abbreviation unblocked :: "process \<Rightarrow> goroutine \<Rightarrow> bool" where
  "unblocked s p \<equiv> heedful p \<and> (pending_rpcs s = 0 \<or> \<not> mentions grpc p)"

lemma main_step_run:
  assumes "goroutine_step fatal (gdone g) (gshared g) (procs g ! i) s (Run is)" "running (gshared g)" "i < length (procs g)"
  shows "main_step fatal g (g\<lparr>gshared := s, procs := (procs g)[i := Run is]\<rparr>)"
  using group_step.run [of running g i "goroutine_step fatal" s "Run is" returned outside] assms by (simp add: settle_def)

lemma run_call:
  assumes "unblocked (gshared g) (Run (c # is))" "gdone g" "running (gshared g)" "i < length (procs g)" "procs g ! i = Run (c # is)"
  shows "\<exists>s. running s \<and> pending_rpcs s = pending_rpcs (gshared g) \<and>
    (main_step (\<lambda>_. None))\<^sup>*\<^sup>* g (g\<lparr>gshared := s, procs := (procs g)[i := Run is]\<rparr>)"
proof -
  let ?s = "gshared g"
  have one: ?thesis if "goroutine_step (\<lambda>_. None) True ?s (Run (c # is)) s (Run is)" "running s" "pending_rpcs s = pending_rpcs ?s" for s
    using main_step_run [of "\<lambda>_. None" g i s "is"] that assms(2-5) by (intro exI [of _ s]) (simp add: r_into_rtranclp)
  have serve: ?thesis if "c \<in> grpc"
  proof -
    have none: "pending_rpcs ?s = 0" using that assms(1) by auto
    let ?t = "?s\<lparr>grpc_serving := True\<rparr>" and ?u = "?s\<lparr>grpc_serving := False\<rparr>"
    have u: "running ?u" "running ?t" using assms(3) by (simp_all add: running_def)
    have stop: "goroutine_step (\<lambda>_. None) True x (Run (ServeGrpc # is)) (x\<lparr>grpc_serving := False\<rparr>) (Run is)" if "pending_rpcs x = 0" for x
      using goroutine_step.graceful_stop [OF that, of "\<lambda>_. None" "is"] by (simp add: afterwards_def IsIgnoredErr_def)
    show ?thesis
    proof (cases "c = ServeGrpc")
      case True
      then show ?thesis using one [OF _ u(1)] stop [OF none] by simp
    next
      case False
      let ?g = "g\<lparr>gshared := ?t, procs := (procs g)[i := Run (ServeGrpc # is)]\<rparr>"
      have "main_step (\<lambda>_. None) g ?g"
        by (rule main_step_run) (use assms(2-5) that False goroutine_step.listens in auto)
      moreover have "main_step (\<lambda>_. None) ?g (?g\<lparr>gshared := ?u, procs := (procs ?g)[i := Run is]\<rparr>)"
        by (rule main_step_run) (use assms(2,4) stop [of ?t] none u(2) in simp_all)
      ultimately have "(main_step (\<lambda>_. None))\<^sup>*\<^sup>* g (g\<lparr>gshared := ?u, procs := (procs g)[i := Run is]\<rparr>)"
        by (simp add: converse_rtranclp_into_rtranclp r_into_rtranclp)
      with u(1) show ?thesis by (intro exI [of _ ?u]) simp
    qed
  qed
  show ?thesis
  proof (cases c)
    case StartFactory
    then show ?thesis using one [OF goroutine_step.start_factory [of _ True ?s "is", folded StartFactory]] assms(3) by (simp add: running_def)
  next
    case (RunFiltered x)
    have "afterwards (Some (stopped x)) is = Run is" by (cases x) (simp_all add: afterwards_def IsIgnoredErr_def)
    with RunFiltered show ?thesis using one [of ?s] goroutine_step.stops [of "\<lambda>_. None" x ?s "is"] assms(3) by simp
  next
    case (RunRaw x)
    with assms(1) show ?thesis by auto
  qed (use one [of ?s] serve goroutine_step.informer goroutine_step.cache_synced assms(3) in auto)
qed

lemma drain_one:
  assumes "unblocked (gshared g) (Run is)" "gdone g" "running (gshared g)" "i < length (procs g)" "procs g ! i = Run is"
  shows "\<exists>s. running s \<and> pending_rpcs s = pending_rpcs (gshared g) \<and>
    (main_step (\<lambda>_. None))\<^sup>*\<^sup>* g (g\<lparr>gshared := s, procs := (procs g)[i := Ended None]\<rparr>)"
  using assms
proof (induction "is" arbitrary: g)
  case Nil
  then have "main_step (\<lambda>_. None) g (settle returned (Ended None) (g\<lparr>gshared := gshared g, procs := (procs g)[i := Ended None]\<rparr>))"
    by (intro group_step.run) (simp_all add: goroutine_step.returns)
  with Nil(3) show ?case by (intro exI [of _ "gshared g"]) (simp add: settle_def)
next
  case (Cons c "is")
  from run_call [OF Cons.prems] obtain s where s: "running s" "pending_rpcs s = pending_rpcs (gshared g)"
    "(main_step (\<lambda>_. None))\<^sup>*\<^sup>* g (g\<lparr>gshared := s, procs := (procs g)[i := Run is]\<rparr>)" by blast
  let ?h = "g\<lparr>gshared := s, procs := (procs g)[i := Run is]\<rparr>"
  have "\<exists>s'. running s' \<and> pending_rpcs s' = pending_rpcs (gshared ?h) \<and>
      (main_step (\<lambda>_. None))\<^sup>*\<^sup>* ?h (?h\<lparr>gshared := s', procs := (procs ?h)[i := Ended None]\<rparr>)"
    by (rule Cons.IH) (use s(1,2) Cons.prems in auto)
  then obtain s' where s': "running s'" "pending_rpcs s' = pending_rpcs (gshared g)"
    "(main_step (\<lambda>_. None))\<^sup>*\<^sup>* ?h (g\<lparr>gshared := s', procs := (procs g)[i := Ended None]\<rparr>)"
    using s(2) by auto
  then show ?case using rtranclp_trans [OF s(3) s'(3)] by blast
qed

lemma drain:
  assumes "\<forall>p\<in>set (take n (procs g)). unblocked (gshared g) p \<and> returned p = None" "gdone g" "running (gshared g)" "n \<le> length (procs g)"
  shows "\<exists>s. running s \<and> pending_rpcs s = pending_rpcs (gshared g) \<and>
    (main_step (\<lambda>_. None))\<^sup>*\<^sup>* g (g\<lparr>gshared := s, procs := replicate n (Ended None) @ drop n (procs g)\<rparr>)"
  using assms
proof (induction n)
  case 0
  then show ?case by (intro exI [of _ "gshared g"]) simp
next
  case (Suc n)
  have tk: "take (Suc n) (procs g) = take n (procs g) @ [procs g ! n]" using Suc.prems(4) by (simp add: take_Suc_conv_app_nth)
  then obtain s where s: "running s" "pending_rpcs s = pending_rpcs (gshared g)"
    "(main_step (\<lambda>_. None))\<^sup>*\<^sup>* g (g\<lparr>gshared := s, procs := replicate n (Ended None) @ drop n (procs g)\<rparr>)"
    using Suc by auto
  let ?h = "g\<lparr>gshared := s, procs := replicate n (Ended None) @ drop n (procs g)\<rparr>"
  have "unblocked (gshared g) (procs g ! n)" "returned (procs g ! n) = None" using tk Suc.prems(1) by auto
  then obtain "is" where "is": "procs g ! n = Run is" "unblocked (gshared g) (Run is)" by (cases "procs g ! n") auto
  have hn: "procs ?h ! n = Run is" "n < length (procs ?h)" using Suc.prems(4) "is" by (simp_all add: nth_append)
  have ub: "unblocked (gshared ?h) (Run is)" using "is"(2) s(2) by simp
  obtain s' where s': "running s'" "pending_rpcs s' = pending_rpcs s"
    "(main_step (\<lambda>_. None))\<^sup>*\<^sup>* ?h (?h\<lparr>gshared := s', procs := (procs ?h)[n := Ended None]\<rparr>)"
    using drain_one [OF ub _ _ hn(2,1)] Suc.prems(2) s(1) by auto
  have "(procs ?h)[n := Ended None] = replicate (Suc n) (Ended None) @ drop (Suc n) (procs g)"
    using Suc.prems(4) by (simp add: list_update_append replicate_append_same Cons_nth_drop_Suc [symmetric])
  with s'(3) have "(main_step (\<lambda>_. None))\<^sup>*\<^sup>* ?h (g\<lparr>gshared := s', procs := replicate (Suc n) (Ended None) @ drop (Suc n) (procs g)\<rparr>)"
    by (simp del: replicate_Suc)
  with s(3) have "(main_step (\<lambda>_. None))\<^sup>*\<^sup>* g (g\<lparr>gshared := s', procs := replicate (Suc n) (Ended None) @ drop (Suc n) (procs g)\<rparr>)"
    by (rule rtranclp_trans)
  with s'(1,2) s(2) show ?case by auto
qed

text \<open>Before the context is done, the first goroutine of the interceptor is still running its informer, and no other goroutine
  starts the factory.\<close>

abbreviation starts_factory :: "goroutine \<Rightarrow> bool" where
  "starts_factory \<equiv> mentions {StartFactory}"

lemma informer_blocks: "\<not> goroutine_step fatal False s (Run (RunInformer # is)) s' p"
  by (auto elim: goroutine_step.cases)

definition unstarted :: "(process, goroutine) group \<Rightarrow> bool" where
  "unstarted g \<longleftrightarrow> gdone g \<or>
     (\<exists>is ps. procs g = Run (RunInformer # is) # ps \<and> \<not> factory_started (gshared g) \<and> (\<forall>p\<in>set ps. \<not> starts_factory p))"

lemma unstarted_step:
  assumes "main_step fatal g g'" "unstarted g"
  shows "unstarted g'"
  using assms(1)
proof cases
  case (run i s p)
  show ?thesis
  proof (cases "gdone g")
    case True
    with run(1) show ?thesis by (simp add: unstarted_def)
  next
    case False
    then obtain "is" ps where ps: "procs g = Run (RunInformer # is) # ps" "\<not> factory_started (gshared g)" "\<forall>p\<in>set ps. \<not> starts_factory p"
      using assms(2) by (auto simp: unstarted_def)
    obtain j where j: "i = Suc j" "j < length ps" using run(3,4) ps(1) False informer_blocks by (cases i) auto
    have "\<not> starts_factory p \<and> factory_started s = factory_started (gshared g)"
      using goroutine_step_mentions [OF run(4), of "{StartFactory}"] ps j by auto
    then show ?thesis using run(1) ps j set_update_subset_insert [of ps j p] by (auto simp: unstarted_def)
  qed
next
  case (surroundings s)
  from surroundings(3) show ?thesis using assms(2) surroundings(1) by cases (auto simp: unstarted_def)
qed (auto simp: unstarted_def)

lemma unstarted_interceptor:
  assumes "interceptor_main w = Waits g0" "(main_step fatal)\<^sup>*\<^sup>* g0 g"
  shows "unstarted g"
  using assms(2)
proof (induction rule: rtranclp_induct)
  case base
  obtain servingCfg metricsCfg where "g0 = new_group newProcess (map Run (interceptor_goroutines servingCfg metricsCfg))"
    using interceptor_main_waits [OF assms(1)] by metis
  then show ?case by (auto simp: unstarted_def interceptor_goroutines_def newProcess_def)
next
  case (step y z)
  then show ?case using unstarted_step by blast
qed

text \<open>A group whose goroutines have all returned rests once no call is pending.\<close>

lemma all_returned_rests: "gdone g \<Longrightarrow> all_returned returned g \<Longrightarrow> pending_rpcs (gshared g) = 0 \<Longrightarrow> \<not> main_step fatal g g'"
  using goroutines.returned_rests [of _ fatal] by (fastforce simp: all_returned_def elim!: group_step.cases outside.cases)

lemma drained:
  assumes "\<forall>is\<in>set iss. \<forall>c. RunRaw c \<notin> set is"
  obtains g g' k where "(main_step (\<lambda>_. None))\<^sup>*\<^sup>* (new_group newProcess (map Run iss)) g" "gdone g"
    "(main_step (\<lambda>_. None) ^^ k) g g'" "gdone g'" "all_returned returned g'" "exit_status (gshared g') = None" "gerr g' = None"
    "pending_rpcs (gshared g') = 0"
proof -
  let ?init = "new_group newProcess (map Run iss)" and ?g = "(new_group newProcess (map Run iss))\<lparr>gdone := True\<rparr>"
  have "main_step (\<lambda>_. None) ?init ?g" by (rule group_step.cancel) (simp_all add: running_def newProcess_def)
  moreover obtain s where s: "running s" "pending_rpcs s = 0"
    "(main_step (\<lambda>_. None))\<^sup>*\<^sup>* ?g (?g\<lparr>gshared := s, procs := replicate (length iss) (Ended None) @ drop (length iss) (procs ?g)\<rparr>)"
    using drain [of "length iss" ?g] assms by (auto simp: running_def newProcess_def)
  moreover from s(3) obtain k where
    "(main_step (\<lambda>_. None) ^^ k) ?g (?g\<lparr>gshared := s, procs := replicate (length iss) (Ended None) @ drop (length iss) (procs ?g)\<rparr>)"
    using rtranclp_imp_relpowp by metis
  ultimately show ?thesis by (intro that [of ?g k]) (use s(2) in \<open>auto simp: all_returned_def running_def\<close>)
qed

section \<open>Properties\<close>

text \<open>C15: without a profiling server, the interceptor shuts down. Once the context of its goroutines is done, by a signal or
  by the failure of a component, at most 16 more steps are possible, in whatever order the goroutines take them; and
  when none is left, either the process has been ended with status 1 because \<open>getTLSConfig\<close> failed, or all goroutines have
  returned. Then \<open>main\<close> says good-bye unless a component had failed with an error that is not ignored, and the
  exit status is 1 in any case.\<close>

theorem interceptor_shutdown_ends:
  assumes "interceptor_main w = Waits g0" "iw_serving w = Some servingCfg" "ProfilingAddr servingCfg = []"
    "(main_step (interceptor_fatal F rng pool servingCfg))\<^sup>*\<^sup>* g0 g" "gdone g"
    "(main_step (interceptor_fatal F rng pool servingCfg) ^^ k) g g'"
  shows "k \<le> 16 \<and>
    ((\<forall>g''. \<not> main_step (interceptor_fatal F rng pool servingCfg) g' g'') \<longrightarrow>
       (case exit_status (gshared g') of
          Some n \<Rightarrow> n = 1 \<and> snd (getTLSConfig F rng pool (TLSCertPath servingCfg) (TLSKeyPath servingCfg)
            (TLSCertStorePaths servingCfg) (TLSSkipVerify servingCfg)) \<noteq> None
        | None \<Rightarrow> all_returned returned g' \<and>
            (interceptor_exit g' = (Bye, 1) \<or>
             (\<exists>e. interceptor_exit g' = (FatalError e, 1) \<and> \<not> IsIgnoredErr (Some e) \<and> Ended (Some e) \<in> set (procs g')))))"
proof -
  let ?fatal = "interceptor_fatal F rng pool servingCfg"
  obtain srv metricsCfg where g0: "g0 = new_group newProcess (map Run (interceptor_goroutines srv metricsCfg))" "ProfilingAddr srv = []"
    using interceptor_main_waits [OF assms(1)] assms(2,3) by (metis option.sel)
  have iss: "\<forall>is\<in>set (interceptor_goroutines srv metricsCfg). \<forall>c. RunRaw c \<notin> set is"
    "\<forall>is\<in>set (interceptor_goroutines srv metricsCfg). \<forall>c\<in>grpc. c \<notin> set is"
    "sum_list (map (calls_left \<circ> Run) (interceptor_goroutines srv metricsCfg)) \<le> 16"
    using g0(2) by (auto simp: interceptor_goroutines_def)
  have none: "pending_rpcs (gshared g) = 0" using assms(4)[unfolded g0(1)] iss(2) by (rule grpc_free_steps)
  have "(main_step ?fatal)\<^sup>*\<^sup>* g0 g'" using assms(4,6) by (meson relpowp_imp_rtranclp rtranclp_trans)
  then have "\<exists>c. ?fatal c = Some n" if "exit_status (gshared g') = Some n" for n
    using exit_status_fatal that unfolding g0(1) by blast
  then have early: "n = 1 \<and> snd (getTLSConfig F rng pool (TLSCertPath servingCfg) (TLSKeyPath servingCfg)
      (TLSCertStorePaths servingCfg) (TLSSkipVerify servingCfg)) \<noteq> None" if "exit_status (gshared g') = Some n" for n
    using that by (fastforce simp: interceptor_fatal_def split: if_splits)
  note ends = shutdown_ends [OF assms(4)[unfolded g0(1)] assms(5,6) iss(1)]
  then have "k \<le> 16" using none iss(3) by linarith
  moreover have "interceptor_exit g' = (Bye, 1) \<or> (\<exists>e. interceptor_exit g' = (FatalError e, 1) \<and> gerr g' = Some e)"
    if "\<forall>e. gerr g' = Some e \<longrightarrow> \<not> IsIgnoredErr (Some e)"
    using that by (cases "gerr g'") (auto simp: interceptor_exit_def farewell_fatal farewell_of_def)
  ultimately show ?thesis using ends early by (cases "exit_status (gshared g')") auto
qed

definition demo_serving :: "string \<Rightarrow> ServingConfig" where
  "demo_serving addr = (defaultServing ''keda'' 8080 9090)\<lparr>ProfilingAddr := addr, TLSCertPath := []\<rparr>"

definition demo_world :: "string \<Rightarrow> interceptor_world" where
  "demo_world addr =
     \<lparr>iw_timeouts = Some defaultTimeouts, iw_serving = Some (demo_serving addr),
      iw_metrics = Some defaultMetrics, iw_tracing = Some defaultTracing, iw_environ = Map.empty, iw_exporters = None,
      iw_kubeconfig = True, iw_client = None, iw_httpClient = None, iw_table = None\<rparr>"

lemma demo_world_main:
  "iw_serving (demo_world a) = Some (demo_serving a)"
  "interceptor_main (demo_world a) = Waits (new_group newProcess (map Run
     (interceptor_goroutines (demo_serving a) defaultMetrics)))"
  by (simp_all add: interceptor_main_def demo_world_def Validate_def Let_def demo_serving_def defaultServing_def defaultTimeouts_def
      millisecond_def wrap64_def)

theorem interceptor_shutdown_ends_witness:
  "\<exists>g g' k. (main_step (\<lambda>_. None))\<^sup>*\<^sup>* (new_group newProcess (map Run (interceptor_goroutines (demo_serving []) defaultMetrics))) g \<and>
     gdone g \<and> (main_step (\<lambda>_. None) ^^ k) g g' \<and> k \<le> 16 \<and> all_returned returned g' \<and> interceptor_exit g' = (Bye, 1)"
proof -
  let ?iss = "interceptor_goroutines (demo_serving []) defaultMetrics"
  have "\<forall>is\<in>set ?iss. \<forall>c. RunRaw c \<notin> set is" by (simp add: interceptor_goroutines_def demo_serving_def defaultServing_def defaultMetrics_def)
  then obtain g g' k where g: "(main_step (\<lambda>_. None))\<^sup>*\<^sup>* (new_group newProcess (map Run ?iss)) g" "gdone g"
    "(main_step (\<lambda>_. None) ^^ k) g g'" "gdone g'" "all_returned returned g'" "exit_status (gshared g') = None" "gerr g' = None"
    "pending_rpcs (gshared g') = 0"
    by (rule drained)
  have serving: "iw_serving (demo_world []) = Some (demo_serving [])" "ProfilingAddr (demo_serving []) = []"
    using demo_world_main(1) by (simp_all add: demo_serving_def)
  have fatal: "interceptor_fatal demo_loader id [] (demo_serving []) = (\<lambda>_. None)"
    by (rule ext) (simp add: interceptor_fatal_def getTLSConfig_def loadDefault_def demo_serving_def defaultServing_def)
  have "k \<le> 16"
    using interceptor_shutdown_ends [OF demo_world_main(2)  serving, of demo_loader id "[]", unfolded fatal, OF g(1-3)] by simp
  with g show ?thesis by (intro exI [of _ g] exI [of _ g'] exI [of _ k]) (simp add: interceptor_exit_def farewell_of_def)
qed

text \<open>With a profiling server, the interceptor does not shut down. It serves with \<open>http.ListenAndServe\<close>, which no
  context stops: there is a run in which the context is done and every other goroutine has returned, and from there
  nothing can happen but a failure of the profiling server. \<open>eg.Wait\<close> does not return.\<close>

theorem profiling_blocks_shutdown:
  assumes "interceptor_main w = Waits g0" "ProfilingAddr (the (iw_serving w)) \<noteq> []"
  shows "\<exists>g. (main_step (\<lambda>_. None))\<^sup>*\<^sup>* g0 g \<and> gdone g \<and> gerr g = None \<and>
    (\<forall>p\<in>set (butlast (procs g)). p = Ended None) \<and> last (procs g) = Run [RunRaw ProfilingServer] \<and>
    (\<forall>g'. main_step (\<lambda>_. None) g g' \<longrightarrow> (\<exists>e. last (procs g') = Ended (Some e)))"
proof -
  obtain servingCfg metricsCfg where g0: "g0 = new_group newProcess (map Run (interceptor_goroutines servingCfg metricsCfg))"
    "ProfilingAddr servingCfg \<noteq> []"
    using interceptor_main_waits [OF assms(1)] assms(2) by metis
  define ps where "ps = map Run (butlast (interceptor_goroutines servingCfg metricsCfg))"
  have procs0: "procs g0 = ps @ [Run [RunRaw ProfilingServer]]" "\<forall>p\<in>set ps. heedful p \<and> returned p = None"
    using g0 by (auto simp: ps_def interceptor_goroutines_def)
  let ?g1 = "g0\<lparr>gdone := True\<rparr>"
  have r0: "running (gshared g0)" "\<not> gdone g0" "gerr g0 = None" "pending_rpcs (gshared g0) = 0" using g0(1) by (simp_all add: running_def newProcess_def)
  from r0(1,2) have cancel: "main_step (\<lambda>_. None) g0 ?g1" by (intro group_step.cancel)
  obtain s where s: "running s" "pending_rpcs s = 0" "(main_step (\<lambda>_. None))\<^sup>*\<^sup>* ?g1 (?g1\<lparr>gshared := s, procs := replicate (length ps) (Ended None) @ drop (length ps) (procs ?g1)\<rparr>)"
    using drain [of "length ps" ?g1] procs0 r0(1,4) by auto
  let ?g = "?g1\<lparr>gshared := s, procs := replicate (length ps) (Ended None) @ [Run [RunRaw ProfilingServer]]\<rparr>"
  have "(main_step (\<lambda>_. None))\<^sup>*\<^sup>* ?g1 ?g" using s(3) procs0(1) by simp
  with cancel have "(main_step (\<lambda>_. None))\<^sup>*\<^sup>* g0 ?g" by (rule converse_rtranclp_into_rtranclp)
  moreover have "\<exists>e. last (procs g') = Ended (Some e)" if "main_step (\<lambda>_. None) ?g g'" for g'
    using that
  proof cases
    case (run i s p)
    have "i = length ps"
    proof (rule ccontr)
      assume "i \<noteq> length ps"
      then have "procs ?g ! i = Ended None" using run(3) by (simp add: nth_append)
      with run(4) show False by (auto elim: goroutine_ended)
    qed
    with run show ?thesis by (auto simp: nth_append list_update_append elim!: goroutine_raw)
  next
    case (surroundings s')
    from surroundings(3) show ?thesis using s(2) by cases simp_all
  qed simp_all
  ultimately show ?thesis using r0(3) by (intro exI [of _ ?g]) auto
qed

theorem profiling_blocks_shutdown_witness:
  "\<exists>g0 g. interceptor_main (demo_world '':6060'') = Waits g0 \<and> (main_step (\<lambda>_. None))\<^sup>*\<^sup>* g0 g \<and> gdone g \<and>
     last (procs g) = Run [RunRaw ProfilingServer]"
  using profiling_blocks_shutdown [OF demo_world_main(2) [of "'':6060''"]] demo_world_main by (auto simp: demo_serving_def)

text \<open>C32: the cache of services is never used. Its informer is started by the goroutine that first runs the informer of
  the endpoints cache, and that call returns only when the context is done: as long as it is not, the factory is not
  started, \<open>WaitForCacheSync\<close> lets the proxy servers go on at once, and, since the lister of an informer that
  has not been started finds nothing, every lookup of a service is a request to the API server.\<close>

theorem service_cache_unused:
  assumes "interceptor_main w = Waits g0" "(main_step fatal)\<^sup>*\<^sup>* g0 g" "\<not> gdone g"
    "\<And>s ns nm. \<not> factory_started s \<Longrightarrow> isl (svcLister s ns nm)"
  shows "ServicesCache_Get (svcLister (gshared g)) api = api \<and>
    (\<forall>i is. exit_status (gshared g) = None \<and> i < length (procs g) \<and> procs g ! i = Run (WaitForCacheSync # is) \<longrightarrow>
       main_step fatal g (g\<lparr>procs := (procs g)[i := Run is]\<rparr>))"
proof -
  have idle: "\<not> factory_started (gshared g)" using unstarted_interceptor [OF assms(1,2)] assms(3) by (auto simp: unstarted_def)
  then have "ServicesCache_Get (svcLister (gshared g)) api ns nm = api ns nm" for ns nm
    using assms(4) [of "gshared g" ns nm] by (auto simp: ServicesCache_Get_def isl_def)
  moreover have "main_step fatal g (settle returned (Run is) (g\<lparr>gshared := gshared g, procs := (procs g)[i := Run is]\<rparr>))"
    if "exit_status (gshared g) = None" "i < length (procs g)" "procs g ! i = Run (WaitForCacheSync # is)" for i "is"
    using that idle by (intro group_step.run) (simp_all add: running_def goroutine_step.cache_synced)
  ultimately show ?thesis by (auto simp: settle_def)
qed

theorem service_cache_unused_witness:
  "ServicesCache_Get (\<lambda>ns nm. Inl (NotFound nm)) (\<lambda>ns nm. Inr [(nm, 80)]) = (\<lambda>ns nm. Inr [(nm, 80)])"
  using service_cache_unused [of "demo_world []" _ "\<lambda>_. None" _
      "\<lambda>s ns nm. if factory_started s then Inr [] else Inl (NotFound nm)" "\<lambda>ns nm. Inr [(nm, 80)]",
    OF demo_world_main(2) rtranclp.rtrancl_refl]
  by (simp add: newProcess_def)



text \<open>A stream goes on as long as it is asked to: no tick of its ticker ends it.\<close>

lemma StreamIsActive_goes_on:
  assumes "\<forall>ev\<in>set evs. \<exists>q a. ev = StreamTick q None \<and> IsActive str lister q sor = Inr (Inr a)"
  shows "snd (StreamIsActive str lister sor evs) = None"
  using assms
proof (induction evs)
  case (Cons ev evs)
  then obtain q a where "ev = StreamTick q None" "IsActive str lister q sor = Inr (Inr a)" by auto
  with Cons show ?case by (simp add: apfst_def map_prod_def split_beta)
qed simp

lemma rpcs_begin:
  assumes "running (gshared g)" "grpc_serving (gshared g)" "\<not> gdone g"
  shows "(main_step fatal)\<^sup>*\<^sup>* g (g\<lparr>gshared := (gshared g)\<lparr>pending_rpcs := pending_rpcs (gshared g) + n\<rparr>\<rparr>)"
proof (induction n)
  case (Suc n)
  let ?g = "g\<lparr>gshared := (gshared g)\<lparr>pending_rpcs := pending_rpcs (gshared g) + n\<rparr>\<rparr>"
  have "main_step fatal ?g (?g\<lparr>gshared := (gshared ?g)\<lparr>pending_rpcs := pending_rpcs (gshared ?g) + 1\<rparr>\<rparr>)"
    by (rule group_step.surroundings) (use assms outside.rpc_begins [of "gshared ?g"] in \<open>simp_all add: running_def\<close>)
  with Suc show ?case by (simp add: rtranclp.rtrancl_into_rtrancl)
qed simp

abbreviation others_returned :: "(process, goroutine) group \<Rightarrow> bool" where
  "others_returned g \<equiv> procs g = replicate 3 (Ended None) @ [Run [ServeGrpc]]"

lemma streams_pending:
  assumes "g0 = new_group newProcess (map Run (scaler_goroutines cfg))" "ScProfilingAddr cfg = []"
  obtains g where "(main_step (\<lambda>_. None))\<^sup>*\<^sup>* g0 g" "gdone g" "gerr g = None" "pending_rpcs (gshared g) = n" "others_returned g"
proof -
  let ?ps = "[Run [RunInformer], Run [RunInformer], Run [RunFiltered QueuePinger]]"
  have g0: "g0 = new_group newProcess (?ps @ [Run [ListenGrpc]])" using assms by (simp add: scaler_goroutines_def)
  let ?s = "newProcess\<lparr>grpc_serving := True\<rparr>" and ?s' = "newProcess\<lparr>grpc_serving := True, pending_rpcs := n\<rparr>"
  let ?a = "new_group ?s (?ps @ [Run [ServeGrpc]])" and ?b = "new_group ?s' (?ps @ [Run [ServeGrpc]])"
  have r: "running newProcess" "running ?s" "running ?s'" by (simp_all add: running_def newProcess_def)
  have "goroutine_step (\<lambda>_. None) False newProcess (Run [ListenGrpc]) ?s (Run [ServeGrpc])" by (rule goroutine_step.listens)
  then have a: "main_step (\<lambda>_. None) g0 ?a"
    using main_step_run [of "\<lambda>_. None" g0 3 ?s "[ServeGrpc]"] r(1) by (simp add: g0 new_group_def)
  have b: "(main_step (\<lambda>_. None))\<^sup>*\<^sup>* ?a ?b"
    using rpcs_begin [of ?a "\<lambda>_. None" n] r(2) by (simp add: new_group_def newProcess_def)
  have c: "main_step (\<lambda>_. None) ?b (?b\<lparr>gdone := True\<rparr>)" by (rule group_step.cancel) (use r(3) in simp_all)
  obtain s where s: "pending_rpcs s = n"
    "(main_step (\<lambda>_. None))\<^sup>*\<^sup>* (?b\<lparr>gdone := True\<rparr>) (?b\<lparr>gdone := True, gshared := s, procs := replicate 3 (Ended None) @ [Run [ServeGrpc]]\<rparr>)"
    using drain [of 3 "?b\<lparr>gdone := True\<rparr>"] r(3) by auto
  from s(1) show ?thesis
    by (intro that [OF rtranclp_trans [OF rtranclp.rtrancl_into_rtrancl [OF converse_rtranclp_into_rtranclp [OF a b] c] s(2)]]) simp_all
qed

lemma streams_pending_step:
  assumes "main_step fatal g g'" "gdone g" "others_returned g" "0 < pending_rpcs (gshared g)"
  shows "pending_rpcs (gshared g') = pending_rpcs (gshared g) - 1 \<and> procs g' = procs g \<or> (\<exists>e. last (procs g') = afterwards (Some e) [])"
  using assms(1)
proof cases
  case (run i s p)
  have "i = 3"
  proof (rule ccontr)
    assume "i \<noteq> 3"
    then have "procs g ! i = Ended None" using run(3) assms(3) by (auto simp: nth_append)
    with run(4) show False by (auto elim: goroutine_ended)
  qed
  with run(4) assms(3) have "goroutine_step fatal (gdone g) (gshared g) (Run [ServeGrpc]) s p" by (simp add: nth_append)
  then have "\<exists>e. p = afterwards (Some e) []" using assms(4) by (auto elim: goroutine_serve)
  then show ?thesis using run(1) assms(3) \<open>i = 3\<close> by (auto simp: list_update_append)
next
  case (surroundings s)
  from surroundings(3) show ?thesis using surroundings(1) assms(2) by cases simp_all
qed (use assms(2) in simp)



text \<open>\<open>Start\<close> of the routing table never returns nil. Once its context is done it returns within four steps, and its error
  is the one \<open>stopped\<close> has for it unless the informer had failed before; it is then ignored.\<close>

theorem table_Start_outcome:
  assumes "(start_step hasStarted)\<^sup>*\<^sup>* table_Start g" "gdone g" "(start_step hasStarted ^^ k) g g'"
  shows "k \<le> 4 \<and> ((\<forall>g''. \<not> start_step hasStarted g' g'') \<longrightarrow> all_returned table_returned g' \<and>
    (\<exists>e. gerr g' = Some e \<and> (e = Canceled \<or> e = errStoppedSharedIndexInformer \<or> hasStarted \<and> e = errStartedSharedIndexInformer)))"
proof -
  let ?init = "table_Start"
  have init: "table_start.all_ok hasStarted ?init" "table_start.work ?init = 4"
    by (simp_all add: table_start.all_ok_def table_start.work_def table_Start_def)
  have ok: "table_start.all_ok hasStarted g" using assms(1) init(1) by (rule table_start.all_ok_steps)
  have "table_start.work g \<le> 4" using table_start.work_mono [OF assms(1) init(1)] init(2) by simp
  with table_start.group_ends [OF ok assms(2,3)] have ends: "k \<le> 4" "(\<forall>g''. \<not> start_step hasStarted g' g'') \<longrightarrow> all_returned table_returned g'"
    by auto
  have reach: "(start_step hasStarted)\<^sup>*\<^sup>* table_Start g'" using assms(1,3) by (meson relpowp_imp_rtranclp rtranclp_trans)
  have len: "procs g' \<noteq> []" using group_length [OF reach] by (auto simp: table_Start_def)
  have inv: "err_inv table_returned g'"
    using reach table_start.returned_rests unfolding table_Start_def by (rule err_inv_steps) auto
  have ok': "table_start.all_ok hasStarted g'" using reach init(1) by (rule table_start.all_ok_steps)
  have "\<exists>e. gerr g' = Some e \<and> table_ok hasStarted (TEnded e)" if all: "all_returned table_returned g'"
  proof -
    obtain p where p: "p \<in> set (procs g')" using len by (cases "procs g'") auto
    then have "table_returned p \<noteq> None" using all by (auto simp: all_returned_def)
    then have "\<exists>e. table_returned p = Some (Some e)" by (cases p) auto
    then obtain e' where e': "gerr g' = Some e'" using inv p by (cases "gerr g'") (auto simp: err_inv_def)
    then have "Some (Some e') \<in> table_returned ` set (procs g')" using inv by (simp add: err_inv_def)
    then obtain q where q: "q \<in> set (procs g')" "table_returned q = Some (Some e')" by auto
    from q(2) have "q = TEnded e'" by (cases q) simp_all
    with q(1) ok' have "table_ok hasStarted (TEnded e')" by (auto simp: table_start.all_ok_def)
    with e' show ?thesis by blast
  qed
  with ends show ?thesis by auto
qed

text \<open>C24: whatever its environment, the operator only ever asks for a manager whose leader election keeps
  \<open>0 < retry period < renew deadline < lease duration\<close>, with the defaults of controller-runtime for what is not set, so that
  a leader gives up before another can take over; and the manager watches exactly the configured namespace, or all if there is none.\<close>

theorem operator_manager_safe:
  assumes "operator_main w flags = (Some opts, code)" "NewBaseFromEnv (ow_envconfig w) = Inr baseConfig"
  shows "0 < case_option defaultRetryPeriod id (RetryPeriod opts) \<and>
    case_option defaultRetryPeriod id (RetryPeriod opts) < case_option defaultRenewDeadline id (RenewDeadline opts) \<and>
    case_option defaultRenewDeadline id (RenewDeadline opts) < case_option defaultLeaseDuration id (LeaseDuration opts) \<and>
    (LeaseDuration opts, None) = ResolveOsEnvDuration (ow_environ w) ''KEDA_HTTP_OPERATOR_LEADER_ELECTION_LEASE_DURATION'' \<and>
    DefaultNamespaces opts = (if Base.WatchNamespace baseConfig = [] then None else Some [Base.WatchNamespace baseConfig])"
proof -
  obtain lease renew retry where opts: "opts = operator_options flags baseConfig lease renew retry"
    "ValidateLeaderElectionConfig lease renew retry = None"
    "ResolveOsEnvDuration (ow_environ w) ''KEDA_HTTP_OPERATOR_LEADER_ELECTION_LEASE_DURATION'' = (lease, None)"
    using assms by (auto simp: operator_main_def Let_def split: sum.splits prod.splits option.splits if_splits)
  then show ?thesis using ValidateLeaderElectionConfig_iff [of lease renew retry] by (simp add: operator_options_def)
qed

definition demo_operator :: operator_world where
  "demo_operator =
     \<lparr>ow_environ = [''KEDAHTTP_OPERATOR_EXTERNAL_SCALER_SERVICE'' \<mapsto> ''scaler'',
        ''KEDA_HTTP_OPERATOR_LEADER_ELECTION_LEASE_DURATION'' \<mapsto> Duration_String (30 * second)],
      ow_envconfig = (\<lambda>prefix b. Inr (b\<lparr>Base.WatchNamespace := ''apps''\<rparr>)), ow_kubeconfig = True, ow_newManager = (\<lambda>opts. None),
      ow_controller = None, ow_healthz = None, ow_readyz = None, ow_start = None\<rparr>"

theorem operator_manager_safe_witness:
  "\<exists>opts. operator_main demo_operator defaultFlags = (Some opts, 0) \<and> LeaseDuration opts = Some (30 * second) \<and>
     DefaultNamespaces opts = Some [''apps'']"
proof -
  have dur: "ResolveOsEnvDuration (ow_environ demo_operator) ''KEDA_HTTP_OPERATOR_LEADER_ELECTION_LEASE_DURATION'' = (Some (30 * second), None)"
    using ParseDuration_String [of "30 * second"] Duration_String_not_empty [of "30 * second"]
    by (simp add: ResolveOsEnvDuration_def demo_operator_def nanosecond_per_second_def)
  have main: "operator_main demo_operator defaultFlags =
      (Some (operator_options defaultFlags \<lparr>BaseTargetPendingRequests = 0, CurrentNamespace = [], WatchNamespace = ''apps''\<rparr> (Some (30 * second)) None None), 0)"
    unfolding operator_main_def dur
    by (simp add: demo_operator_def NewExternalScalerFromEnv_def NewBaseFromEnv_def env_Get_def Getenv_def ResolveOsEnvDuration_def Let_def
        ValidateLeaderElectionConfig_def defaultRenewDeadline_def defaultRetryPeriod_def nanosecond_per_second_def)
  have base: "NewBaseFromEnv (ow_envconfig demo_operator) = Inr \<lparr>BaseTargetPendingRequests = 0, CurrentNamespace = [], WatchNamespace = ''apps''\<rparr>"
    by (simp add: NewBaseFromEnv_def demo_operator_def)
  show ?thesis using operator_manager_safe [OF main base] main by (simp add: dur)
qed

end
