(* ===== verification/Informer_Factory.thy ===== *)
theory Informer_Factory
  imports Go_Duration "HOL-Library.Multiset"
begin

text \<open>
  The generated informers of \<^verbatim>\<open>operator/generated/informers/externalversions\<close>: the factory that makes one informer for
  each type of object and runs each once (\<^verbatim>\<open>factory.go\<close>), and the informer of HTTPScaledObjects
  (\<^verbatim>\<open>http/v1alpha1/httpscaledobject.go\<close>). The clients, the informers of client-go and their methods are arguments; a type
  of Go is its name, a stop channel a number.

  The relation \<open>factory_step\<close> interleaves the calls of any number of clients, each of which holds the lock of the factory, with
  the goroutines that run the informers.
\<close>

section \<open>The informer of HTTPScaledObjects\<close>

type_synonym gotype = string

text \<open>A client has the calls \<open>List\<close> and \<open>Watch\<close> for a context, a namespace and options; an informer is what
  \<open>cache.NewSharedIndexInformer\<close> is given.\<close>

record ('c, 'o, 'l, 'w) http_client =
  Background :: 'c
  client_List :: "'c \<Rightarrow> string \<Rightarrow> 'o \<Rightarrow> 'l"
  client_Watch :: "'c \<Rightarrow> string \<Rightarrow> 'o \<Rightarrow> 'w"

record ('c, 'o, 'l, 'w) SharedIndexInformer =
  ListFunc :: "'o \<Rightarrow> 'l"
  WatchFunc :: "'o \<Rightarrow> 'w"
  ListWithContextFunc :: "'c \<Rightarrow> 'o \<Rightarrow> 'l"
  WatchFuncWithContext :: "'c \<Rightarrow> 'o \<Rightarrow> 'w"
  ExampleObject :: gotype
  ResyncPeriod :: duration
  Indexers :: "string list"

definition tweaked :: "('o \<Rightarrow> 'o) option \<Rightarrow> 'o \<Rightarrow> 'o" where
  "tweaked tweakListOptions options = (case tweakListOptions of None \<Rightarrow> options | Some f \<Rightarrow> f options)"

definition httpsoType :: gotype where
  "httpsoType = ''*v1alpha1.HTTPScaledObject''"

definition NewFilteredHTTPScaledObjectInformer :: "('c, 'o, 'l, 'w) http_client \<Rightarrow> string \<Rightarrow> duration \<Rightarrow> string list \<Rightarrow>
    ('o \<Rightarrow> 'o) option \<Rightarrow> ('c, 'o, 'l, 'w) SharedIndexInformer" where
  "NewFilteredHTTPScaledObjectInformer cl ns resyncPeriod indexers tweakListOptions =
     \<lparr>ListFunc = (\<lambda>options. client_List cl (Background cl) ns (tweaked tweakListOptions options)),
      WatchFunc = (\<lambda>options. client_Watch cl (Background cl) ns (tweaked tweakListOptions options)),
      ListWithContextFunc = (\<lambda>ctx options. client_List cl ctx ns (tweaked tweakListOptions options)),
      WatchFuncWithContext = (\<lambda>ctx options. client_Watch cl ctx ns (tweaked tweakListOptions options)),
      ExampleObject = httpsoType, ResyncPeriod = resyncPeriod, Indexers = indexers\<rparr>"

definition NewHTTPScaledObjectInformer :: "('c, 'o, 'l, 'w) http_client \<Rightarrow> string \<Rightarrow> duration \<Rightarrow> string list \<Rightarrow>
    ('c, 'o, 'l, 'w) SharedIndexInformer" where
  "NewHTTPScaledObjectInformer cl ns resyncPeriod indexers = NewFilteredHTTPScaledObjectInformer cl ns resyncPeriod indexers None"

definition defaultInformer :: "string \<Rightarrow> ('o \<Rightarrow> 'o) option \<Rightarrow> ('c, 'o, 'l, 'w) http_client \<Rightarrow> duration \<Rightarrow>
    ('c, 'o, 'l, 'w) SharedIndexInformer" where
  "defaultInformer ns tweakListOptions cl resyncPeriod =
     NewFilteredHTTPScaledObjectInformer cl ns resyncPeriod [''namespace''] tweakListOptions"

section \<open>The factory\<close>

text \<open>\<open>'k\<close> is the type of clients, \<open>'i\<close> of informers, \<open>'o\<close> of list options and \<open>'x\<close> of transform functions.\<close>

record ('k, 'i, 'o, 'x) sharedInformerFactory =
  fac_client :: 'k
  fac_namespace :: string
  fac_tweak :: "('o \<Rightarrow> 'o) option"
  fac_defaultResync :: duration
  fac_customResync :: "gotype \<rightharpoonup> duration"
  fac_transform :: "'x option"
  fac_informers :: "(gotype, 'i) gomap"
  fac_started :: "gotype \<rightharpoonup> bool"
  fac_wg :: nat
  fac_shuttingDown :: bool

definition WithCustomResyncConfig :: "(gotype \<times> duration) list \<Rightarrow> ('k, 'i, 'o, 'x) sharedInformerFactory \<Rightarrow> ('k, 'i, 'o, 'x) sharedInformerFactory" where
  "WithCustomResyncConfig resyncConfig f =
     f\<lparr>fac_customResync := foldl (\<lambda>m (k, v). m(k \<mapsto> v)) (fac_customResync f) resyncConfig\<rparr>"

definition WithTweakListOptions :: "('o \<Rightarrow> 'o) option \<Rightarrow> ('k, 'i, 'o, 'x) sharedInformerFactory \<Rightarrow> ('k, 'i, 'o, 'x) sharedInformerFactory" where
  "WithTweakListOptions tweak f = f\<lparr>fac_tweak := tweak\<rparr>"

definition WithNamespace :: "string \<Rightarrow> ('k, 'i, 'o, 'x) sharedInformerFactory \<Rightarrow> ('k, 'i, 'o, 'x) sharedInformerFactory" where
  "WithNamespace ns f = f\<lparr>fac_namespace := ns\<rparr>"

definition WithTransform :: "'x option \<Rightarrow> ('k, 'i, 'o, 'x) sharedInformerFactory \<Rightarrow> ('k, 'i, 'o, 'x) sharedInformerFactory" where
  "WithTransform tr f = f\<lparr>fac_transform := tr\<rparr>"

definition NewSharedInformerFactoryWithOptions :: "'k \<Rightarrow> duration \<Rightarrow>
    (('k, 'i, 'o, 'x) sharedInformerFactory \<Rightarrow> ('k, 'i, 'o, 'x) sharedInformerFactory) list \<Rightarrow> ('k, 'i, 'o, 'x) sharedInformerFactory" where
  "NewSharedInformerFactoryWithOptions cl resync options =
     foldl (\<lambda>f opt. opt f)
       \<lparr>fac_client = cl, fac_namespace = [], fac_tweak = None, fac_defaultResync = resync, fac_customResync = Map.empty,
        fac_transform = None, fac_informers = [], fac_started = Map.empty, fac_wg = 0, fac_shuttingDown = False\<rparr> options"

definition NewSharedInformerFactory :: "'k \<Rightarrow> duration \<Rightarrow> ('k, 'i, 'o, 'x) sharedInformerFactory" where
  "NewSharedInformerFactory cl resync = NewSharedInformerFactoryWithOptions cl resync []"

definition NewFilteredSharedInformerFactory :: "'k \<Rightarrow> duration \<Rightarrow> string \<Rightarrow> ('o \<Rightarrow> 'o) option \<Rightarrow> ('k, 'i, 'o, 'x) sharedInformerFactory" where
  "NewFilteredSharedInformerFactory cl resync ns tweak =
     NewSharedInformerFactoryWithOptions cl resync [WithNamespace ns, WithTweakListOptions tweak]"

text \<open>\<open>InformerFor\<close>; \<open>setTransform\<close> is the method of the informer.\<close>

definition InformerFor :: "('x option \<Rightarrow> 'i \<Rightarrow> 'i) \<Rightarrow> ('k, 'i, 'o, 'x) sharedInformerFactory \<Rightarrow> gotype \<Rightarrow> ('k \<Rightarrow> duration \<Rightarrow> 'i) \<Rightarrow>
    ('k, 'i, 'o, 'x) sharedInformerFactory \<times> 'i" where
  "InformerFor setTransform f informerType newFunc =
     (case map_of (fac_informers f) informerType of
        Some informer \<Rightarrow> (f, informer)
      | None \<Rightarrow>
          (let resyncPeriod = (case fac_customResync f informerType of None \<Rightarrow> fac_defaultResync f | Some d \<Rightarrow> d);
               informer = setTransform (fac_transform f) (newFunc (fac_client f) resyncPeriod)
           in (f\<lparr>fac_informers := AList.update informerType informer (fac_informers f)\<rparr>, informer)))"

text \<open>\<open>Start\<close>: the loop over the map in the order of one iteration, with the informers that get a goroutine.\<close>

fun start_loop :: "(gotype \<times> 'i) list \<Rightarrow> ('k, 'i, 'o, 'x) sharedInformerFactory \<Rightarrow> ('k, 'i, 'o, 'x) sharedInformerFactory \<times> (gotype \<times> 'i) list" where
  "start_loop [] f = (f, [])"
| "start_loop ((ty, i) # rest) f =
     (if fac_started f ty \<noteq> Some True
      then (let (f', gs) = start_loop rest (f\<lparr>fac_wg := fac_wg f + 1, fac_started := (fac_started f)(ty \<mapsto> True)\<rparr>) in (f', (ty, i) # gs))
      else start_loop rest f)"

definition factory_Start :: "(gotype \<times> 'i) list \<Rightarrow> ('k, 'i, 'o, 'x) sharedInformerFactory \<Rightarrow>
    ('k, 'i, 'o, 'x) sharedInformerFactory \<times> (gotype \<times> 'i) list" where
  "factory_Start order f = (if fac_shuttingDown f then (f, []) else start_loop order f)"

text \<open>\<open>Shutdown\<close> first marks the factory and then waits; \<open>shutdown_over\<close> is the condition on which it returns.\<close>

definition shutdown_mark :: "('k, 'i, 'o, 'x) sharedInformerFactory \<Rightarrow> ('k, 'i, 'o, 'x) sharedInformerFactory" where
  "shutdown_mark f = f\<lparr>fac_shuttingDown := True\<rparr>"

definition shutdown_over :: "('k, 'i, 'o, 'x) sharedInformerFactory \<Rightarrow> bool" where
  "shutdown_over f \<longleftrightarrow> fac_shuttingDown f \<and> fac_wg f = 0"

text \<open>\<open>WaitForCacheSync\<close>: the result for each informer that has been started; \<open>sync\<close> is \<open>cache.WaitForCacheSync\<close> on the stop
  channel and the informer's \<open>HasSynced\<close>.\<close>

definition factory_WaitForCacheSync :: "('i \<Rightarrow> bool) \<Rightarrow> ('k, 'i, 'o, 'x) sharedInformerFactory \<Rightarrow> (gotype, bool) gomap" where
  "factory_WaitForCacheSync sync f =
     map (\<lambda>(ty, i). (ty, sync i)) (filter (\<lambda>(ty, i). fac_started f ty = Some True) (fac_informers f))"

text \<open>\<open>Informer\<close> of the informer of HTTPScaledObjects for a namespace, and \<open>ForResource\<close>, where \<open>str\<close> is the text of a
  group, version and resource.\<close>

definition HTTPScaledObjects_Informer :: "('x option \<Rightarrow> ('c, 'o, 'l, 'w) SharedIndexInformer \<Rightarrow> ('c, 'o, 'l, 'w) SharedIndexInformer) \<Rightarrow>
    (('c, 'o, 'l, 'w) http_client, ('c, 'o, 'l, 'w) SharedIndexInformer, 'o, 'x) sharedInformerFactory \<Rightarrow> string \<Rightarrow> ('o \<Rightarrow> 'o) option \<Rightarrow>
    (('c, 'o, 'l, 'w) http_client, ('c, 'o, 'l, 'w) SharedIndexInformer, 'o, 'x) sharedInformerFactory \<times> ('c, 'o, 'l, 'w) SharedIndexInformer" where
  "HTTPScaledObjects_Informer setTransform f ns tweak = InformerFor setTransform f httpsoType (defaultInformer ns tweak)"

definition ForResource :: "(string \<times> string \<times> string \<Rightarrow> string) \<Rightarrow> ('x option \<Rightarrow> ('c, 'o, 'l, 'w) SharedIndexInformer \<Rightarrow> ('c, 'o, 'l, 'w) SharedIndexInformer) \<Rightarrow>
    (('c, 'o, 'l, 'w) http_client, ('c, 'o, 'l, 'w) SharedIndexInformer, 'o, 'x) sharedInformerFactory \<Rightarrow> string \<times> string \<times> string \<Rightarrow>
    (('c, 'o, 'l, 'w) http_client, ('c, 'o, 'l, 'w) SharedIndexInformer, 'o, 'x) sharedInformerFactory \<times> ('c, 'o, 'l, 'w) SharedIndexInformer result" where
  "ForResource str setTransform f resource =
     (if resource = (''http.keda.sh'', ''v1alpha1'', ''httpscaledobjects'')
      then (case HTTPScaledObjects_Informer setTransform f (fac_namespace f) (fac_tweak f) of (f', i) \<Rightarrow> (f', Inr i))
      else (f, Inl (ErrMsg (''no informer found for '' @ str resource))))"

section \<open>Concurrent clients\<close>

text \<open>The factory, the goroutines that run informers with their stop channels, and the types whose informer has been
  run, in order.\<close>

record ('k, 'i, 'o, 'x) factory_state =
  fac :: "('k, 'i, 'o, 'x) sharedInformerFactory"
  informer_runs :: "(gotype \<times> nat) list"
  ran :: "gotype list"

inductive factory_step :: "('x option \<Rightarrow> 'i \<Rightarrow> 'i) \<Rightarrow> ('k, 'i, 'o, 'x) factory_state \<Rightarrow> ('k, 'i, 'o, 'x) factory_state \<Rightarrow> bool"
  for setTransform where
  informer_for: "factory_step setTransform s (s\<lparr>fac := fst (InformerFor setTransform (fac s) ty newFunc)\<rparr>)"
| start: "mset order = mset (fac_informers (fac s)) \<Longrightarrow> factory_Start order (fac s) = (f, gs) \<Longrightarrow>
    factory_step setTransform s
      (s\<lparr>fac := f, informer_runs := informer_runs s @ map (\<lambda>g. (fst g, stopCh)) gs, ran := ran s @ map fst gs\<rparr>)"
| run_returns: "k < length (informer_runs s) \<Longrightarrow>
    factory_step setTransform s
      (s\<lparr>fac := (fac s)\<lparr>fac_wg := fac_wg (fac s) - 1\<rparr>, informer_runs := take k (informer_runs s) @ drop (Suc k) (informer_runs s)\<rparr>)"
| mark: "factory_step setTransform s (s\<lparr>fac := shutdown_mark (fac s)\<rparr>)"

definition factory_init :: "('k, 'i, 'o, 'x) sharedInformerFactory \<Rightarrow> ('k, 'i, 'o, 'x) factory_state" where
  "factory_init f = \<lparr>fac = f, informer_runs = [], ran = []\<rparr>"

section \<open>Lemmas\<close>

lemma start_loop_frame:
  "start_loop order f = (f', gs) \<Longrightarrow>
     fac_informers f' = fac_informers f \<and> fac_shuttingDown f' = fac_shuttingDown f \<and> fac_wg f' = fac_wg f + length gs"
  by (induction order f arbitrary: f' gs rule: start_loop.induct) (fastforce split: if_splits prod.splits)+

lemma start_loop_started:
  assumes "start_loop order f = (f', gs)"
  shows "distinct (map fst gs) \<and> (\<forall>ty\<in>set (map fst gs). fac_started f ty \<noteq> Some True) \<and> set gs \<subseteq> set order \<and>
    (\<forall>ty. fac_started f' ty = Some True \<longleftrightarrow> fac_started f ty = Some True \<or> ty \<in> set (map fst gs))"
  using assms
proof (induction order f arbitrary: f' gs rule: start_loop.induct)
  case (2 ty i rest f)
  show ?case
  proof (cases "fac_started f ty \<noteq> Some True")
    case True
    let ?h = "f\<lparr>fac_wg := fac_wg f + 1, fac_started := (fac_started f)(ty \<mapsto> True)\<rparr>"
    obtain hs where hs: "start_loop rest ?h = (f', hs)" "gs = (ty, i) # hs" using 2(3) True by (auto split: prod.splits)
    from 2(1) [OF True hs(1)] hs(2) True show ?thesis by (auto split: if_splits)
  next
    case False
    with 2(2) [OF False] 2(3) show ?thesis by auto
  qed
qed simp

definition factory_inv :: "('k, 'i, 'o, 'x) factory_state \<Rightarrow> bool" where
  "factory_inv s \<longleftrightarrow> distinct (map fst (fac_informers (fac s))) \<and> fac_wg (fac s) = length (informer_runs s) \<and>
     distinct (ran s) \<and> set (ran s) \<subseteq> dom (map_of (fac_informers (fac s))) \<and>
     (\<forall>ty. fac_started (fac s) ty = Some True \<longleftrightarrow> ty \<in> set (ran s))"

lemma InformerFor_frame:
  assumes "InformerFor setTransform f ty newFunc = (f', i)"
  shows "fac_wg f' = fac_wg f" "fac_started f' = fac_started f" "fac_shuttingDown f' = fac_shuttingDown f"
    "distinct (map fst (fac_informers f)) \<Longrightarrow> distinct (map fst (fac_informers f'))"
    "map_of (fac_informers f) \<subseteq>\<^sub>m map_of (fac_informers f')" "map_of (fac_informers f') ty = Some i"
  using assms by (auto simp: InformerFor_def Let_def map_le_def split: option.splits)

lemma factory_Start_frame:
  assumes "factory_Start order f = (f', gs)"
  shows "fac_informers f' = fac_informers f" "fac_shuttingDown f' = fac_shuttingDown f" "fac_wg f' = fac_wg f + length gs"
    "fac_shuttingDown f \<Longrightarrow> gs = []"
  using assms start_loop_frame [of order f f' gs] by (auto simp: factory_Start_def split: if_splits)

lemma factory_Start_started:
  assumes "factory_Start order f = (f', gs)"
  shows "distinct (map fst gs)" "\<forall>ty\<in>set (map fst gs). fac_started f ty \<noteq> Some True" "set gs \<subseteq> set order"
    "fac_started f' ty = Some True \<longleftrightarrow> fac_started f ty = Some True \<or> ty \<in> set (map fst gs)"
  using assms start_loop_started [of order f f' gs] by (auto simp: factory_Start_def split: if_splits)

lemma factory_inv_step:
  assumes "factory_step setTransform s s'" "factory_inv s"
  shows "factory_inv s' \<and> map_of (fac_informers (fac s)) \<subseteq>\<^sub>m map_of (fac_informers (fac s'))"
  using assms
proof (induction rule: factory_step.induct)
  case (informer_for s ty newFunc)
  obtain f i where "InformerFor setTransform (fac s) ty newFunc = (f, i)" by force
  note fr = InformerFor_frame [OF this] this
  from fr(5) have "dom (map_of (fac_informers (fac s))) \<subseteq> dom (map_of (fac_informers f))" by (rule map_le_implies_dom_le)
  with informer_for have "set (ran s) \<subseteq> dom (map_of (fac_informers f))" unfolding factory_inv_def by blast
  with fr informer_for show ?case by (simp add: factory_inv_def)
next
  case (start order s f gs stopCh)
  note fr = factory_Start_frame [OF start(2)] factory_Start_started [OF start(2)]
  have "set (map fst gs) \<subseteq> dom (map_of (fac_informers (fac s)))"
    using fr(7) mset_eq_setD [OF start(1)] image_mono [of "set gs" "set order" fst] by (simp add: dom_map_of_conv_image_fst)
  with fr start(3) show ?case by (auto simp: factory_inv_def)
next
  case (run_returns k s)
  then show ?case by (auto simp: factory_inv_def)
next
  case (mark s)
  then show ?case by (simp add: factory_inv_def shutdown_mark_def)
qed

lemma factory_inv_steps:
  assumes "(factory_step setTransform)\<^sup>*\<^sup>* s s'" "factory_inv s"
  shows "factory_inv s' \<and> map_of (fac_informers (fac s)) \<subseteq>\<^sub>m map_of (fac_informers (fac s'))"
  using assms(1)
proof (induction rule: rtranclp_induct)
  case base
  then show ?case using assms(2) by simp
next
  case (step y z)
  then show ?case using factory_inv_step map_le_trans by blast
qed

lemma factory_inv_init: "factory_inv (factory_init (NewSharedInformerFactory cl resync))"
  by (simp add: factory_inv_def factory_init_def NewSharedInformerFactory_def NewSharedInformerFactoryWithOptions_def)

lemma shut_down_step:
  assumes "factory_step setTransform s s'" "factory_inv s" "shutdown_over (fac s)"
  shows "shutdown_over (fac s') \<and> informer_runs s' = [] \<and> ran s' = ran s"
proof -
  have none: "informer_runs s = []" using assms(2,3) by (simp add: factory_inv_def shutdown_over_def)
  from assms(1) show ?thesis
  proof cases
    case (informer_for ty newFunc)
    then show ?thesis using assms(3) none InformerFor_frame [of setTransform "fac s" ty newFunc] by (auto simp: shutdown_over_def prod_eq_iff)
  next
    case (start order f gs stopCh)
    then show ?thesis using assms(3) none factory_Start_frame [OF start(3)] by (auto simp: shutdown_over_def)
  qed (use assms(3) none in \<open>auto simp: shutdown_over_def shutdown_mark_def\<close>)
qed

section \<open>Properties\<close>

text \<open>C22: the factory shares its informers. However its clients interleave their calls, the informer a client gets for a type
  stays the informer of that type for every later caller, the goroutine of each type is started at most once, and
  the wait group counts the goroutines that run.\<close>

theorem factory_shares_informers:
  assumes "(factory_step setTransform)\<^sup>*\<^sup>* (factory_init (NewSharedInformerFactory cl resync)) s"
    "InformerFor setTransform (fac s) ty newFunc = (f, i)"
    "(factory_step setTransform)\<^sup>*\<^sup>* (s\<lparr>fac := f\<rparr>) s'"
  shows "snd (InformerFor setTransform (fac s') ty newFunc') = i \<and> distinct (ran s') \<and> fac_wg (fac s') = length (informer_runs s')"
proof -
  have inv: "factory_inv s" using factory_inv_steps [OF assms(1) factory_inv_init] by blast
  moreover have "factory_step setTransform s (s\<lparr>fac := f\<rparr>)"
    using factory_step.informer_for [of setTransform s ty newFunc] assms(2) by simp
  ultimately have "factory_inv (s\<lparr>fac := f\<rparr>)" using factory_inv_step by blast
  from factory_inv_steps [OF assms(3) this] have s': "factory_inv s'" "map_of (fac_informers f) \<subseteq>\<^sub>m map_of (fac_informers (fac s'))" by auto
  have "map_of (fac_informers (fac s')) ty = Some i"
    using s'(2) InformerFor_frame(6) [OF assms(2)] by (metis domI map_le_def)
  with s'(1) show ?thesis by (simp add: InformerFor_def factory_inv_def)
qed

theorem factory_shares_informers_witness:
  "let f = NewSharedInformerFactory 3 5 :: (nat, nat \<times> duration \<times> string, nat, nat) sharedInformerFactory
   in snd (InformerFor (\<lambda>_ i. i) (fst (InformerFor (\<lambda>_ i. i) f httpsoType (\<lambda>k d. (k, d, ''first''))))
        httpsoType (\<lambda>k d. (k, d, ''second''))) = (3, 5, ''first'')"
proof -
  let ?f = "NewSharedInformerFactory 3 5 :: (nat, nat \<times> duration \<times> string, nat, nat) sharedInformerFactory"
  let ?new = "\<lambda>k d. (k, d, ''first'')"
  have "InformerFor (\<lambda>_ i. i) (fac (factory_init ?f)) httpsoType ?new =
      (fst (InformerFor (\<lambda>_ i. i) ?f httpsoType ?new), (3, 5, ''first''))"
    by (simp add: InformerFor_def Let_def factory_init_def NewSharedInformerFactory_def NewSharedInformerFactoryWithOptions_def)
  from factory_shares_informers [OF rtranclp.rtrancl_refl this rtranclp.rtrancl_refl, of "\<lambda>k d. (k, d, ''second'')"]
  show ?thesis by (simp add: factory_init_def)
qed

text \<open>C30: a shutdown is final. Once a call of \<open>Shutdown\<close> has found the wait group empty, no informer runs and none is ever run
  again, whatever the clients call.\<close>

theorem factory_shutdown_final:
  assumes "(factory_step setTransform)\<^sup>*\<^sup>* (factory_init (NewSharedInformerFactory cl resync)) s" "shutdown_over (fac s)"
    "(factory_step setTransform)\<^sup>*\<^sup>* s s'"
  shows "informer_runs s' = [] \<and> ran s' = ran s"
proof -
  have inv: "factory_inv s" using factory_inv_steps [OF assms(1) factory_inv_init] by blast
  from assms(3) have "shutdown_over (fac s') \<and> informer_runs s' = [] \<and> ran s' = ran s"
  proof (induction rule: rtranclp_induct)
    case base
    then show ?case using inv assms(2) by (simp add: factory_inv_def shutdown_over_def)
  next
    case (step y z)
    then have "factory_inv y" using factory_inv_steps inv by blast
    with step show ?case using shut_down_step [of setTransform y z] by auto
  qed
  then show ?thesis by simp
qed

theorem factory_shutdown_final_witness:
  "let s = factory_init (shutdown_mark (NewSharedInformerFactory (3::nat) 5)) :: (nat, string, nat, nat) factory_state;
       s' = s\<lparr>fac := fst (InformerFor (\<lambda>_ i. i) (fac s) httpsoType (\<lambda>k d. ''informer''))\<rparr>
   in shutdown_over (fac s) \<and> informer_runs s' = [] \<and> ran s' = []"
proof -
  let ?f = "NewSharedInformerFactory 3 5 :: (nat, string, nat, nat) sharedInformerFactory"
  let ?s = "factory_init (shutdown_mark ?f)"
  have m: "(factory_step (\<lambda>_ i. i))\<^sup>*\<^sup>* (factory_init ?f) ?s"
    using factory_step.mark [of "\<lambda>_ i. i" "factory_init ?f"] by (simp add: factory_init_def r_into_rtranclp)
  have over: "shutdown_over (fac ?s)"
    by (simp add: shutdown_over_def shutdown_mark_def factory_init_def NewSharedInformerFactory_def NewSharedInformerFactoryWithOptions_def)
  let ?t = "?s\<lparr>fac := fst (InformerFor (\<lambda>_ i. i) (fac ?s) httpsoType (\<lambda>k d. ''informer''))\<rparr>"
  have "(factory_step (\<lambda>_ i. i))\<^sup>*\<^sup>* ?s ?t" by (rule r_into_rtranclp) (rule factory_step.informer_for)
  from factory_shutdown_final [OF m over this] over show ?thesis by (simp add: factory_init_def)
qed

end
