(* ===== verification/Go_Heap.thy ===== *)
theory Go_Heap
  imports Prelude "HOL-Library.State_Monad"
begin

text \<open>
  Memory with pointers, for the code that is about aliasing. A heap is the list of the cells allocated so far, an address an
  index into it, a pointer an address or nil, a slice an array with an offset and a length. The type \<open>'x\<close> of the cells
  is left open; \<open>mk\<close> and \<open>prj\<close> put a value into a cell and get it out of one that holds such a value. A
  computation that allocates and writes is a \<open>state\<close> over the heap.

  The locale \<open>copier\<close> is what a deep copy promises, and the lemmas on \<open>ptr_copy\<close>, \<open>slice_copy\<close> and
  \<open>pair_copy\<close> build copiers of pointers, slices and structures from those of their parts.
\<close>

section \<open>The heap\<close>

type_synonym addr = nat
type_synonym 'x heap = "'x list"

definition new :: "'x \<Rightarrow> ('x heap, addr) state" where
  "new x = State (\<lambda>h. (length h, h @ [x]))"

definition deref :: "('x \<Rightarrow> 'v option) \<Rightarrow> addr \<Rightarrow> ('x heap, 'v) state" where
  "deref prj a = State (\<lambda>h. (the (prj (h ! a)), h))"

lemma run_new [simp]: "run_state (new x) h = (length h, h @ [x])"
  by (simp add: new_def)

lemma run_deref [simp]: "run_state (deref prj a) h = (the (prj (h ! a)), h)"
  by (simp add: deref_def)

definition load :: "('x \<Rightarrow> 'v option) \<Rightarrow> 'x heap \<Rightarrow> addr \<Rightarrow> 'v option" where
  "load prj h a = (if a < length h then prj (h ! a) else None)"

text \<open>What other parts of the program do to the heap meanwhile: they write to cells and allocate new ones.\<close>

datatype 'x mutation = Store addr 'x | Alloc 'x

primrec mutate1 :: "'x mutation \<Rightarrow> 'x heap \<Rightarrow> 'x heap" where
  "mutate1 (Store a x) h = h[a := x]"
| "mutate1 (Alloc x) h = h @ [x]"

definition mutate :: "'x mutation list \<Rightarrow> 'x heap \<Rightarrow> 'x heap" where
  "mutate ms h = fold mutate1 ms h"

lemma mutate_length: "length h \<le> length (mutate ms h)"
proof (induction ms arbitrary: h)
  case (Cons m ms)
  have "length h \<le> length (mutate1 m h)" by (cases m) simp_all
  also have "\<dots> \<le> length (mutate ms (mutate1 m h))" by (rule Cons)
  finally show ?case by (simp add: mutate_def)
qed (simp add: mutate_def)

lemma mutate_elsewhere:
  assumes "\<forall>x. Store a x \<notin> set ms" "a < length h"
  shows "mutate ms h ! a = h ! a"
  using assms
proof (induction ms arbitrary: h)
  case (Cons m ms)
  have "mutate1 m h ! a = h ! a" "a < length (mutate1 m h)" using Cons.prems by (cases m; auto simp: nth_append)+
  with Cons show ?case by (simp add: mutate_def)
qed (simp add: mutate_def)

section \<open>Copies\<close>

text \<open>A copier makes a copy of the value \<open>v\<close>: \<open>read\<close> is the value with all that its pointers lead to (None if one of them leads to
  no such value), \<open>reach\<close> the addresses of the cells it is spread over. The copy has the same value, is
  spread over new cells only, and no other cell is touched.\<close>

locale copier =
  fixes into :: "'v \<Rightarrow> ('x heap, 'v) state"
    and read :: "'x heap \<Rightarrow> 'v \<Rightarrow> 'w option"
    and reach :: "'x heap \<Rightarrow> 'v \<Rightarrow> addr set"
  assumes extends: "\<exists>ext. snd (run_state (into v) h) = h @ ext"
    and copies: "read h v = Some w \<Longrightarrow> run_state (into v) h = (v', h') \<Longrightarrow> read h' v' = Some w"
    and fresh: "read h v = Some w \<Longrightarrow> run_state (into v) h = (v', h') \<Longrightarrow> reach h' v' \<subseteq> {length h..<length h'}"
    and bounded: "read h v = Some w \<Longrightarrow> reach h v \<subseteq> {..<length h}"
    and confined: "read h v = Some w \<Longrightarrow> (\<And>a. a \<in> reach h v \<Longrightarrow> a < length h' \<and> h' ! a = h ! a) \<Longrightarrow>
      read h' v = Some w \<and> reach h' v = reach h v"
begin

lemma extended:
  assumes "read h v = Some w"
  shows "read (h @ ext) v = Some w" "reach (h @ ext) v = reach h v"
  using confined [OF assms, of "h @ ext"] bounded [OF assms] by (fastforce simp: nth_append)+

text \<open>A copy that is made a while after the value was read, and looked at a while after it was made.\<close>

lemma copied_later:
  assumes "read h v = Some w" "run_state (into v) (h @ e) = (v', h')"
  shows "read (h' @ e') v' = Some w" "reach (h' @ e') v' \<subseteq> {length h..<length (h' @ e')}" "\<exists>e. h' = h @ e"
proof -
  have r: "read (h @ e) v = Some w" using assms(1) by (rule extended)
  have c: "read h' v' = Some w" using copies [OF r assms(2)] .
  then show "read (h' @ e') v' = Some w" by (rule extended)
  show "reach (h' @ e') v' \<subseteq> {length h..<length (h' @ e')}"
    using fresh [OF r assms(2)] extended(2) [OF c, of e'] by (auto simp: subset_iff)
  show "\<exists>e. h' = h @ e" using extends [of v "h @ e"] assms(2) by auto
qed

text \<open>The copy and the original do not affect each other.\<close>

lemma independent:
  assumes "read h v = Some w" "run_state (into v) h = (v', h')"
  shows "read h' v' = Some w"
    "\<forall>a x. Store a x \<in> set ms \<longrightarrow> a < length h \<or> length h' \<le> a \<Longrightarrow> read (mutate ms h') v' = Some w"
    "\<forall>a x. Store a x \<in> set ms \<longrightarrow> length h \<le> a \<Longrightarrow> read (mutate ms h') v = Some w"
proof -
  show c: "read h' v' = Some w" using copies [OF assms] .
  obtain e where e: "h' = h @ e" using extends [of v h] assms(2) by auto
  note len = mutate_length [of h' ms]
  show "read (mutate ms h') v' = Some w" if "\<forall>a x. Store a x \<in> set ms \<longrightarrow> a < length h \<or> length h' \<le> a"
  proof (rule confined [OF c, THEN conjunct1])
    fix a assume "a \<in> reach h' v'"
    then have a: "length h \<le> a" "a < length h'" using fresh [OF assms] by auto
    then have "mutate ms h' ! a = h' ! a" using that by (intro mutate_elsewhere) fastforce+
    with a len show "a < length (mutate ms h') \<and> mutate ms h' ! a = h' ! a" by simp
  qed
  have r: "read h' v = Some w" "reach h' v = reach h v" using extended [OF assms(1)] by (simp_all add: e)
  show "read (mutate ms h') v = Some w" if "\<forall>a x. Store a x \<in> set ms \<longrightarrow> length h \<le> a"
  proof (rule confined [OF r(1), THEN conjunct1])
    fix a assume "a \<in> reach h' v"
    then have a: "a < length h" using bounded [OF assms(1)] r(2) by auto
    then have "mutate ms h' ! a = h' ! a" using that e by (intro mutate_elsewhere) fastforce+
    with a len e show "a < length (mutate ms h') \<and> mutate ms h' ! a = h' ! a" by simp
  qed
qed

end

section \<open>Copiers of values, pairs, pointers and slices\<close>

text \<open>A value without pointers is its own copy.\<close>

interpretation flat: copier State_Monad.return "\<lambda>h v. Some v" "\<lambda>h v. {}"
  by unfold_locales auto

definition pair_copy :: "('v \<Rightarrow> ('x heap, 'v) state) \<Rightarrow> ('u \<Rightarrow> ('x heap, 'u) state) \<Rightarrow> 'v \<times> 'u \<Rightarrow> ('x heap, 'v \<times> 'u) state" where
  "pair_copy f g p = do { a \<leftarrow> f (fst p); b \<leftarrow> g (snd p); State_Monad.return (a, b) }"

definition pair_read :: "('x heap \<Rightarrow> 'v \<Rightarrow> 'w option) \<Rightarrow> ('x heap \<Rightarrow> 'u \<Rightarrow> 'z option) \<Rightarrow> 'x heap \<Rightarrow> 'v \<times> 'u \<Rightarrow> ('w \<times> 'z) option" where
  "pair_read f g h p = do { a \<leftarrow> f h (fst p); b \<leftarrow> g h (snd p); Some (a, b) }"

definition pair_reach :: "('x heap \<Rightarrow> 'v \<Rightarrow> addr set) \<Rightarrow> ('x heap \<Rightarrow> 'u \<Rightarrow> addr set) \<Rightarrow> 'x heap \<Rightarrow> 'v \<times> 'u \<Rightarrow> addr set" where
  "pair_reach f g h p = f h (fst p) \<union> g h (snd p)"

lemma pair_copier:
  assumes "copier f rf af" "copier g rg ag"
  shows "copier (pair_copy f g) (pair_read rf rg) (pair_reach af ag)"
proof -
  note F = copier.copied_later [OF assms(1)] and G = copier.copied_later [OF assms(2)]
  have split: "\<exists>w1 w2. w = (w1, w2) \<and> rf h (fst p) = Some w1 \<and> rg h (snd p) = Some w2" if "pair_read rf rg h p = Some w" for h p w
    using that by (auto simp: pair_read_def split: bind_splits)
  have both: "pair_read rf rg h' v' = Some w \<and> pair_reach af ag h' v' \<subseteq> {length h..<length h'}"
    if run: "run_state (pair_copy f g p) h = (v', h')" and rd: "pair_read rf rg h p = Some w" for p h v' h' w
  proof -
    obtain w1 w2 where w: "w = (w1, w2)" "rf h (fst p) = Some w1" "rg h (snd p) = Some w2" using split [OF rd] by blast
    obtain a h1 where a: "run_state (f (fst p)) h = (a, h1)" by force
    obtain b where b: "run_state (g (snd p)) h1 = (b, h')" "v' = (a, b)" using run a by (auto simp: pair_copy_def split: prod.splits)
    have a0: "run_state (f (fst p)) (h @ []) = (a, h1)" using a by simp
    obtain e where e: "h1 = h @ e" using F(3) [OF w(2) a0] by blast
    have h1: "rg h1 (snd p) = Some w2" unfolding e by (rule copier.extended(1) [OF assms(2) w(3)])
    have b0: "run_state (g (snd p)) (h1 @ []) = (b, h')" using b(1) by simp
    obtain e' where e': "h' = h1 @ e'" using G(3) [OF h1 b0] by blast
    have fa: "rf h' a = Some w1 \<and> af h' a \<subseteq> {length h..<length h'}" using F(1,2) [OF w(2) a0, of e'] e' by simp
    have gb: "rg h' b = Some w2 \<and> ag h' b \<subseteq> {length h1..<length h'}" using G(1,2) [OF h1 b0, of "[]"] by simp
    show ?thesis using fa gb e b(2) w(1) by (auto simp: pair_read_def pair_reach_def subset_iff)
  qed
  show ?thesis
  proof
    show "\<exists>ext. snd (run_state (pair_copy f g p) h) = h @ ext" for p h
    proof -
      obtain a h1 where a: "run_state (f (fst p)) h = (a, h1)" by force
      show ?thesis using copier.extends [OF assms(1), of "fst p" h] copier.extends [OF assms(2), of "snd p" h1] a
        by (auto simp: pair_copy_def split: prod.splits)
    qed
  next
    fix h h' p w assume rd: "pair_read rf rg h p = Some w"
      and same: "\<And>a. a \<in> pair_reach af ag h p \<Longrightarrow> a < length h' \<and> h' ! a = h ! a"
    obtain w1 w2 where w: "w = (w1, w2)" "rf h (fst p) = Some w1" "rg h (snd p) = Some w2" using split [OF rd] by blast
    show "pair_read rf rg h' p = Some w \<and> pair_reach af ag h' p = pair_reach af ag h p"
      using copier.confined [OF assms(1) w(2), of h'] copier.confined [OF assms(2) w(3), of h'] same w(1)
      by (simp add: pair_reach_def pair_read_def)
  next
    fix h p w assume "pair_read rf rg h p = Some w"
    then obtain w1 w2 where w: "rf h (fst p) = Some w1" "rg h (snd p) = Some w2" using split by blast
    show "pair_reach af ag h p \<subseteq> {..<length h}"
      using copier.bounded [OF assms(1) w(1)] copier.bounded [OF assms(2) w(2)] by (simp add: pair_reach_def)
  next
    fix p h v' h' w assume "pair_read rf rg h p = Some w" "run_state (pair_copy f g p) h = (v', h')"
    from both [OF this(2,1)] show "pair_read rf rg h' v' = Some w" "pair_reach af ag h' v' \<subseteq> {length h..<length h'}" by simp_all
  qed
qed

text \<open>A structure: \<open>parts\<close> are its fields with pointers, \<open>update\<close> puts other ones in their place, \<open>value\<close> makes the value of the
  structure from theirs and from its other fields.\<close>

lemma struct_copier:
  assumes "copier f rf af" "\<And>v p. parts (update v p) = p" "\<And>v p. val (update v p) = val v"
  shows "copier (\<lambda>v. do { p \<leftarrow> f (parts v); State_Monad.return (update v p) }) (\<lambda>h v. do { w \<leftarrow> rf h (parts v); Some (val v w) })
    (\<lambda>h v. af h (parts v))"
proof -
  have run: "\<exists>p. run_state (f (parts v)) h = (p, h') \<and> v' = update v p"
    if "run_state (do { p \<leftarrow> f (parts v); State_Monad.return (update v p) }) h = (v', h')" for v h v' h'
    using that by (auto split: prod.splits)
  have rd: "\<exists>u. rf h (parts v) = Some u \<and> w = val v u" if "do { w \<leftarrow> rf h (parts v); Some (val v w) } = Some w" for h v w
    using that by (auto split: bind_splits)
  show ?thesis
  proof
    show "\<exists>ext. snd (run_state (do { p \<leftarrow> f (parts v); State_Monad.return (update v p) }) h) = h @ ext" for v h
      using copier.extends [OF assms(1), of "parts v" h] by (auto split: prod.splits)
  next
    fix h v w v' h' assume "do { w \<leftarrow> rf h (parts v); Some (val v w) } = Some w"
      and "run_state (do { p \<leftarrow> f (parts v); State_Monad.return (update v p) }) h = (v', h')"
    then obtain u p where u: "rf h (parts v) = Some u" "w = val v u" "run_state (f (parts v)) h = (p, h')" "v' = update v p"
      using run rd by metis
    show "do { w \<leftarrow> rf h' (parts v'); Some (val v' w) } = Some w"
      using copier.copies [OF assms(1) u(1,3)] u(2,4) assms(2,3) by simp
    show "af h' (parts v') \<subseteq> {length h..<length h'}"
      using copier.fresh [OF assms(1) u(1,3)] u(4) assms(2) by simp
  next
    fix h v w h' assume "do { w \<leftarrow> rf h (parts v); Some (val v w) } = Some w"
      and same: "\<And>a. a \<in> af h (parts v) \<Longrightarrow> a < length h' \<and> h' ! a = h ! a"
    then obtain u where u: "rf h (parts v) = Some u" "w = val v u" using rd by metis
    show "do { w \<leftarrow> rf h' (parts v); Some (val v w) } = Some w \<and> af h' (parts v) = af h (parts v)"
      using copier.confined [OF assms(1) u(1), of h'] same u(2) by simp
  next
    fix h v w assume "do { w \<leftarrow> rf h (parts v); Some (val v w) } = Some w"
    then show "af h (parts v) \<subseteq> {..<length h}" using rd copier.bounded [OF assms(1)] by metis
  qed
qed

text \<open>A pointer: nil, or a new cell with a copy of what it points to.\<close>

definition ptr_copy :: "('v \<Rightarrow> 'x) \<Rightarrow> ('x \<Rightarrow> 'v option) \<Rightarrow> ('v \<Rightarrow> ('x heap, 'v) state) \<Rightarrow> addr option \<Rightarrow> ('x heap, addr option) state" where
  "ptr_copy mk prj into p =
     (case p of
        None \<Rightarrow> State_Monad.return None
      | Some a \<Rightarrow> do { v \<leftarrow> deref prj a; v' \<leftarrow> into v; b \<leftarrow> new (mk v'); State_Monad.return (Some b) })"

definition ptr_read :: "('x \<Rightarrow> 'v option) \<Rightarrow> ('x heap \<Rightarrow> 'v \<Rightarrow> 'w option) \<Rightarrow> 'x heap \<Rightarrow> addr option \<Rightarrow> 'w option option" where
  "ptr_read prj read h p =
     (case p of
        None \<Rightarrow> Some None
      | Some a \<Rightarrow> do { v \<leftarrow> load prj h a; w \<leftarrow> read h v; Some (Some w) })"

definition ptr_reach :: "('x \<Rightarrow> 'v option) \<Rightarrow> ('x heap \<Rightarrow> 'v \<Rightarrow> addr set) \<Rightarrow> 'x heap \<Rightarrow> addr option \<Rightarrow> addr set" where
  "ptr_reach prj reach h p =
     (case p of
        None \<Rightarrow> {}
      | Some a \<Rightarrow> insert a (case load prj h a of None \<Rightarrow> {} | Some v \<Rightarrow> reach h v))"

lemma ptr_copier:
  assumes "copier into read reach" "\<And>v. prj (mk v) = Some v"
  shows "copier (ptr_copy mk prj into) (ptr_read prj read) (ptr_reach prj reach)"
proof -
  have rd: "p = None \<and> w = None \<or> (\<exists>a v u. p = Some a \<and> load prj h a = Some v \<and> read h v = Some u \<and> w = Some u)"
    if "ptr_read prj read h p = Some w" for h p w
    using that by (cases p) (auto simp: ptr_read_def bind_eq_Some_conv)
  have both: "ptr_read prj read h' q = Some w \<and> ptr_reach prj reach h' q \<subseteq> {length h..<length h'}"
    if r: "ptr_read prj read h p = Some w" and run: "run_state (ptr_copy mk prj into p) h = (q, h')" for h p w q h'
  proof (cases p)
    case None
    with r run show ?thesis by (simp add: ptr_copy_def ptr_read_def ptr_reach_def)
  next
    case (Some a)
    then obtain v u where v: "load prj h a = Some v" "read h v = Some u" "w = Some u" using rd [OF r] by auto
    obtain v' h1 where v': "run_state (into v) h = (v', h1)" by force
    have q: "q = Some (length h1)" "h' = h1 @ [mk v']"
      using run Some v(1) v' by (auto simp: ptr_copy_def load_def split: if_splits)
    have "run_state (into v) (h @ []) = (v', h1)" using v' by simp
    note c = copier.copied_later [OF assms(1) v(2) this]
    have "load prj h' (length h1) = Some v'" by (simp add: q(2) load_def assms(2))
    with c(1,2) [of "[mk v']"] c(3) v(3) q show ?thesis by (auto simp: ptr_read_def ptr_reach_def)
  qed
  show ?thesis
  proof
    show "\<exists>ext. snd (run_state (ptr_copy mk prj into p) h) = h @ ext" for p h
    proof (cases p)
      case (Some a)
      obtain v h1 where "run_state (into (the (prj (h ! a)))) h = (v, h1)" by force
      with copier.extends [OF assms(1), of "the (prj (h ! a))" h] Some show ?thesis by (auto simp: ptr_copy_def)
    qed (simp add: ptr_copy_def)
  next
    fix h p w h' assume r: "ptr_read prj read h p = Some w"
      and same: "\<And>a. a \<in> ptr_reach prj reach h p \<Longrightarrow> a < length h' \<and> h' ! a = h ! a"
    show "ptr_read prj read h' p = Some w \<and> ptr_reach prj reach h' p = ptr_reach prj reach h p"
    proof (cases p)
      case (Some a)
      then obtain v u where v: "load prj h a = Some v" "read h v = Some u" "w = Some u" using rd [OF r] by auto
      have "load prj h' a = Some v" using v(1) same [of a] Some by (auto simp: load_def ptr_reach_def split: if_splits)
      with v Some same copier.confined [OF assms(1) v(2), of h'] show ?thesis by (simp add: ptr_read_def ptr_reach_def)
    qed (use r in \<open>simp_all add: ptr_read_def ptr_reach_def\<close>)
  next
    fix h p w assume r: "ptr_read prj read h p = Some w"
    show "ptr_reach prj reach h p \<subseteq> {..<length h}"
    proof (cases p)
      case (Some a)
      then obtain v u where v: "load prj h a = Some v" "read h v = Some u" using rd [OF r] by auto
      with Some copier.bounded [OF assms(1) v(2)] show ?thesis by (auto simp: ptr_reach_def load_def split: if_splits)
    qed (simp add: ptr_reach_def)
  next
    fix h p w q h' assume "ptr_read prj read h p = Some w" "run_state (ptr_copy mk prj into p) h = (q, h')"
    from both [OF this] show "ptr_read prj read h' q = Some w" "ptr_reach prj reach h' q \<subseteq> {length h..<length h'}" by simp_all
  qed
qed

text \<open>A slice: nil, or a new array with copies of its elements.\<close>

record slice =
  array :: addr
  offset :: nat
  len :: nat

definition elements :: "slice \<Rightarrow> 'e list \<Rightarrow> 'e list" where
  "elements sl xs = take (len sl) (drop (offset sl) xs)"

fun copy_list :: "('e \<Rightarrow> ('x heap, 'e) state) \<Rightarrow> 'e list \<Rightarrow> ('x heap, 'e list) state" where
  "copy_list into [] = State_Monad.return []"
| "copy_list into (x # xs) = do { y \<leftarrow> into x; ys \<leftarrow> copy_list into xs; State_Monad.return (y # ys) }"

definition list_read :: "('x heap \<Rightarrow> 'e \<Rightarrow> 'w option) \<Rightarrow> 'x heap \<Rightarrow> 'e list \<Rightarrow> 'w list option" where
  "list_read read h xs = those (map (read h) xs)"

definition list_reach :: "('x heap \<Rightarrow> 'e \<Rightarrow> addr set) \<Rightarrow> 'x heap \<Rightarrow> 'e list \<Rightarrow> addr set" where
  "list_reach reach h xs = \<Union> (reach h ` set xs)"

definition slice_copy :: "('e list \<Rightarrow> 'x) \<Rightarrow> ('x \<Rightarrow> 'e list option) \<Rightarrow> ('e \<Rightarrow> ('x heap, 'e) state) \<Rightarrow> slice option \<Rightarrow>
    ('x heap, slice option) state" where
  "slice_copy mk prj into s =
     (case s of
        None \<Rightarrow> State_Monad.return None
      | Some sl \<Rightarrow> do {
          xs \<leftarrow> deref prj (array sl);
          ys \<leftarrow> copy_list into (elements sl xs);
          b \<leftarrow> new (mk ys);
          State_Monad.return (Some \<lparr>array = b, offset = 0, len = len sl\<rparr>) })"

definition slice_elements :: "('x \<Rightarrow> 'e list option) \<Rightarrow> 'x heap \<Rightarrow> slice \<Rightarrow> 'e list option" where
  "slice_elements prj h sl =
     do { xs \<leftarrow> load prj h (array sl); if offset sl + len sl \<le> length xs then Some (elements sl xs) else None }"

definition slice_read :: "('x \<Rightarrow> 'e list option) \<Rightarrow> ('x heap \<Rightarrow> 'e \<Rightarrow> 'w option) \<Rightarrow> 'x heap \<Rightarrow> slice option \<Rightarrow> 'w list option option" where
  "slice_read prj read h s =
     (case s of
        None \<Rightarrow> Some None
      | Some sl \<Rightarrow> do { xs \<leftarrow> slice_elements prj h sl; ws \<leftarrow> list_read read h xs; Some (Some ws) })"

definition slice_reach :: "('x \<Rightarrow> 'e list option) \<Rightarrow> ('x heap \<Rightarrow> 'e \<Rightarrow> addr set) \<Rightarrow> 'x heap \<Rightarrow> slice option \<Rightarrow> addr set" where
  "slice_reach prj reach h s =
     (case s of
        None \<Rightarrow> {}
      | Some sl \<Rightarrow> insert (array sl) (case slice_elements prj h sl of None \<Rightarrow> {} | Some xs \<Rightarrow> list_reach reach h xs))"

lemma list_read_Cons: "list_read read h (x # xs) = pair_read read (list_read read) h (x, xs) \<bind> (\<lambda>(y, ys). Some (y # ys))"
  by (auto simp: list_read_def pair_read_def split: option.split bind_splits)

lemma list_read_length: "list_read read h xs = Some ws \<Longrightarrow> length ws = length xs"
  by (induction xs arbitrary: ws) (auto simp: list_read_def split: option.splits)

lemma list_copier:
  assumes "copier into read reach"
  shows "copier (copy_list into) (list_read read) (list_reach reach)"
proof -
  note c = copier.copied_later [OF assms] and x = copier.extended [OF assms]
  have rd: "\<exists>u us. read h y = Some u \<and> list_read read h ys = Some us \<and> w = u # us" if "list_read read h (y # ys) = Some w" for h y ys w
    using that by (auto simp: list_read_Cons pair_read_def bind_eq_Some_conv)
  have ext: "\<exists>ext. snd (run_state (copy_list into v) h) = h @ ext" for v h
  proof (induction v arbitrary: h)
    case (Cons y ys)
    obtain z h1 where "run_state (into y) h = (z, h1)" by force
    moreover obtain zs h2 where "run_state (copy_list into ys) h1 = (zs, h2)" by force
    ultimately show ?case using copier.extends [OF assms, of y h] Cons [of h1] by auto
  qed simp
  have both: "list_read read h' v' = Some w \<and> list_reach reach h' v' \<subseteq> {length h..<length h'} \<and> (\<exists>e. h' = h @ e)"
    if "list_read read h v = Some w" "run_state (copy_list into v) h = (v', h')" for v h w v' h'
    using that
  proof (induction v arbitrary: h w v' h')
    case (Cons y ys)
    obtain u us where u: "read h y = Some u" "list_read read h ys = Some us" "w = u # us" using rd [OF Cons.prems(1)] by blast
    obtain z h1 where z: "run_state (into y) h = (z, h1)" by force
    then have z0: "run_state (into y) (h @ []) = (z, h1)" by simp
    obtain zs where zs: "run_state (copy_list into ys) h1 = (zs, h')" "v' = z # zs"
      using Cons.prems(2) z by (auto split: prod.splits)
    obtain e where e: "h1 = h @ e" using c(3) [OF u(1) z0] by blast
    have "list_read read h1 ys = Some us"
      using u(2) unfolding e
    proof (induction ys arbitrary: us)
      case (Cons a as)
      obtain b bs where b: "read h a = Some b" "list_read read h as = Some bs" "us = b # bs" using rd [OF Cons.prems] by blast
      show ?case using x(1) [OF b(1), of e] Cons.IH [OF b(2)] b(3) by (simp add: list_read_Cons pair_read_def)
    qed (simp add: list_read_def)
    from Cons.IH [OF this zs(1)] obtain e' where
      ih: "list_read read h' zs = Some us" "list_reach reach h' zs \<subseteq> {length h1..<length h'}" "h' = h1 @ e'" by blast
    have z': "read h' z = Some u" "reach h' z \<subseteq> {length h..<length h'}" using c(1,2) [OF u(1) z0, of e'] ih(3) by simp_all
    have "list_read read h' v' = Some w" using z'(1) ih(1) u(3) zs(2) by (simp add: list_read_Cons pair_read_def)
    moreover have "list_reach reach h' zs \<subseteq> {length h..<length h'}" using ih(2) e by auto
    ultimately show ?case using z'(2) zs(2) ih(3) e by (simp add: list_reach_def)
  qed (auto simp: list_read_def list_reach_def)
  have bounded: "list_reach reach h v \<subseteq> {..<length h}" if "list_read read h v = Some w" for h v w
    using that
  proof (induction v arbitrary: w)
    case (Cons y ys)
    obtain u us where u: "read h y = Some u" "list_read read h ys = Some us" using rd [OF Cons.prems(1)] by blast
    have "reach h y \<subseteq> {..<length h}" using copier.bounded [OF assms u(1)] .
    with Cons.IH [OF u(2)] show ?case by (simp add: list_reach_def)
  qed (simp add: list_reach_def)
  have confined: "list_read read h' v = Some w \<and> list_reach reach h' v = list_reach reach h v"
    if "list_read read h v = Some w" "\<And>a. a \<in> list_reach reach h v \<Longrightarrow> a < length h' \<and> h' ! a = h ! a" for h v w h'
    using that
  proof (induction v arbitrary: w)
    case (Cons y ys)
    obtain u us where u: "read h y = Some u" "list_read read h ys = Some us" "w = u # us" using rd [OF Cons.prems(1)] by blast
    have y: "read h' y = Some u \<and> reach h' y = reach h y"
      by (rule copier.confined [OF assms u(1)]) (use Cons.prems(2) in \<open>simp add: list_reach_def\<close>)
    have "list_read read h' ys = Some us \<and> list_reach reach h' ys = list_reach reach h ys"
      by (rule Cons.IH [OF u(2)]) (use Cons.prems(2) in \<open>simp add: list_reach_def\<close>)
    with y u(3) show ?case by (simp add: list_reach_def list_read_Cons pair_read_def)
  qed (simp add: list_reach_def list_read_def)
  show ?thesis
  proof
    fix h v w v' h' assume "list_read read h v = Some w" "run_state (copy_list into v) h = (v', h')"
    from both [OF this] show "list_read read h' v' = Some w" "list_reach reach h' v' \<subseteq> {length h..<length h'}" by simp_all
  next
    fix h v w h' assume "list_read read h v = Some w" "\<And>a. a \<in> list_reach reach h v \<Longrightarrow> a < length h' \<and> h' ! a = h ! a"
    then show "list_read read h' v = Some w \<and> list_reach reach h' v = list_reach reach h v" by (rule confined)
  next
    fix h v w assume "list_read read h v = Some w"
    then show "list_reach reach h v \<subseteq> {..<length h}" by (rule bounded)
  qed (rule ext)
qed

lemma slice_copier:
  assumes "copier into read reach" "\<And>xs. prj (mk xs) = Some xs"
  shows "copier (slice_copy mk prj into) (slice_read prj read) (slice_reach prj reach)"
proof -
  have lists: "copier (copy_list into) (list_read read) (list_reach reach)" using assms(1) by (rule list_copier)
  have rd: "\<exists>xs us. slice_elements prj h sl = Some xs \<and> list_read read h xs = Some us \<and> w = Some us"
    if "slice_read prj read h (Some sl) = Some w" for h sl w
    using that by (auto simp: slice_read_def bind_eq_Some_conv)
  have el: "length xs = len sl" "array sl < length h" "elements sl (the (prj (h ! array sl))) = xs"
    if "slice_elements prj h sl = Some xs" for h sl xs
    using that by (auto simp: slice_elements_def elements_def load_def bind_eq_Some_conv split: if_splits)
  have both: "slice_read prj read h' t = Some w \<and> slice_reach prj reach h' t \<subseteq> {length h..<length h'}"
    if r: "slice_read prj read h s = Some w" and run: "run_state (slice_copy mk prj into s) h = (t, h')" for h s w t h'
  proof (cases s)
    case None
    with r run show ?thesis by (simp add: slice_copy_def slice_read_def slice_reach_def)
  next
    case (Some sl)
    then obtain xs us where x: "slice_elements prj h sl = Some xs" "list_read read h xs = Some us" "w = Some us" using r rd by blast
    obtain ys h1 where y: "run_state (copy_list into xs) h = (ys, h1)" by force
    have t: "t = Some \<lparr>array = length h1, offset = 0, len = len sl\<rparr>" "h' = h1 @ [mk ys]"
      using run Some el(3) [OF x(1)] y by (auto simp: slice_copy_def)
    have "run_state (copy_list into xs) (h @ []) = (ys, h1)" using y by simp
    note c = copier.copied_later [OF lists x(2) this]
    have "length ys = len sl" using list_read_length [OF c(1) [of "[]"]] list_read_length [OF x(2)] el(1) [OF x(1)] by simp
    then have e: "slice_elements prj h' \<lparr>array = length h1, offset = 0, len = len sl\<rparr> = Some ys"
      by (simp add: t(2) slice_elements_def elements_def load_def assms(2))
    have "list_read read h' ys = Some us" "list_reach reach h' ys \<subseteq> {length h..<length h'}" using c(1,2) [of "[mk ys]"] t(2) by simp_all
    moreover have "length h \<le> length h1" using c(3) by auto
    ultimately show ?thesis using e x(3) t by (simp add: slice_read_def slice_reach_def)
  qed
  show ?thesis
  proof
    show "\<exists>ext. snd (run_state (slice_copy mk prj into s) h) = h @ ext" for s h
    proof (cases s)
      case (Some sl)
      obtain ys h1 where y: "run_state (copy_list into (elements sl (the (prj (h ! array sl))))) h = (ys, h1)" by force
      with copier.extends [OF lists, of "elements sl (the (prj (h ! array sl)))" h] Some show ?thesis by (auto simp: slice_copy_def)
    qed (simp add: slice_copy_def)
  next
    fix h s w h' assume r: "slice_read prj read h s = Some w"
      and same: "\<And>a. a \<in> slice_reach prj reach h s \<Longrightarrow> a < length h' \<and> h' ! a = h ! a"
    show "slice_read prj read h' s = Some w \<and> slice_reach prj reach h' s = slice_reach prj reach h s"
    proof (cases s)
      case (Some sl)
      then obtain xs us where x: "slice_elements prj h sl = Some xs" "list_read read h xs = Some us" "w = Some us" using r rd by blast
      have sl: "array sl < length h' \<and> h' ! array sl = h ! array sl" using same Some by (simp add: slice_reach_def)
      then have "slice_elements prj h' sl = Some xs" using x(1) el(2) [OF x(1)] by (simp add: slice_elements_def load_def)
      moreover have "list_read read h' xs = Some us \<and> list_reach reach h' xs = list_reach reach h xs"
        by (rule copier.confined [OF lists x(2)]) (use same Some x(1) in \<open>simp add: slice_reach_def\<close>)
      ultimately show ?thesis using Some x by (simp add: slice_read_def slice_reach_def)
    qed (use r in \<open>simp_all add: slice_read_def slice_reach_def\<close>)
  next
    fix h s w assume r: "slice_read prj read h s = Some w"
    show "slice_reach prj reach h s \<subseteq> {..<length h}"
    proof (cases s)
      case (Some sl)
      then obtain xs us where x: "slice_elements prj h sl = Some xs" "list_read read h xs = Some us" using r rd by blast
      with el(2) [OF x(1)] copier.bounded [OF lists x(2)] Some show ?thesis by (simp add: slice_reach_def)
    qed (simp add: slice_reach_def)
  next
    fix h s w t h' assume "slice_read prj read h s = Some w" "run_state (slice_copy mk prj into s) h = (t, h')"
    from both [OF this] show "slice_read prj read h' t = Some w" "slice_reach prj reach h' t \<subseteq> {length h..<length h'}" by simp_all
  qed
qed

end
