(* ===== verification/Deep_Copy.thy ===== *)
theory Deep_Copy
  imports Go_Heap HTTPSO_Types
begin

text \<open>
  \<^verbatim>\<open>operator/apis/http/v1alpha1/zz_generated.deepcopy.go\<close>: the copies of the API types, on a heap with pointers. The records
  \<open>gReplicaStruct\<close> to \<open>gHTTPScaledObjectList\<close> are the structures as they lie in memory, with pointers and slices; the
  functions \<open>\<dots>_read\<close> give their values in the types of \<^verbatim>\<open>HTTPSO_Types\<close>. \<open>DeepCopyInto\<close> is the function from the receiver
  to what is written to \<open>*out\<close>, which starts as \<open>*in\<close>; a new cell is allocated with its final contents.

  The metadata of Kubernetes is a library: its structures are \<open>'m\<close> and \<open>'l\<close>, the cells of its own \<open>'c\<close>, and its
  \<open>DeepCopyInto\<close>, \<open>metaInto\<close> and \<open>listMetaInto\<close>, are arguments that the theorems assume to be copiers.
\<close>

section \<open>The API types in memory\<close>

record gReplicaStruct =
  gMin :: "addr option"
  gMax :: "addr option"

record gScalingMetricSpec =
  gConcurrency :: "addr option"
  gRate :: "addr option"

record gHTTPScaledObjectSpec =
  gHosts :: "slice option"
  gPathPrefixes :: "slice option"
  gScaleTargetRef :: ScaleTargetRef
  gColdStartTimeoutFailoverRef :: "addr option"
  gReplicas :: "addr option"
  gTargetPendingRequests :: "addr option"
  gCooldownPeriod :: "addr option"
  gInitialCooldownPeriod :: "addr option"
  gScalingMetric :: "addr option"
  gTimeouts :: "addr option"

record gHTTPScaledObjectStatus =
  gTargetWorkload :: string
  gTargetService :: string
  gConditions :: "slice option"

text \<open>A \<open>TypeMeta\<close> is its kind and API version.\<close>

record 'm gHTTPScaledObject =
  gTypeMeta :: "string \<times> string"
  gObjectMeta :: 'm
  gSpec :: gHTTPScaledObjectSpec
  gStatus :: gHTTPScaledObjectStatus

record 'l gHTTPScaledObjectList =
  gListTypeMeta :: "string \<times> string"
  gListMeta :: 'l
  gItems :: "slice option"

datatype ('m, 'l, 'c) cell =
    Int32Cell int32
  | StringsCell "string list"
  | ConditionCell HTTPScaledObjectCondition
  | ConditionsCell "HTTPScaledObjectCondition list"
  | FailoverCell ColdStartTimeoutFailoverRef
  | TargetCell ScaleTargetRef
  | ConcurrencyCell ConcurrencyMetricSpec
  | RateCell RateMetricSpec
  | TimeoutsCell HTTPScaledObjectTimeoutsSpec
  | ReplicasCell gReplicaStruct
  | MetricCell gScalingMetricSpec
  | SpecCell gHTTPScaledObjectSpec
  | StatusCell gHTTPScaledObjectStatus
  | ObjectCell "'m gHTTPScaledObject"
  | ItemsCell "'m gHTTPScaledObject list"
  | ListCell "'l gHTTPScaledObjectList"
  | MetaCell 'c

fun as_int32 :: "('m, 'l, 'c) cell \<Rightarrow> int32 option" where
  "as_int32 (Int32Cell x) = Some x"
| "as_int32 _ = None"

fun as_strings :: "('m, 'l, 'c) cell \<Rightarrow> (string list) option" where
  "as_strings (StringsCell x) = Some x"
| "as_strings _ = None"

fun as_condition :: "('m, 'l, 'c) cell \<Rightarrow> HTTPScaledObjectCondition option" where
  "as_condition (ConditionCell x) = Some x"
| "as_condition _ = None"

fun as_conditions :: "('m, 'l, 'c) cell \<Rightarrow> (HTTPScaledObjectCondition list) option" where
  "as_conditions (ConditionsCell x) = Some x"
| "as_conditions _ = None"

fun as_failover :: "('m, 'l, 'c) cell \<Rightarrow> ColdStartTimeoutFailoverRef option" where
  "as_failover (FailoverCell x) = Some x"
| "as_failover _ = None"

fun as_target :: "('m, 'l, 'c) cell \<Rightarrow> ScaleTargetRef option" where
  "as_target (TargetCell x) = Some x"
| "as_target _ = None"

fun as_concurrency :: "('m, 'l, 'c) cell \<Rightarrow> ConcurrencyMetricSpec option" where
  "as_concurrency (ConcurrencyCell x) = Some x"
| "as_concurrency _ = None"

fun as_rate :: "('m, 'l, 'c) cell \<Rightarrow> RateMetricSpec option" where
  "as_rate (RateCell x) = Some x"
| "as_rate _ = None"

fun as_timeouts :: "('m, 'l, 'c) cell \<Rightarrow> HTTPScaledObjectTimeoutsSpec option" where
  "as_timeouts (TimeoutsCell x) = Some x"
| "as_timeouts _ = None"

fun as_replicas :: "('m, 'l, 'c) cell \<Rightarrow> gReplicaStruct option" where
  "as_replicas (ReplicasCell x) = Some x"
| "as_replicas _ = None"

fun as_metric :: "('m, 'l, 'c) cell \<Rightarrow> gScalingMetricSpec option" where
  "as_metric (MetricCell x) = Some x"
| "as_metric _ = None"

fun as_spec :: "('m, 'l, 'c) cell \<Rightarrow> gHTTPScaledObjectSpec option" where
  "as_spec (SpecCell x) = Some x"
| "as_spec _ = None"

fun as_status :: "('m, 'l, 'c) cell \<Rightarrow> gHTTPScaledObjectStatus option" where
  "as_status (StatusCell x) = Some x"
| "as_status _ = None"

fun as_object :: "('m, 'l, 'c) cell \<Rightarrow> ('m gHTTPScaledObject) option" where
  "as_object (ObjectCell x) = Some x"
| "as_object _ = None"

fun as_items :: "('m, 'l, 'c) cell \<Rightarrow> ('m gHTTPScaledObject list) option" where
  "as_items (ItemsCell x) = Some x"
| "as_items _ = None"

fun as_list :: "('m, 'l, 'c) cell \<Rightarrow> ('l gHTTPScaledObjectList) option" where
  "as_list (ListCell x) = Some x"
| "as_list _ = None"

type_synonym ('m, 'l, 'c) memory = "('m, 'l, 'c) cell heap"

section \<open>The copies\<close>

text \<open>Types without pointers: \<open>DeepCopyInto\<close> is an assignment.\<close>

abbreviation assign :: "'v \<Rightarrow> ('x heap, 'v) state" where
  "assign \<equiv> State_Monad.return"

abbreviation flat_read :: "'x heap \<Rightarrow> 'v \<Rightarrow> 'v option" where
  "flat_read \<equiv> \<lambda>h v. Some v"

abbreviation flat_reach :: "'x heap \<Rightarrow> 'v \<Rightarrow> addr set" where
  "flat_reach \<equiv> \<lambda>h v. {}"

definition int32_DeepCopy :: "addr option \<Rightarrow> (('m, 'l, 'c) memory, addr option) state" where
  "int32_DeepCopy = ptr_copy Int32Cell as_int32 assign"

definition ColdStartTimeoutFailoverRef_DeepCopy :: "addr option \<Rightarrow> (('m, 'l, 'c) memory, addr option) state" where
  "ColdStartTimeoutFailoverRef_DeepCopy = ptr_copy FailoverCell as_failover assign"

definition ConcurrencyMetricSpec_DeepCopy :: "addr option \<Rightarrow> (('m, 'l, 'c) memory, addr option) state" where
  "ConcurrencyMetricSpec_DeepCopy = ptr_copy ConcurrencyCell as_concurrency assign"

definition HTTPScaledObjectCondition_DeepCopy :: "addr option \<Rightarrow> (('m, 'l, 'c) memory, addr option) state" where
  "HTTPScaledObjectCondition_DeepCopy = ptr_copy ConditionCell as_condition assign"

definition HTTPScaledObjectTimeoutsSpec_DeepCopyInto :: "HTTPScaledObjectTimeoutsSpec \<Rightarrow> (('m, 'l, 'c) memory, HTTPScaledObjectTimeoutsSpec) state" where
  "HTTPScaledObjectTimeoutsSpec_DeepCopyInto t = assign (t\<lparr>ConditionWait := ConditionWait t, ResponseHeader := ResponseHeader t\<rparr>)"

definition HTTPScaledObjectTimeoutsSpec_DeepCopy :: "addr option \<Rightarrow> (('m, 'l, 'c) memory, addr option) state" where
  "HTTPScaledObjectTimeoutsSpec_DeepCopy = ptr_copy TimeoutsCell as_timeouts HTTPScaledObjectTimeoutsSpec_DeepCopyInto"

definition RateMetricSpec_DeepCopyInto :: "RateMetricSpec \<Rightarrow> (('m, 'l, 'c) memory, RateMetricSpec) state" where
  "RateMetricSpec_DeepCopyInto r = assign (r\<lparr>Window := Window r, Granularity := Granularity r\<rparr>)"

definition RateMetricSpec_DeepCopy :: "addr option \<Rightarrow> (('m, 'l, 'c) memory, addr option) state" where
  "RateMetricSpec_DeepCopy = ptr_copy RateCell as_rate RateMetricSpec_DeepCopyInto"

definition ScaleTargetRef_DeepCopy :: "addr option \<Rightarrow> (('m, 'l, 'c) memory, addr option) state" where
  "ScaleTargetRef_DeepCopy = ptr_copy TargetCell as_target assign"

text \<open>Slices of values. \<open>DeepCopyInto\<close> of nil conditions, which nothing calls, makes an empty slice.\<close>

definition strings_copy :: "slice option \<Rightarrow> (('m, 'l, 'c) memory, slice option) state" where
  "strings_copy = slice_copy StringsCell as_strings assign"

definition Conditions_DeepCopyInto :: "slice option \<Rightarrow> (('m, 'l, 'c) memory, slice option) state" where
  "Conditions_DeepCopyInto s =
     (case s of
        None \<Rightarrow> do { b \<leftarrow> new (ConditionsCell []); assign (Some \<lparr>array = b, offset = 0, len = 0\<rparr>) }
      | Some sl \<Rightarrow> slice_copy ConditionsCell as_conditions assign (Some sl))"

definition Conditions_DeepCopy :: "slice option \<Rightarrow> (('m, 'l, 'c) memory, slice option) state" where
  "Conditions_DeepCopy s = (if s = None then assign None else Conditions_DeepCopyInto s)"

text \<open>Structures with pointers.\<close>

definition ReplicaStruct_DeepCopyInto :: "gReplicaStruct \<Rightarrow> (('m, 'l, 'c) memory, gReplicaStruct) state" where
  "ReplicaStruct_DeepCopyInto r = do {
     mn \<leftarrow> int32_DeepCopy (gMin r);
     mx \<leftarrow> int32_DeepCopy (gMax r);
     assign (r\<lparr>gMin := mn, gMax := mx\<rparr>) }"

definition ReplicaStruct_DeepCopy :: "addr option \<Rightarrow> (('m, 'l, 'c) memory, addr option) state" where
  "ReplicaStruct_DeepCopy = ptr_copy ReplicasCell as_replicas ReplicaStruct_DeepCopyInto"

text \<open>Here and in the specification the pointers to metrics and timeouts are copied by assignments of what they point to.\<close>

definition ScalingMetricSpec_DeepCopyInto :: "gScalingMetricSpec \<Rightarrow> (('m, 'l, 'c) memory, gScalingMetricSpec) state" where
  "ScalingMetricSpec_DeepCopyInto s = do {
     c \<leftarrow> ptr_copy ConcurrencyCell as_concurrency assign (gConcurrency s);
     r \<leftarrow> ptr_copy RateCell as_rate assign (gRate s);
     assign (s\<lparr>gConcurrency := c, gRate := r\<rparr>) }"

definition ScalingMetricSpec_DeepCopy :: "addr option \<Rightarrow> (('m, 'l, 'c) memory, addr option) state" where
  "ScalingMetricSpec_DeepCopy = ptr_copy MetricCell as_metric ScalingMetricSpec_DeepCopyInto"

definition HTTPScaledObjectSpec_DeepCopyInto :: "gHTTPScaledObjectSpec \<Rightarrow> (('m, 'l, 'c) memory, gHTTPScaledObjectSpec) state" where
  "HTTPScaledObjectSpec_DeepCopyInto s = do {
     hosts \<leftarrow> strings_copy (gHosts s);
     paths \<leftarrow> strings_copy (gPathPrefixes s);
     failover \<leftarrow> ptr_copy FailoverCell as_failover assign (gColdStartTimeoutFailoverRef s);
     replicas \<leftarrow> ptr_copy ReplicasCell as_replicas ReplicaStruct_DeepCopyInto (gReplicas s);
     target \<leftarrow> int32_DeepCopy (gTargetPendingRequests s);
     cooldown \<leftarrow> int32_DeepCopy (gCooldownPeriod s);
     initial \<leftarrow> int32_DeepCopy (gInitialCooldownPeriod s);
     metric \<leftarrow> ptr_copy MetricCell as_metric ScalingMetricSpec_DeepCopyInto (gScalingMetric s);
     timeouts \<leftarrow> ptr_copy TimeoutsCell as_timeouts assign (gTimeouts s);
     assign (s\<lparr>gHosts := hosts, gPathPrefixes := paths, gScaleTargetRef := gScaleTargetRef s, gColdStartTimeoutFailoverRef := failover,
       gReplicas := replicas, gTargetPendingRequests := target, gCooldownPeriod := cooldown, gInitialCooldownPeriod := initial,
       gScalingMetric := metric, gTimeouts := timeouts\<rparr>) }"

definition HTTPScaledObjectSpec_DeepCopy :: "addr option \<Rightarrow> (('m, 'l, 'c) memory, addr option) state" where
  "HTTPScaledObjectSpec_DeepCopy = ptr_copy SpecCell as_spec HTTPScaledObjectSpec_DeepCopyInto"

definition HTTPScaledObjectStatus_DeepCopyInto :: "gHTTPScaledObjectStatus \<Rightarrow> (('m, 'l, 'c) memory, gHTTPScaledObjectStatus) state" where
  "HTTPScaledObjectStatus_DeepCopyInto s = do {
     conditions \<leftarrow> slice_copy ConditionsCell as_conditions assign (gConditions s);
     assign (s\<lparr>gConditions := conditions\<rparr>) }"

definition HTTPScaledObjectStatus_DeepCopy :: "addr option \<Rightarrow> (('m, 'l, 'c) memory, addr option) state" where
  "HTTPScaledObjectStatus_DeepCopy = ptr_copy StatusCell as_status HTTPScaledObjectStatus_DeepCopyInto"

definition HTTPScaledObject_DeepCopyInto :: "('m \<Rightarrow> (('m, 'l, 'c) memory, 'm) state) \<Rightarrow> 'm gHTTPScaledObject \<Rightarrow>
    (('m, 'l, 'c) memory, 'm gHTTPScaledObject) state" where
  "HTTPScaledObject_DeepCopyInto metaInto x = do {
     m \<leftarrow> metaInto (gObjectMeta x);
     spec \<leftarrow> HTTPScaledObjectSpec_DeepCopyInto (gSpec x);
     status \<leftarrow> HTTPScaledObjectStatus_DeepCopyInto (gStatus x);
     assign (x\<lparr>gTypeMeta := gTypeMeta x, gObjectMeta := m, gSpec := spec, gStatus := status\<rparr>) }"

definition HTTPScaledObject_DeepCopy :: "('m \<Rightarrow> (('m, 'l, 'c) memory, 'm) state) \<Rightarrow> addr option \<Rightarrow> (('m, 'l, 'c) memory, addr option) state" where
  "HTTPScaledObject_DeepCopy metaInto = ptr_copy ObjectCell as_object (HTTPScaledObject_DeepCopyInto metaInto)"

definition HTTPScaledObject_DeepCopyObject :: "('m \<Rightarrow> (('m, 'l, 'c) memory, 'm) state) \<Rightarrow> addr option \<Rightarrow> (('m, 'l, 'c) memory, addr option) state" where
  "HTTPScaledObject_DeepCopyObject metaInto p = do {
     c \<leftarrow> HTTPScaledObject_DeepCopy metaInto p;
     if c \<noteq> None then assign c else assign None }"

definition HTTPScaledObjectList_DeepCopyInto :: "('m \<Rightarrow> (('m, 'l, 'c) memory, 'm) state) \<Rightarrow> ('l \<Rightarrow> (('m, 'l, 'c) memory, 'l) state) \<Rightarrow>
    'l gHTTPScaledObjectList \<Rightarrow> (('m, 'l, 'c) memory, 'l gHTTPScaledObjectList) state" where
  "HTTPScaledObjectList_DeepCopyInto metaInto listMetaInto x = do {
     m \<leftarrow> listMetaInto (gListMeta x);
     items \<leftarrow> slice_copy ItemsCell as_items (HTTPScaledObject_DeepCopyInto metaInto) (gItems x);
     assign (x\<lparr>gListTypeMeta := gListTypeMeta x, gListMeta := m, gItems := items\<rparr>) }"

definition HTTPScaledObjectList_DeepCopy :: "('m \<Rightarrow> (('m, 'l, 'c) memory, 'm) state) \<Rightarrow> ('l \<Rightarrow> (('m, 'l, 'c) memory, 'l) state) \<Rightarrow> addr option \<Rightarrow>
    (('m, 'l, 'c) memory, addr option) state" where
  "HTTPScaledObjectList_DeepCopy metaInto listMetaInto = ptr_copy ListCell as_list (HTTPScaledObjectList_DeepCopyInto metaInto listMetaInto)"

definition HTTPScaledObjectList_DeepCopyObject :: "('m \<Rightarrow> (('m, 'l, 'c) memory, 'm) state) \<Rightarrow> ('l \<Rightarrow> (('m, 'l, 'c) memory, 'l) state) \<Rightarrow> addr option \<Rightarrow>
    (('m, 'l, 'c) memory, addr option) state" where
  "HTTPScaledObjectList_DeepCopyObject metaInto listMetaInto p = do {
     c \<leftarrow> HTTPScaledObjectList_DeepCopy metaInto listMetaInto p;
     if c \<noteq> None then assign c else assign None }"

section \<open>The values of structures in memory\<close>

abbreviation int32_read :: "('m, 'l, 'c) memory \<Rightarrow> addr option \<Rightarrow> int32 option option" where
  "int32_read \<equiv> ptr_read as_int32 flat_read"

abbreviation int32_reach :: "('m, 'l, 'c) memory \<Rightarrow> addr option \<Rightarrow> addr set" where
  "int32_reach \<equiv> ptr_reach as_int32 flat_reach"

abbreviation strings_read :: "('m, 'l, 'c) memory \<Rightarrow> slice option \<Rightarrow> string list option option" where
  "strings_read \<equiv> slice_read as_strings flat_read"

abbreviation strings_reach :: "('m, 'l, 'c) memory \<Rightarrow> slice option \<Rightarrow> addr set" where
  "strings_reach \<equiv> slice_reach as_strings flat_reach"

definition replicas_read :: "('m, 'l, 'c) memory \<Rightarrow> gReplicaStruct \<Rightarrow> ReplicaStruct option" where
  "replicas_read h r = do { mn \<leftarrow> int32_read h (gMin r); mx \<leftarrow> int32_read h (gMax r); Some \<lparr>Min = mn, Max = mx\<rparr> }"

definition replicas_reach :: "('m, 'l, 'c) memory \<Rightarrow> gReplicaStruct \<Rightarrow> addr set" where
  "replicas_reach h r = int32_reach h (gMin r) \<union> int32_reach h (gMax r)"

definition metric_read :: "('m, 'l, 'c) memory \<Rightarrow> gScalingMetricSpec \<Rightarrow> ScalingMetricSpec option" where
  "metric_read h s = do {
     c \<leftarrow> ptr_read as_concurrency flat_read h (gConcurrency s);
     r \<leftarrow> ptr_read as_rate flat_read h (gRate s);
     Some \<lparr>ConcurrencyMetric = c, Rate = r\<rparr> }"

definition metric_reach :: "('m, 'l, 'c) memory \<Rightarrow> gScalingMetricSpec \<Rightarrow> addr set" where
  "metric_reach h s = ptr_reach as_concurrency flat_reach h (gConcurrency s) \<union> ptr_reach as_rate flat_reach h (gRate s)"

definition spec_read :: "('m, 'l, 'c) memory \<Rightarrow> gHTTPScaledObjectSpec \<Rightarrow> HTTPScaledObjectSpec option" where
  "spec_read h s = do {
     hosts \<leftarrow> strings_read h (gHosts s);
     paths \<leftarrow> strings_read h (gPathPrefixes s);
     failover \<leftarrow> ptr_read as_failover flat_read h (gColdStartTimeoutFailoverRef s);
     replicas \<leftarrow> ptr_read as_replicas replicas_read h (gReplicas s);
     target \<leftarrow> int32_read h (gTargetPendingRequests s);
     cooldown \<leftarrow> int32_read h (gCooldownPeriod s);
     initial \<leftarrow> int32_read h (gInitialCooldownPeriod s);
     metric \<leftarrow> ptr_read as_metric metric_read h (gScalingMetric s);
     timeouts \<leftarrow> ptr_read as_timeouts flat_read h (gTimeouts s);
     Some \<lparr>Hosts = hosts, PathPrefixes = paths, ScaleTarget = gScaleTargetRef s, ColdStartTimeoutFailover = failover, Replicas = replicas,
       TargetPendingRequests = target, CooldownPeriod = cooldown, InitialCooldownPeriod = initial, ScalingMetric = metric,
       Timeouts = timeouts\<rparr> }"

definition spec_reach :: "('m, 'l, 'c) memory \<Rightarrow> gHTTPScaledObjectSpec \<Rightarrow> addr set" where
  "spec_reach h s = strings_reach h (gHosts s) \<union> (strings_reach h (gPathPrefixes s) \<union>
     (ptr_reach as_failover flat_reach h (gColdStartTimeoutFailoverRef s) \<union> (ptr_reach as_replicas replicas_reach h (gReplicas s) \<union>
     (int32_reach h (gTargetPendingRequests s) \<union> (int32_reach h (gCooldownPeriod s) \<union> (int32_reach h (gInitialCooldownPeriod s) \<union>
     (ptr_reach as_metric metric_reach h (gScalingMetric s) \<union> ptr_reach as_timeouts flat_reach h (gTimeouts s))))))))"

definition status_read :: "('m, 'l, 'c) memory \<Rightarrow> gHTTPScaledObjectStatus \<Rightarrow> HTTPScaledObjectStatus option" where
  "status_read h s = do {
     conditions \<leftarrow> slice_read as_conditions flat_read h (gConditions s);
     Some \<lparr>TargetWorkload = gTargetWorkload s, TargetService = gTargetService s, StatusConditions = conditions\<rparr> }"

definition status_reach :: "('m, 'l, 'c) memory \<Rightarrow> gHTTPScaledObjectStatus \<Rightarrow> addr set" where
  "status_reach h s = slice_reach as_conditions flat_reach h (gConditions s)"

text \<open>The value of an object: its \<open>TypeMeta\<close>, the value of its metadata, its specification and its status.\<close>

record 'o object_value =
  ov_type :: "string \<times> string"
  ov_meta :: 'o
  ov_spec :: HTTPScaledObjectSpec
  ov_status :: HTTPScaledObjectStatus

definition object_read :: "(('m, 'l, 'c) memory \<Rightarrow> 'm \<Rightarrow> 'o option) \<Rightarrow> ('m, 'l, 'c) memory \<Rightarrow> 'm gHTTPScaledObject \<Rightarrow> 'o object_value option" where
  "object_read metaRead h x = do {
     m \<leftarrow> metaRead h (gObjectMeta x);
     spec \<leftarrow> spec_read h (gSpec x);
     status \<leftarrow> status_read h (gStatus x);
     Some \<lparr>ov_type = gTypeMeta x, ov_meta = m, ov_spec = spec, ov_status = status\<rparr> }"

definition object_reach :: "(('m, 'l, 'c) memory \<Rightarrow> 'm \<Rightarrow> addr set) \<Rightarrow> ('m, 'l, 'c) memory \<Rightarrow> 'm gHTTPScaledObject \<Rightarrow> addr set" where
  "object_reach metaReach h x = metaReach h (gObjectMeta x) \<union> (spec_reach h (gSpec x) \<union> status_reach h (gStatus x))"

definition list_object_read :: "(('m, 'l, 'c) memory \<Rightarrow> 'm \<Rightarrow> 'o option) \<Rightarrow> (('m, 'l, 'c) memory \<Rightarrow> 'l \<Rightarrow> 'p option) \<Rightarrow> ('m, 'l, 'c) memory \<Rightarrow>
    'l gHTTPScaledObjectList \<Rightarrow> ((string \<times> string) \<times> 'p \<times> 'o object_value list option) option" where
  "list_object_read metaRead listMetaRead h x = do {
     m \<leftarrow> listMetaRead h (gListMeta x);
     items \<leftarrow> slice_read as_items (object_read metaRead) h (gItems x);
     Some (gListTypeMeta x, m, items) }"

definition list_object_reach :: "(('m, 'l, 'c) memory \<Rightarrow> 'm \<Rightarrow> addr set) \<Rightarrow> (('m, 'l, 'c) memory \<Rightarrow> 'l \<Rightarrow> addr set) \<Rightarrow> ('m, 'l, 'c) memory \<Rightarrow>
    'l gHTTPScaledObjectList \<Rightarrow> addr set" where
  "list_object_reach metaReach listMetaReach h x =
     listMetaReach h (gListMeta x) \<union> slice_reach as_items (object_reach metaReach) h (gItems x)"

section \<open>The copies are copiers\<close>

interpretation int32: copier int32_DeepCopy int32_read int32_reach
  unfolding int32_DeepCopy_def by (rule ptr_copier [OF flat.copier_axioms]) simp

interpretation strings: copier strings_copy strings_read strings_reach
  unfolding strings_copy_def by (rule slice_copier [OF flat.copier_axioms]) simp

lemmas flat_ptr_copier = ptr_copier [OF flat.copier_axioms]

text \<open>A structure whose \<open>DeepCopyInto\<close> copies \<open>parts\<close> one after the other.\<close>

lemma struct_copierI:
  assumes "copier f rf af" "\<And>v p. parts (update v p) = p" "\<And>v p. val (update v p) = val v"
    "\<And>v. into v = do { p \<leftarrow> f (parts v); assign (update v p) }"
    "\<And>h v. read h v = do { w \<leftarrow> rf h (parts v); Some (val v w) }" "\<And>h v. reach h v = af h (parts v)"
  shows "copier into read reach"
proof -
  have "into = (\<lambda>v. do { p \<leftarrow> f (parts v); assign (update v p) })" "read = (\<lambda>h v. do { w \<leftarrow> rf h (parts v); Some (val v w) })"
    "reach = (\<lambda>h v. af h (parts v))"
    using assms(4-6) by (auto intro!: ext)
  with struct_copier [where parts = parts and update = update and val = val, OF assms(1-3)] show ?thesis by simp
qed

interpretation replicas: copier ReplicaStruct_DeepCopyInto replicas_read replicas_reach
  by (rule struct_copierI [OF pair_copier [OF int32.copier_axioms int32.copier_axioms], where parts = "\<lambda>r. (gMin r, gMax r)"
      and update = "\<lambda>r p. r\<lparr>gMin := fst p, gMax := snd p\<rparr>" and val = "\<lambda>r w. \<lparr>Min = fst w, Max = snd w\<rparr>"])
    (simp_all add: ReplicaStruct_DeepCopyInto_def replicas_read_def replicas_reach_def pair_copy_def pair_read_def pair_reach_def)

interpretation metric: copier ScalingMetricSpec_DeepCopyInto metric_read metric_reach
  by (rule struct_copierI [OF pair_copier [OF flat_ptr_copier flat_ptr_copier], where parts = "\<lambda>r. (gConcurrency r, gRate r)"
      and update = "\<lambda>r p. r\<lparr>gConcurrency := fst p, gRate := snd p\<rparr>" and val = "\<lambda>r w. \<lparr>ConcurrencyMetric = fst w, Rate = snd w\<rparr>"])
    (simp_all add: ScalingMetricSpec_DeepCopyInto_def metric_read_def metric_reach_def pair_copy_def pair_read_def pair_reach_def)

lemmas ptr_copiers = flat_ptr_copier ptr_copier [OF replicas.copier_axioms] ptr_copier [OF metric.copier_axioms]

text \<open>The nine fields of a specification that are pointers or slices, in the order in which they are copied.\<close>

abbreviation spec_parts :: "gHTTPScaledObjectSpec \<Rightarrow> slice option \<times> slice option \<times> addr option \<times> addr option \<times> addr option \<times> addr option \<times>
    addr option \<times> addr option \<times> addr option" where
  "spec_parts s \<equiv> (gHosts s, gPathPrefixes s, gColdStartTimeoutFailoverRef s, gReplicas s, gTargetPendingRequests s, gCooldownPeriod s,
     gInitialCooldownPeriod s, gScalingMetric s, gTimeouts s)"

abbreviation spec_update :: "gHTTPScaledObjectSpec \<Rightarrow> slice option \<times> slice option \<times> addr option \<times> addr option \<times> addr option \<times> addr option \<times>
    addr option \<times> addr option \<times> addr option \<Rightarrow> gHTTPScaledObjectSpec" where
  "spec_update s \<equiv> \<lambda>(hs, ps, f, r, t, c, i, m, tm). s\<lparr>gHosts := hs, gPathPrefixes := ps, gColdStartTimeoutFailoverRef := f, gReplicas := r,
     gTargetPendingRequests := t, gCooldownPeriod := c, gInitialCooldownPeriod := i, gScalingMetric := m, gTimeouts := tm\<rparr>"

lemmas spec_parts_copier =
  pair_copier [OF strings.copier_axioms pair_copier [OF strings.copier_axioms pair_copier [OF flat_ptr_copier
    pair_copier [OF ptr_copier [OF replicas.copier_axioms] pair_copier [OF int32.copier_axioms pair_copier [OF int32.copier_axioms
      pair_copier [OF int32.copier_axioms pair_copier [OF ptr_copier [OF metric.copier_axioms] flat_ptr_copier]]]]]]]]

interpretation spec: copier HTTPScaledObjectSpec_DeepCopyInto spec_read spec_reach
  by (rule struct_copierI [OF spec_parts_copier, where parts = spec_parts and update = spec_update
      and val = "\<lambda>s (hs, ps, f, r, t, c, i, m, tm). \<lparr>Hosts = hs, PathPrefixes = ps, ScaleTarget = gScaleTargetRef s,
        ColdStartTimeoutFailover = f, Replicas = r, TargetPendingRequests = t, CooldownPeriod = c, InitialCooldownPeriod = i,
        ScalingMetric = m, Timeouts = tm\<rparr>"])
    (simp_all add: HTTPScaledObjectSpec_DeepCopyInto_def spec_read_def spec_reach_def pair_copy_def pair_read_def pair_reach_def split_beta)

interpretation status: copier HTTPScaledObjectStatus_DeepCopyInto status_read status_reach
  by (rule struct_copierI [OF slice_copier [OF flat.copier_axioms], where parts = gConditions and update = "\<lambda>s c. s\<lparr>gConditions := c\<rparr>"
      and val = "\<lambda>s c. \<lparr>TargetWorkload = gTargetWorkload s, TargetService = gTargetService s, StatusConditions = c\<rparr>"])
    (simp_all add: HTTPScaledObjectStatus_DeepCopyInto_def status_read_def status_reach_def)

lemma object_copier:
  assumes "copier metaInto metaRead metaReach"
  shows "copier (HTTPScaledObject_DeepCopyInto metaInto) (object_read metaRead) (object_reach metaReach)"
  by (rule struct_copierI [OF pair_copier [OF assms pair_copier [OF spec.copier_axioms status.copier_axioms]],
      where parts = "\<lambda>x. (gObjectMeta x, gSpec x, gStatus x)"
      and update = "\<lambda>x (m, s, t). x\<lparr>gObjectMeta := m, gSpec := s, gStatus := t\<rparr>"
      and val = "\<lambda>x (m, s, t). \<lparr>ov_type = gTypeMeta x, ov_meta = m, ov_spec = s, ov_status = t\<rparr>"])
    (simp_all add: HTTPScaledObject_DeepCopyInto_def object_read_def object_reach_def pair_copy_def pair_read_def pair_reach_def split_beta)

lemma list_object_copier:
  assumes "copier metaInto metaRead metaReach" "copier listMetaInto listMetaRead listMetaReach"
  shows "copier (HTTPScaledObjectList_DeepCopyInto metaInto listMetaInto) (list_object_read metaRead listMetaRead)
    (list_object_reach metaReach listMetaReach)"
  by (rule struct_copierI [OF pair_copier [OF assms(2) slice_copier [OF object_copier [OF assms(1)]]],
      where parts = "\<lambda>x. (gListMeta x, gItems x)" and update = "\<lambda>x (m, is). x\<lparr>gListMeta := m, gItems := is\<rparr>"
      and val = "\<lambda>x (m, is). (gListTypeMeta x, m, is)"])
    (simp_all add: HTTPScaledObjectList_DeepCopyInto_def list_object_read_def list_object_reach_def pair_copy_def pair_read_def pair_reach_def
      split_beta)

text \<open>\<open>DeepCopyObject\<close> is \<open>DeepCopy\<close>, and \<open>DeepCopy\<close> of conditions is the copy that a status makes.\<close>

lemma DeepCopyObject_eq:
  "HTTPScaledObject_DeepCopyObject metaInto = HTTPScaledObject_DeepCopy metaInto"
  "HTTPScaledObjectList_DeepCopyObject metaInto listMetaInto = HTTPScaledObjectList_DeepCopy metaInto listMetaInto"
  "Conditions_DeepCopy = slice_copy ConditionsCell as_conditions assign"
proof -
  have same: "(\<lambda>c. if c \<noteq> None then assign c else assign None) = assign" by auto
  show "HTTPScaledObject_DeepCopyObject metaInto = HTTPScaledObject_DeepCopy metaInto"
    "HTTPScaledObjectList_DeepCopyObject metaInto listMetaInto = HTTPScaledObjectList_DeepCopy metaInto listMetaInto"
    by (simp_all add: fun_eq_iff HTTPScaledObject_DeepCopyObject_def HTTPScaledObjectList_DeepCopyObject_def same del: not_None_eq)
  show "Conditions_DeepCopy = slice_copy ConditionsCell as_conditions assign"
    by (rule ext) (simp add: Conditions_DeepCopy_def Conditions_DeepCopyInto_def slice_copy_def split: option.split)
qed

section \<open>Properties\<close>

text \<open>C16: a deep copy of an HTTPScaledObject is a value of its own. It has the value of the original, with everything that pointers
  and slices lead to; whatever is written afterwards to memory that existed before the copy, or that is allocated later,
  the copy keeps that value, and whatever is written through the copy, the original keeps it. So what
  the routing table remembers does not change with the objects it was given, nor do these change with it.\<close>

theorem DeepCopy_independent:
  assumes "copier metaInto metaRead metaReach"
    "ptr_read as_object (object_read metaRead) h p = Some (Some w)"
    "run_state (HTTPScaledObject_DeepCopy metaInto p) h = (q, h')"
  shows "ptr_read as_object (object_read metaRead) h' q = Some (Some w) \<and>
    (\<forall>ms. (\<forall>a x. Store a x \<in> set ms \<longrightarrow> a < length h \<or> length h' \<le> a) \<longrightarrow>
       ptr_read as_object (object_read metaRead) (mutate ms h') q = Some (Some w)) \<and>
    (\<forall>ms. (\<forall>a x. Store a x \<in> set ms \<longrightarrow> length h \<le> a) \<longrightarrow>
       ptr_read as_object (object_read metaRead) (mutate ms h') p = Some (Some w))"
proof -
  have "copier (ptr_copy ObjectCell as_object (HTTPScaledObject_DeepCopyInto metaInto)) (ptr_read as_object (object_read metaRead))
      (ptr_reach as_object (object_reach metaReach))"
    by (rule ptr_copier [OF object_copier [OF assms(1)]]) simp
  from copier.independent [OF this assms(2) assms(3) [unfolded HTTPScaledObject_DeepCopy_def]] show ?thesis by blast
qed

definition demo_memory :: "(string, unit, unit) memory" where
  "demo_memory =
     [StringsCell [''a.example'', ''b.example'', ''c.example''], Int32Cell 3, ReplicasCell \<lparr>gMin = Some 1, gMax = None\<rparr>,
      ObjectCell \<lparr>gTypeMeta = (''HTTPScaledObject'', ''http.keda.sh/v1alpha1''), gObjectMeta = ''app'',
        gSpec = \<lparr>gHosts = Some \<lparr>array = 0, offset = 1, len = 2\<rparr>, gPathPrefixes = None,
          gScaleTargetRef = \<lparr>Name = ''app'', APIVersion = [], Kind = [], Service = ''svc'', Port = 80, PortName = []\<rparr>,
          gColdStartTimeoutFailoverRef = None, gReplicas = Some 2, gTargetPendingRequests = None, gCooldownPeriod = None,
          gInitialCooldownPeriod = None, gScalingMetric = None, gTimeouts = None\<rparr>,
        gStatus = \<lparr>gTargetWorkload = [], gTargetService = [], gConditions = None\<rparr>\<rparr>]"

theorem DeepCopy_independent_witness:
  "case run_state (HTTPScaledObject_DeepCopy assign (Some 3)) demo_memory of (q, h') \<Rightarrow>
     map_option (map_option (\<lambda>w. (Hosts (ov_spec w), Replicas (ov_spec w))))
       (ptr_read as_object (object_read flat_read) (mutate [Store 0 (StringsCell []), Store 1 (Int32Cell 7)] h') q) =
     Some (Some (Some [''b.example'', ''c.example''], Some \<lparr>Min = Some 3, Max = None\<rparr>))"
proof -
  obtain q h' where run: "run_state (HTTPScaledObject_DeepCopy assign (Some 3)) demo_memory = (q, h')" by force
  obtain w where w: "ptr_read as_object (object_read flat_read) demo_memory (Some 3) = Some (Some w)"
    "Hosts (ov_spec w) = Some [''b.example'', ''c.example'']" "Replicas (ov_spec w) = Some \<lparr>Min = Some 3, Max = None\<rparr>"
    by (simp add: demo_memory_def ptr_read_def load_def object_read_def spec_read_def status_read_def slice_read_def slice_elements_def
        elements_def list_read_def replicas_read_def)
  have "ptr_read as_object (object_read flat_read) (mutate [Store 0 (StringsCell []), Store 1 (Int32Cell 7)] h') q = Some (Some w)"
    by (rule DeepCopy_independent [OF flat.copier_axioms w(1) run, THEN conjunct2, THEN conjunct1, rule_format]) (auto simp: demo_memory_def)
  with w run show ?thesis by simp
qed

end
