(* ===== verification/Clientset.thy ===== *)
theory Clientset
  imports Prelude
begin

text \<open>
  The generated clients, \<^verbatim>\<open>operator/generated/clientset/versioned\<close>, with the API group of
  \<^verbatim>\<open>operator/apis/http/v1alpha1/groupversion_info.go\<close>: how the set of clients is made from a REST configuration. The constructors of client-go are the
  fields of \<open>rest_lib\<close>. The code works on copies of the configuration, so the configuration of the caller is an argument that is
  never changed; a clientset may be a nil pointer, the value None.
\<close>

section \<open>The API group\<close>

record GroupVersion =
  gvGroup :: string
  gvVersion :: string

definition SchemeGroupVersion :: GroupVersion where
  "SchemeGroupVersion = \<lparr>gvGroup = ''http.keda.sh'', gvVersion = ''v1alpha1''\<rparr>"

definition Resource :: "string \<Rightarrow> string \<times> string" where
  "Resource resource = (gvGroup SchemeGroupVersion, resource)"

text \<open>A scheme is the list of the kinds it knows. Registering the types of a builder that are known already changes nothing.\<close>

type_synonym scheme = "(GroupVersion \<times> string) list"

definition registered_types :: "string list" where
  "registered_types = [''HTTPScaledObject'', ''HTTPScaledObjectList'']"

definition AddToScheme :: "scheme \<Rightarrow> scheme" where
  "AddToScheme s = fold (\<lambda>kind. List.insert (SchemeGroupVersion, kind)) registered_types s"

section \<open>The typed client\<close>

record ('l, 's) rest_config =
  rcUserAgent :: string
  QPS :: rat
  Burst :: go_int
  RateLimiter :: "'l option"
  rcGroupVersion :: "GroupVersion option"
  APIPath :: string
  NegotiatedSerializer :: "'s option"

record ('l, 's, 'h, 'r, 'd) rest_lib =
  DefaultKubernetesUserAgent :: string
  CodecFactoryForGeneratedClient :: 's
  HTTPClientFor :: "('l, 's) rest_config \<Rightarrow> 'h result"
  NewTokenBucketRateLimiter :: "rat \<Rightarrow> go_int \<Rightarrow> 'l"
  RESTClientForConfigAndClient :: "('l, 's) rest_config \<Rightarrow> 'h \<Rightarrow> 'r result"
  NewDiscoveryClientForConfigAndClient :: "('l, 's) rest_config \<Rightarrow> 'h \<Rightarrow> 'd result"
  NewDiscoveryClient :: "'r \<Rightarrow> 'd"

definition setConfigDefaults :: "('l, 's, 'h, 'r, 'd) rest_lib \<Rightarrow> ('l, 's) rest_config \<Rightarrow> ('l, 's) rest_config" where
  "setConfigDefaults lib config =
     (let config = config\<lparr>rcGroupVersion := Some SchemeGroupVersion, APIPath := ''/apis'',
            NegotiatedSerializer := Some (CodecFactoryForGeneratedClient lib)\<rparr>
      in if rcUserAgent config = [] then config\<lparr>rcUserAgent := DefaultKubernetesUserAgent lib\<rparr> else config)"

record 'r HttpV1alpha1Client =
  restClient :: 'r

definition typed_NewForConfigAndClient :: "('l, 's, 'h, 'r, 'd) rest_lib \<Rightarrow> ('l, 's) rest_config \<Rightarrow> 'h \<Rightarrow> 'r HttpV1alpha1Client result" where
  "typed_NewForConfigAndClient lib c h =
     (case RESTClientForConfigAndClient lib (setConfigDefaults lib c) h of Inl err \<Rightarrow> Inl err | Inr client \<Rightarrow> Inr \<lparr>restClient = client\<rparr>)"

definition typed_NewForConfig :: "('l, 's, 'h, 'r, 'd) rest_lib \<Rightarrow> ('l, 's) rest_config \<Rightarrow> 'r HttpV1alpha1Client result" where
  "typed_NewForConfig lib c =
     (let config = setConfigDefaults lib c
      in case HTTPClientFor lib config of Inl err \<Rightarrow> Inl err | Inr httpClient \<Rightarrow> typed_NewForConfigAndClient lib config httpClient)"

text \<open>The panic with an error is the left result.\<close>

definition typed_NewForConfigOrDie :: "('l, 's, 'h, 'r, 'd) rest_lib \<Rightarrow> ('l, 's) rest_config \<Rightarrow> go_error + 'r HttpV1alpha1Client" where
  "typed_NewForConfigOrDie lib c = (case typed_NewForConfig lib c of Inl err \<Rightarrow> Inl err | Inr client \<Rightarrow> Inr client)"

definition typed_New :: "'r \<Rightarrow> 'r HttpV1alpha1Client" where
  "typed_New c = \<lparr>restClient = c\<rparr>"

text \<open>A method of a client that is called on nil has the value None.\<close>

definition RESTClient :: "'r HttpV1alpha1Client option \<Rightarrow> 'r option" where
  "RESTClient c = map_option restClient c"

section \<open>The set of clients\<close>

record ('r, 'd) Clientset =
  DiscoveryClient :: 'd
  httpV1alpha1 :: "'r HttpV1alpha1Client"

definition errBurst :: go_error where
  "errBurst = ErrMsg ''burst is required to be greater than 0 when RateLimiter is not set and QPS is set to greater than 0''"

definition NewForConfigAndClient :: "('l, 's, 'h, 'r, 'd) rest_lib \<Rightarrow> ('l, 's) rest_config \<Rightarrow> 'h \<Rightarrow> ('r, 'd) Clientset result" where
  "NewForConfigAndClient lib c httpClient =
     (let limit = RateLimiter c = None \<and> 0 < QPS c
      in if limit \<and> Burst c \<le>s 0 then Inl errBurst
         else
           (let c = (if limit then c\<lparr>RateLimiter := Some (NewTokenBucketRateLimiter lib (QPS c) (Burst c))\<rparr> else c)
            in case typed_NewForConfigAndClient lib c httpClient of
                 Inl err \<Rightarrow> Inl err
               | Inr typed \<Rightarrow>
                   (case NewDiscoveryClientForConfigAndClient lib c httpClient of
                      Inl err \<Rightarrow> Inl err
                    | Inr disc \<Rightarrow> Inr \<lparr>DiscoveryClient = disc, httpV1alpha1 = typed\<rparr>)))"

definition NewForConfig :: "('l, 's, 'h, 'r, 'd) rest_lib \<Rightarrow> ('l, 's) rest_config \<Rightarrow> ('r, 'd) Clientset result" where
  "NewForConfig lib c =
     (let c = (if rcUserAgent c = [] then c\<lparr>rcUserAgent := DefaultKubernetesUserAgent lib\<rparr> else c)
      in case HTTPClientFor lib c of Inl err \<Rightarrow> Inl err | Inr httpClient \<Rightarrow> NewForConfigAndClient lib c httpClient)"

definition NewForConfigOrDie :: "('l, 's, 'h, 'r, 'd) rest_lib \<Rightarrow> ('l, 's) rest_config \<Rightarrow> go_error + ('r, 'd) Clientset" where
  "NewForConfigOrDie lib c = (case NewForConfig lib c of Inl err \<Rightarrow> Inl err | Inr cs \<Rightarrow> Inr cs)"

definition clientset_New :: "('l, 's, 'h, 'r, 'd) rest_lib \<Rightarrow> 'r \<Rightarrow> ('r, 'd) Clientset" where
  "clientset_New lib c = \<lparr>DiscoveryClient = NewDiscoveryClient lib c, httpV1alpha1 = typed_New c\<rparr>"

definition Discovery :: "('r, 'd) Clientset option \<Rightarrow> 'd option" where
  "Discovery c = map_option DiscoveryClient c"

section \<open>Properties\<close>

text \<open>The clients of a clientset share one HTTP client, one user agent and one rate limiter. A clientset is made exactly
  when the library makes its parts and there is no request rate without a burst; its clients limit their requests by the limiter
  of the configuration or, if there is none, by a token bucket of its rate and burst; and only the typed client is set up for the
  API group of HTTPScaledObjects.\<close>

theorem NewForConfig_clients:
  assumes "ua = (if rcUserAgent c = [] then DefaultKubernetesUserAgent lib else rcUserAgent c)" "ua \<noteq> []"
    and "limit = (if RateLimiter c = None \<and> 0 < QPS c then Some (NewTokenBucketRateLimiter lib (QPS c) (Burst c)) else RateLimiter c)"
  shows "NewForConfig lib c = Inr cs \<longleftrightarrow>
    (RateLimiter c = None \<and> 0 < QPS c \<longrightarrow> 0 <s Burst c) \<and>
    (\<exists>h. HTTPClientFor lib (c\<lparr>rcUserAgent := ua\<rparr>) = Inr h \<and>
      RESTClientForConfigAndClient lib (c\<lparr>rcUserAgent := ua, RateLimiter := limit, rcGroupVersion := Some SchemeGroupVersion, APIPath := ''/apis'',
        NegotiatedSerializer := Some (CodecFactoryForGeneratedClient lib)\<rparr>) h = Inr (restClient (httpV1alpha1 cs)) \<and>
      NewDiscoveryClientForConfigAndClient lib (c\<lparr>rcUserAgent := ua, RateLimiter := limit\<rparr>) h = Inr (DiscoveryClient cs))"
proof -
  have agent: "(if rcUserAgent c = [] then c\<lparr>rcUserAgent := DefaultKubernetesUserAgent lib\<rparr> else c) = c\<lparr>rcUserAgent := ua\<rparr>"
    using assms(1) by simp
  let ?c = "c\<lparr>rcUserAgent := ua\<rparr>"
  have limited: "(if RateLimiter ?c = None \<and> 0 < QPS ?c then ?c\<lparr>RateLimiter := Some (NewTokenBucketRateLimiter lib (QPS ?c) (Burst ?c))\<rparr> else ?c) =
      ?c\<lparr>RateLimiter := limit\<rparr>"
    using assms(3) by simp
  have defaults: "setConfigDefaults lib (?c\<lparr>RateLimiter := limit\<rparr>) = c\<lparr>rcUserAgent := ua, RateLimiter := limit,
      rcGroupVersion := Some SchemeGroupVersion, APIPath := ''/apis'', NegotiatedSerializer := Some (CodecFactoryForGeneratedClient lib)\<rparr>"
    using assms(2) by (simp add: setConfigDefaults_def)
  have burst: "\<not> Burst c \<le>s 0 \<longleftrightarrow> 0 <s Burst c" by (simp add: signed.not_le)
  show ?thesis
    unfolding NewForConfig_def agent Let_def NewForConfigAndClient_def limited typed_NewForConfigAndClient_def defaults
    using burst by (cases cs) (auto split: sum.splits)
qed

end
