(* ===== verification/Test_Doubles.thy ===== *)
theory Test_Doubles
  imports Interceptor
begin

text \<open>
  The doubles that stand for components in tests: the counter of \<^verbatim>\<open>pkg/queue/queue_fakes.go\<close>, the caches of
  \<^verbatim>\<open>pkg/k8s/endpoints_cache_fake.go\<close> and \<^verbatim>\<open>svc_cache.go\<close>, the endpoints of \<^verbatim>\<open>pkg/k8s/fake_endpoints.go\<close> and the
  routing table of \<^verbatim>\<open>pkg/routing/test\<close>. The theorems say when a double behaves like what it stands for.
\<close>

section \<open>The counter\<close>

text \<open>The channel and its time-out: \<open>received\<close> tells whether a test takes the notification in time.\<close>

record FakeCounter =
  RetMap :: "string \<rightharpoonup> Count"
  ResizeTimeout :: duration

definition NewFakeCounter :: FakeCounter where
  "NewFakeCounter = \<lparr>RetMap = Map.empty, ResizeTimeout = second\<rparr>"

definition fake_count :: "FakeCounter \<Rightarrow> string \<Rightarrow> Count" where
  "fake_count f host = (case RetMap f host of None \<Rightarrow> \<lparr>Concurrency = 0, RPS = 0\<rparr> | Some c \<Rightarrow> c)"

definition FakeCounter_Increase :: "FakeCounter \<Rightarrow> bool \<Rightarrow> string \<Rightarrow> go_int \<Rightarrow> FakeCounter \<times> go_error option" where
  "FakeCounter_Increase f received host i =
     (let count = fake_count f host;
          count = count\<lparr>Concurrency := Concurrency count + i\<rparr>;
          count = count\<lparr>RPS := f64_add (RPS count) (f64_of_int (sint i))\<rparr>
      in (f\<lparr>RetMap := (RetMap f)(host \<mapsto> count)\<rparr>,
          if received then None else Some (ErrMsg (''FakeCounter.Increase timeout after '' @ Duration_String (ResizeTimeout f)))))"

definition FakeCounter_Decrease :: "FakeCounter \<Rightarrow> bool \<Rightarrow> string \<Rightarrow> go_int \<Rightarrow> FakeCounter \<times> go_error option" where
  "FakeCounter_Decrease f received host i =
     (let count = fake_count f host;
          count = count\<lparr>Concurrency := Concurrency count - i\<rparr>
      in (f\<lparr>RetMap := (RetMap f)(host \<mapsto> count)\<rparr>,
          if received then None else Some (ErrMsg (''FakeCounter.Decrease timeout after '' @ Duration_String (ResizeTimeout f)))))"

definition FakeCounter_EnsureKey :: "FakeCounter \<Rightarrow> string \<Rightarrow> FakeCounter" where
  "FakeCounter_EnsureKey f host = f\<lparr>RetMap := (RetMap f)(host \<mapsto> \<lparr>Concurrency = 0, RPS = 0\<rparr>)\<rparr>"

definition FakeCounter_UpdateBuckets :: "FakeCounter \<Rightarrow> string \<Rightarrow> FakeCounter" where
  "FakeCounter_UpdateBuckets f host = f"

definition FakeCounter_RemoveKey :: "FakeCounter \<Rightarrow> string \<Rightarrow> FakeCounter \<times> bool" where
  "FakeCounter_RemoveKey f host = (f\<lparr>RetMap := (RetMap f)(host := None)\<rparr>, RetMap f host \<noteq> None)"

text \<open>\<open>Current\<close> hands out the map itself.\<close>

definition FakeCounter_Current :: "FakeCounter \<Rightarrow> string \<rightharpoonup> Count" where
  "FakeCounter_Current f = RetMap f"

record FakeCountReader =
  fcr_concurrency :: go_int
  fcr_rps :: f64
  fcr_err :: "go_error option"

definition FakeCountReader_Current :: "FakeCountReader \<Rightarrow> Counts \<times> go_error option" where
  "FakeCountReader_Current f = ([(''sample.com'', \<lparr>Concurrency = fcr_concurrency f, RPS = fcr_rps f\<rparr>)], fcr_err f)"

fun fake_op :: "FakeCounter \<Rightarrow> counter_op \<Rightarrow> FakeCounter" where
  "fake_op f (OpIncrease k d now) = fst (FakeCounter_Increase f True k d)"
| "fake_op f (OpDecrease k d) = fst (FakeCounter_Decrease f True k d)"
| "fake_op f (OpEnsure k w g) = FakeCounter_EnsureKey f k"
| "fake_op f (OpUpdate k w g) = FakeCounter_UpdateBuckets f k"
| "fake_op f (OpRemove k) = fst (FakeCounter_RemoveKey f k)"

text \<open>Where the double agrees with the counter: it forgets a count when its key is ensured again, makes no key when its buckets are
  updated, and does not stop at zero.\<close>

fun fake_faithful :: "counter_spec \<Rightarrow> counter_op \<Rightarrow> bool" where
  "fake_faithful m (OpIncrease k d now) \<longleftrightarrow> m k \<noteq> None"
| "fake_faithful m (OpDecrease k d) \<longleftrightarrow> (case m k of None \<Rightarrow> False | Some (c, _) \<Rightarrow> 0 \<le>s c - d)"
| "fake_faithful m (OpEnsure k w g) \<longleftrightarrow> (case m k of None \<Rightarrow> True | Some (c, _) \<Rightarrow> c = 0)"
| "fake_faithful m (OpUpdate k w g) \<longleftrightarrow> m k \<noteq> None"
| "fake_faithful m (OpRemove k) \<longleftrightarrow> True"

fun fake_run_faithful :: "counter_spec \<Rightarrow> counter_op list \<Rightarrow> bool" where
  "fake_run_faithful m [] \<longleftrightarrow> True"
| "fake_run_faithful m (x # xs) \<longleftrightarrow> fake_faithful m x \<and> fake_run_faithful (spec_op m x) xs"

section \<open>The caches\<close>

definition cache_key :: "string \<Rightarrow> string \<Rightarrow> string" where
  "cache_key ns nm = ns @ ''/'' @ nm"

text \<open>A service with its name and namespace.\<close>

record named_service =
  svcNamespace :: string
  svcName :: string
  svcPorts :: service

type_synonym FakeServiceCache = "string \<rightharpoonup> named_service"

definition FakeServiceCache_Get :: "FakeServiceCache \<Rightarrow> string \<Rightarrow> string \<Rightarrow> named_service result" where
  "FakeServiceCache_Get c ns nm = (case c (cache_key ns nm) of None \<Rightarrow> Inl (ErrMsg ''service not found'') | Some svc \<Rightarrow> Inr svc)"

definition FakeServiceCache_Add :: "FakeServiceCache \<Rightarrow> named_service \<Rightarrow> FakeServiceCache" where
  "FakeServiceCache_Add c svc = c(cache_key (svcNamespace svc) (svcName svc) \<mapsto> svc)"

record named_slice = EndpointSlice +
  EsGenerateName :: string

text \<open>A watcher is a number; \<open>nextWatcher\<close> is the next one.\<close>

record FakeEndpointsCache =
  fec_current :: "(string, named_slice) gomap"
  fec_watchers :: "string \<rightharpoonup> nat"
  nextWatcher :: nat

definition NewFakeEndpointsCache :: FakeEndpointsCache where
  "NewFakeEndpointsCache = \<lparr>fec_current = [], fec_watchers = Map.empty, nextWatcher = 0\<rparr>"

definition GetWatcher :: "FakeEndpointsCache \<Rightarrow> string \<Rightarrow> string \<Rightarrow> nat option" where
  "GetWatcher f ns nm = fec_watchers f (cache_key ns nm)"

text \<open>The map that is written as JSON.\<close>

definition FakeEndpointsCache_MarshalJSON :: "FakeEndpointsCache \<Rightarrow> (string, go_int) gomap" where
  "FakeEndpointsCache_MarshalJSON f =
     foldl (\<lambda>ret (nm, es). AList.update nm (foldl (\<lambda>total subset. total + of_nat (length (EpAddresses subset))) 0 (EsEndpoints es)) ret)
       [] (fec_current f)"

definition FakeEndpointsCache_Get :: "FakeEndpointsCache \<Rightarrow> string \<Rightarrow> string \<Rightarrow> named_slice result" where
  "FakeEndpointsCache_Get f ns nm =
     (case map_of (fec_current f) (cache_key ns nm) of
        Some es \<Rightarrow> Inr es
      | None \<Rightarrow> Inl (ErrMsg (''no endpoints '' @ nm @ '' found'')))"

definition FakeEndpointsCache_Set :: "FakeEndpointsCache \<Rightarrow> named_slice \<Rightarrow> FakeEndpointsCache" where
  "FakeEndpointsCache_Set f endp =
     f\<lparr>fec_current := AList.update (cache_key (EsNamespace endp) (EsGenerateName endp)) endp (fec_current f)\<rparr>"

definition SetWatcher :: "FakeEndpointsCache \<Rightarrow> string \<Rightarrow> string \<Rightarrow> FakeEndpointsCache \<times> nat" where
  "SetWatcher f ns nm =
     (let watcher = nextWatcher f
      in (f\<lparr>fec_watchers := (fec_watchers f)(cache_key ns nm \<mapsto> watcher), nextWatcher := Suc watcher\<rparr>, watcher))"

definition FakeEndpointsCache_Watch :: "FakeEndpointsCache \<Rightarrow> string \<Rightarrow> string \<Rightarrow> FakeEndpointsCache \<times> nat" where
  "FakeEndpointsCache_Watch f ns nm =
     (case fec_watchers f (cache_key ns nm) of
        Some watcher \<Rightarrow> (f, watcher)
      | None \<Rightarrow>
          (let watcher = nextWatcher f
           in (f\<lparr>fec_watchers := (fec_watchers f)(cache_key ns nm \<mapsto> watcher), nextWatcher := Suc watcher\<rparr>, watcher)))"

definition SetEndpoints :: "FakeEndpointsCache \<Rightarrow> string \<Rightarrow> string \<Rightarrow> go_int \<Rightarrow> FakeEndpointsCache \<times> go_error option" where
  "SetEndpoints f ns nm num =
     (case FakeEndpointsCache_Get f ns nm of
        Inl err \<Rightarrow> (f, Some (ErrMsg (''no endpoints '' @ nm @ '' found'')))
      | Inr endpointSlice \<Rightarrow>
          (let endpoint = \<lparr>EpReady = None, EpAddresses = [''1.2.3.4'']\<rparr>
           in (FakeEndpointsCache_Set f (endpointSlice\<lparr>EsEndpoints := EsEndpoints endpointSlice @ replicate (nat (sint num)) endpoint\<rparr>), None)))"

section \<open>The endpoints\<close>

text \<open>\<open>Hostname\<close> and \<open>Port\<close> of a URL: what is before and after the last colon, if only digits follow it; the
  brackets around an IPv6 address are dropped.\<close>

definition splitHostPort :: "string \<Rightarrow> string \<times> string" where
  "splitHostPort s =
     (let port = rev (takeWhile (\<lambda>c. c \<noteq> CHR '':'') (rev s));
          (host, port) = (if CHR '':'' \<in> set s \<and> list_all (\<lambda>c. digit_val c \<noteq> None) port then (cut_last CHR '':'' s, port) else (s, []));
          host = (if host \<noteq> [] \<and> hd host = CHR ''['' \<and> last host = CHR '']'' then butlast (tl host) else host)
      in (host, port))"

definition url_Hostname :: "URL \<Rightarrow> string" where
  "url_Hostname u = fst (splitHostPort (URLHost u))"

definition url_Port :: "URL \<Rightarrow> string" where
  "url_Port u = snd (splitHostPort (URLHost u))"

text \<open>The loop over the URLs; the ports of the slice are not read by the program.\<close>

fun fake_endpoints_loop :: "URL list \<Rightarrow> EndpointSlice \<Rightarrow> EndpointSlice result" where
  "fake_endpoints_loop [] es = Inr es"
| "fake_endpoints_loop (u # urls) es =
     (let es = es\<lparr>EsEndpoints := EsEndpoints es @ [\<lparr>EpReady = None, EpAddresses = [url_Hostname u]\<rparr>]\<rparr>
      in case Atoi (url_Port u) of Inl err \<Rightarrow> Inl err | Inr portInt \<Rightarrow> fake_endpoints_loop urls es)"

definition FakeEndpointsForURLs :: "URL list \<Rightarrow> string \<Rightarrow> string \<Rightarrow> EndpointSlice list result" where
  "FakeEndpointsForURLs urls namespace nm =
     map_sum id (\<lambda>es. [es])
       (fake_endpoints_loop urls \<lparr>EsNamespace = namespace, EsLabels = [labelServiceName \<mapsto> nm], EsEndpoints = []\<rparr>)"

text \<open>\<open>make\<close> panics on a negative length.\<close>

definition FakeEndpointsForURL :: "URL \<Rightarrow> string \<Rightarrow> string \<Rightarrow> go_int \<Rightarrow> fault + EndpointSlice list result" where
  "FakeEndpointsForURL u namespace nm num =
     (if num <s 0 then Inl MakeSliceLen else Inr (FakeEndpointsForURLs (replicate (nat (sint num)) u) namespace nm))"

section \<open>The routing table\<close>

type_synonym test_table = "string \<rightharpoonup> HTTPScaledObject"

definition test_Route :: "test_table \<Rightarrow> Request \<Rightarrow> HTTPScaledObject option" where
  "test_Route t req = t (ReqHost req)"

definition test_HealthCheck :: "test_table \<Rightarrow> go_error option" where
  "test_HealthCheck t = None"

section \<open>Properties\<close>

lemma fake_op_agrees:
  assumes "\<forall>k. map_option Concurrency (RetMap f k) = map_option fst (m k)" "fake_faithful m x"
  shows "\<forall>k. map_option Concurrency (RetMap (fake_op f x) k) = map_option fst (spec_op m x k)"
proof -
  have count: "Concurrency (fake_count f k) = fst cw" if "m k = Some cw" for k cw
    using assms(1) [rule_format, of k] that by (auto simp: fake_count_def split: option.splits)
  have clamp: "\<not> c - d <s 0" if "0 \<le>s c - d" for c d :: go_int using that by (simp add: signed.not_less)
  show ?thesis
    using assms count clamp
    by (cases x) (auto simp: FakeCounter_Increase_def FakeCounter_Decrease_def FakeCounter_EnsureKey_def FakeCounter_UpdateBuckets_def
        FakeCounter_RemoveKey_def Let_def split: option.splits)
qed

text \<open>The double of the counter agrees with the counter on faithful runs. After operations that increase only keys that are
  there, never decrease below zero, ensure a key only while it is absent or unused, and update only buckets that are there,
  it shows the same concurrencies as the specification that the counter refines.\<close>

theorem FakeCounter_agrees:
  assumes "fake_run_faithful Map.empty ops"
  shows "map_option Concurrency (FakeCounter_Current (foldl fake_op NewFakeCounter ops) k) = map_option fst (foldl spec_op Map.empty ops k)"
proof -
  have "\<forall>k. map_option Concurrency (RetMap (foldl fake_op f ops) k) = map_option fst (foldl spec_op m ops k)"
    if "\<forall>k. map_option Concurrency (RetMap f k) = map_option fst (m k)" "fake_run_faithful m ops" for f m
    using that by (induction ops arbitrary: f m) (auto dest: fake_op_agrees)
  from this [OF _ assms, of NewFakeCounter] show ?thesis by (simp add: FakeCounter_Current_def NewFakeCounter_def)
qed

theorem FakeCounter_agrees_witness:
  "map_option Concurrency (FakeCounter_Current (foldl fake_op NewFakeCounter
     [OpEnsure ''a'' minute second, OpIncrease ''a'' 3 0, OpDecrease ''a'' 1]) ''a'') = Some 2"
proof -
  have "fake_run_faithful Map.empty [OpEnsure ''a'' minute second, OpIncrease ''a'' 3 0, OpDecrease ''a'' 1]"
    by (simp add: word_sle_eq)
  from FakeCounter_agrees [OF this, of "''a''"] show ?thesis by (simp add: word_sless_alt)
qed

text \<open>Outside of such runs it does not: a key that is ensured while it is counted starts again from zero.\<close>

lemma FakeCounter_forgets:
  "map_option Concurrency (FakeCounter_Current (foldl fake_op NewFakeCounter
     [OpEnsure ''a'' w g, OpIncrease ''a'' 1 now, OpEnsure ''a'' w g]) ''a'') = Some 0"
  "map_option fst (foldl spec_op Map.empty [OpEnsure ''a'' w g, OpIncrease ''a'' 1 now, OpEnsure ''a'' w g] ''a'') = Some 1"
  by (simp_all add: FakeCounter_Increase_def FakeCounter_EnsureKey_def FakeCounter_Current_def NewFakeCounter_def fake_count_def)

text \<open>A service that was added is found, and no other lookup changes.\<close>

lemma FakeServiceCache_get_add:
  assumes "CHR ''/'' \<notin> set ns" "CHR ''/'' \<notin> set (svcNamespace svc)"
  shows "FakeServiceCache_Get (FakeServiceCache_Add c svc) ns nm =
    (if ns = svcNamespace svc \<and> nm = svcName svc then Inr svc else FakeServiceCache_Get c ns nm)"
proof -
  have "cache_key ns nm = cache_key (svcNamespace svc) (svcName svc) \<longleftrightarrow> ns = svcNamespace svc \<and> nm = svcName svc"
  proof
    assume e: "cache_key ns nm = cache_key (svcNamespace svc) (svcName svc)"
    have first: "takeWhile (\<lambda>c. c \<noteq> CHR ''/'') (cache_key a b) = a" if "CHR ''/'' \<notin> set a" for a b
      using that by (simp add: cache_key_def takeWhile_append)
    from first [OF assms(1), of nm] first [OF assms(2), of "svcName svc"] e have "ns = svcNamespace svc" by simp
    with e show "ns = svcNamespace svc \<and> nm = svcName svc" by (simp add: cache_key_def)
  qed simp
  then show ?thesis by (auto simp: FakeServiceCache_Get_def FakeServiceCache_Add_def)
qed

lemma active_append:
  "foldl (\<lambda>total e. if EpReady e = None \<or> EpReady e = Some True then total + int (length (EpAddresses e)) else total) n
     (replicate k \<lparr>EpReady = None, EpAddresses = [a]\<rparr>) = n + int k"
  by (induction k arbitrary: n) simp_all

text \<open>Setting endpoints in the double of the endpoints cache makes the workload active. After \<open>SetEndpoints\<close> a lookup finds the
  slice with as many more active endpoints as were asked for, and lookups of other services and the watchers
  are unchanged.\<close>

theorem SetEndpoints_active:
  assumes "FakeEndpointsCache_Get f (EsNamespace es) (EsGenerateName es) = Inr es" "0 \<le>s num"
  shows "\<exists>f' es'. SetEndpoints f (EsNamespace es) (EsGenerateName es) num = (f', None) \<and>
    FakeEndpointsCache_Get f' (EsNamespace es) (EsGenerateName es) = Inr es' \<and>
    workloadActiveEndpoints (EndpointSlice.truncate es') = workloadActiveEndpoints (EndpointSlice.truncate es) + sint num \<and>
    fec_watchers f' = fec_watchers f \<and>
    (\<forall>ns nm. cache_key ns nm \<noteq> cache_key (EsNamespace es) (EsGenerateName es) \<longrightarrow> FakeEndpointsCache_Get f' ns nm = FakeEndpointsCache_Get f ns nm)"
proof -
  let ?es = "es\<lparr>EsEndpoints := EsEndpoints es @ replicate (nat (sint num)) \<lparr>EpReady = None, EpAddresses = [''1.2.3.4'']\<rparr>\<rparr>"
  have "workloadActiveEndpoints (EndpointSlice.truncate ?es) = workloadActiveEndpoints (EndpointSlice.truncate es) + sint num"
    using assms(2) by (simp add: workloadActiveEndpoints_def EndpointSlice.truncate_def active_append word_sle_eq)
  then show ?thesis
    using assms(1) by (intro exI [of _ "FakeEndpointsCache_Set f ?es"] exI [of _ ?es])
      (simp add: SetEndpoints_def FakeEndpointsCache_Get_def FakeEndpointsCache_Set_def update_conv')
qed

lemma fake_endpoints_loop_all:
  "fake_endpoints_loop urls es = Inr es' \<Longrightarrow>
     es' = es\<lparr>EsEndpoints := EsEndpoints es @ map (\<lambda>u. \<lparr>EpReady = None, EpAddresses = [url_Hostname u]\<rparr>) urls\<rparr>"
proof (induction urls arbitrary: es)
  case (Cons u urls)
  let ?es = "es\<lparr>EsEndpoints := EsEndpoints es @ [\<lparr>EpReady = None, EpAddresses = [url_Hostname u]\<rparr>]\<rparr>"
  from Cons.prems have "fake_endpoints_loop urls ?es = Inr es'" by (auto simp: Let_def split: sum.splits)
  from Cons.IH [OF this] show ?case by simp
qed simp

text \<open>The fake endpoints of URLs are the endpoints of their hosts. When every URL has a port, the endpoints that are found for the service
  are exactly the hosts of the URLs, each once, however often it occurs.\<close>

theorem FakeEndpointsForURLs_hosts:
  assumes "FakeEndpointsForURLs urls ns nm = Inr ess" "\<And>xs. mset (ord xs) = mset xs"
  shows "\<exists>us. EndpointsForService ns nm port (EndpointsFuncForK8sClientset ord (\<lambda>_ _. Inr ess)) = Inr us \<and> distinct us \<and>
    URLHost ` set us = {url_Hostname u @ '':'' @ port | u. u \<in> set urls}"
proof -
  from assms(1) obtain es where es: "ess = [es]" "fake_endpoints_loop urls \<lparr>EsNamespace = ns, EsLabels = [labelServiceName \<mapsto> nm], EsEndpoints = []\<rparr> = Inr es"
    by (auto simp: FakeEndpointsForURLs_def map_sum_def split: sum.splits)
  from fake_endpoints_loop_all [OF es(2)]
  have "{addr @ '':'' @ port | addr. \<exists>s\<in>set ess. \<exists>e\<in>set (EsEndpoints s). EpReady e \<noteq> Some False \<and> addr \<in> set (EpAddresses e)} =
      {url_Hostname u @ '':'' @ port | u. u \<in> set urls}" by (auto simp: es(1))
  with EndpointsForService_ready [of ord "\<lambda>_ _. Inr ess" ns nm ess port, OF assms(2)] show ?thesis by auto
qed

end
