(* ===== verification/Spec2Isabelle.thy ===== *)
theory Spec2Isabelle
  imports Servers Scaler Operator_Proofs Lifecycle Informer_Factory Deep_Copy Clientset Test_Doubles
begin

text \<open>
  A verification of the KEDA HTTP Add-on, the part of the repository under \<^verbatim>\<open>src/\<close> that scales HTTP applications on
  Kubernetes by their traffic.

  \<^bold>\<open>The program.\<close> Three processes work together. The \<^emph>\<open>operator\<close> (\<^verbatim>\<open>operator/\<close>) watches
  HTTPScaledObjects and keeps a KEDA ScaledObject for each, whose trigger points to the scaler. The \<^emph>\<open>interceptor\<close>
  (\<^verbatim>\<open>interceptor/\<close>, \<^verbatim>\<open>pkg/routing\<close>, \<^verbatim>\<open>pkg/queue\<close>) is a proxy: it routes a request by host and path to
  the HTTPScaledObject that claims them, counts it while it is served, waits until the workload has an endpoint and forwards
  it. The \<^emph>\<open>scaler\<close> (\<^verbatim>\<open>scaler/\<close>) fetches the counts of all interceptors and answers KEDA over gRPC.

  \<^bold>\<open>The theories\<close>, in the order of the imports, with the files they model.

  \<^item> \<open>Prelude\<close>, \<open>Go_Float64\<close>, \<open>Go_Time\<close>, \<open>Go_Duration\<close>, \<open>Go_HTTP\<close>, \<open>Go_Heap\<close>: what the program uses of Go. An \<open>int\<close> is a 64-bit word, an
    \<open>int32\<close> a 32-bit word, a \<open>float64\<close> a rational with the rounding of IEEE 754; a panic is a value of \<open>fault\<close>, an error one of
    \<open>go_error\<close>; times are nanoseconds since year 1; durations are printed and parsed as \<open>time.Duration\<close> does; headers, URLs, requests
    and contexts are records; a heap is a list of cells with pointers and slices into it.
  \<^item> \<open>Buckets\<close> (\<^verbatim>\<open>pkg/queue/bucketing.go\<close>): the ring buffer \<open>RequestsBuckets\<close> with \<open>Record\<close> and \<open>WindowAverage\<close>.
    \<open>Buckets_Refine\<close> relates it to a list of what was recorded: it implements an abstract sliding window
    (\<open>Record_refines\<close>) and the average is that of the requests in the window (\<open>request_rate_correct\<close>). \<open>Buckets_Safe\<close> has the
    invariant under which nothing panics, and the granularities that do panic or drop requests.
  \<^item> \<open>Queue_Memory\<close> (\<^verbatim>\<open>pkg/queue/queue.go\<close>, \<^verbatim>\<open>queue_counts.go\<close>): the counter. The locale \<open>counter\<close> is its
    contract, interpreted as \<open>mem\<close>; \<open>Memory_refines_map\<close> is the refinement of a map from keys to concurrencies.
  \<^item> \<open>HTTPSO_Types\<close> (\<^verbatim>\<open>operator/apis/http/v1alpha1\<close>, \<^verbatim>\<open>pkg/k8s/namespacedname.go\<close>), \<open>Route_Key\<close>
    (\<^verbatim>\<open>pkg/routing/key.go\<close>), \<open>Radix_Tree\<close>, \<open>Table_Memory\<close> (\<^verbatim>\<open>pkg/routing/tablememory.go\<close>): the API types and the routing
    table. The radix tree is a library; its operations are a record, its laws the locale \<open>iradix\<close>, interpreted on a byte
    trie. Routing finds the oldest owner of the most specific claim.
  \<^item> \<open>Deep_Copy\<close> (\<^verbatim>\<open>zz_generated.deepcopy.go\<close>): the copies of the API types on the heap of \<open>Go_Heap\<close>, whose locale \<open>copier\<close> is
    interpreted on every copy of a field. A copy has the value of the original and shares no memory with it (\<open>DeepCopy_independent\<close>), which is
    why the other theories take API objects as values.
  \<^item> \<open>Util\<close> (\<^verbatim>\<open>pkg/util\<close>, \<^verbatim>\<open>pkg/env\<close>) and \<open>Route_Table\<close> (\<^verbatim>\<open>pkg/routing/table.go\<close>): the informer
    handlers and the refresher as a step relation \<open>table_step\<close>. No update is lost, and the refresher can always catch up.
  \<^item> \<open>Errgroup\<close>: a group of goroutines with a context as \<open>errgroup\<close> runs them. The locale \<open>heeding\<close> is the contract of goroutines that
    return when the context is done; it bounds the steps to the end of the group, and is interpreted on the goroutines of \<open>table.Start\<close> and
    of the processes.
  \<^item> \<open>Config\<close> (\<^verbatim>\<open>interceptor/config\<close>, \<^verbatim>\<open>pkg/net\<close>), \<open>TLS_Config\<close> (\<^verbatim>\<open>interceptor/main.go\<close>), \<open>Http_Server\<close>
    (\<^verbatim>\<open>pkg/http/server.go\<close>), \<open>Tracing\<close> (\<^verbatim>\<open>interceptor/tracing\<close>), \<open>K8s\<close> (\<^verbatim>\<open>pkg/k8s\<close>): timeouts and their validation,
    dialling with retries, the choice of certificates, the shutdown of a server, the set-up of tracing, endpoints and caches.
  \<^item> \<open>Interceptor\<close> (\<^verbatim>\<open>interceptor/handler\<close>, \<^verbatim>\<open>interceptor/middleware\<close>, \<^verbatim>\<open>proxy_handlers.go\<close>,
    \<^verbatim>\<open>forward_wait_func.go\<close>): the path of one request through routing, waiting and forwarding.
  \<^item> \<open>Counting\<close> and \<open>Interceptor_System\<close> (\<^verbatim>\<open>interceptor/middleware/counting.go\<close>): all requests at once. The relation
    \<open>sys_step\<close> interleaves the counting goroutine of every request with the informer handlers and the refresher;
    a panic anywhere ends the process. Its invariants bound the concurrency by the requests being served, and make it equal to
    them when nothing is deleted; a deletion can crash the process.
  \<^item> \<open>Proxy\<close> (\<^verbatim>\<open>interceptor/main.go\<close>, \<^verbatim>\<open>middleware/metrics.go\<close>, \<^verbatim>\<open>logging.go\<close>): the handlers put
    together as the proxy server does. They work on any response writer that meets the locale \<open>response_writer\<close>, so the wrappers
    of the middleware change nothing, and what is recorded and logged is what the client got (\<open>proxy_reports_response\<close>).
  \<^item> \<open>Metrics_Export\<close> (\<^verbatim>\<open>interceptor/metrics\<close>, \<^verbatim>\<open>pkg/build\<close>): the Prometheus and the OpenTelemetry collector. The locale \<open>meter\<close> is what they need
    of the instruments, interpreted on sums in a map. What is exported is the number of requests being served and of
    those that were answered with each status.
  \<^item> \<open>Servers\<close> (\<^verbatim>\<open>interceptor/main.go\<close>, \<^verbatim>\<open>handler/probe.go\<close>): the admin, metrics and proxy servers, the TLS configuration of the
    connections to the backends, and the goroutine of the probe beside \<open>sys_step\<close>: a ready interceptor stays ready.
  \<^item> \<open>Queue_RPC\<close> (\<^verbatim>\<open>pkg/queue/queue_rpc.go\<close>), \<open>Scaler_Fetch\<close>, \<open>Scaler_Naming\<close>, \<open>Scaler\<close> (\<^verbatim>\<open>scaler/\<close>): the
    counts as JSON and back, the concurrent fetch as a relation \<open>fetch_step\<close> with a bound on its steps, the pinger, metric names
    and the gRPC handlers.
  \<^item> \<open>Scaled_Object\<close> (\<^verbatim>\<open>pkg/k8s/scaledobject.go\<close>, \<^verbatim>\<open>operator/controllers/http/config\<close>), \<open>Operator\<close>
    (\<^verbatim>\<open>operator/controllers\<close>), \<open>Operator_Proofs\<close>: the reconciler on a \<open>cluster\<close>. The locales \<open>api_server\<close> and
    \<open>reachable_api_server\<close> are the contract of the API server, interpreted on one that keeps its objects in memory. A run without an error
    has installed the scaled object, a run against a reachable server converges and is idempotent, and the
    conditions keep their form.
  \<^item> \<open>Lifecycle\<close> (the three \<^verbatim>\<open>main.go\<close>): the processes from their configuration to their exit status. The goroutines of the interceptor and the scaler run as
    a group of \<open>Errgroup\<close>; they shut down, except where a server or a call that nothing ends keeps them, and the operator
    only asks for a manager with a valid leader election.
  \<^item> \<open>Informer_Factory\<close>, \<open>Clientset\<close> (\<^verbatim>\<open>operator/generated\<close>): the generated informers, shared by type, started once and stopped for good, and
    the generated clients, which share one rate limiter.
  \<^item> \<open>Test_Doubles\<close>: the doubles of the counter, the caches and the routing table that tests use, and where they agree with the originals.
  \<^item> This theory puts the three processes together: \<open>requests_drive_scaling\<close>.

  \<^bold>\<open>Parameters.\<close> Code that is not in the repository is an argument, with what is relied on as a hypothesis or the
  assumptions of a locale, and an instance that meets them: the radix tree, the text of a namespaced name (injective on
  valid names), \<open>url.Parse\<close>, the API server and its listers and informers, the scheme, the HTTP client and the upstream servers, the
  text of JSON values, certificates and files, the SDK of OpenTelemetry, the constructors of client-go. An iteration over a Go map is a list in
  any order.

  \<^bold>\<open>Bounds.\<close> No definition uses fuel: every loop is structural recursion over what it ranges over, or over the
  events it receives, where the end of the list means that it still runs. Bounds in statements are those of the machine: fewer
  than \<open>2\<^sup>6\<^sup>3\<close> requests, and clocks (\<open>clock_ok\<close>) at which the conversions between durations, seconds and indices do not overflow.
  The bounds on steps, 16 for the end of the interceptor, 9 and the pending calls for that of the scaler, count the calls that are left in the
  goroutines. Mutexes make each operation of the counter, the table, the pinger and the informer factory one step.

  \<^bold>\<open>Not modelled.\<close> Logging, except the log of the requests, and the spans of traces: they do not change what is computed. The streaming of bodies: a body is one
  string, and a connection that is taken over leaves the model. The generated operations of the typed client and the listers are instances of generic types of
  client-go, and the registration of types fills its scheme. Test servers, generated mocks and the drivers of the end-to-end tests are
  not part of the program.
\<close>

section \<open>From the requests to the metric\<close>

text \<open>The answer of the admin server of an interceptor, as the HTTP client of the scaler receives it.\<close>

definition admin_answers :: "(f64 \<Rightarrow> rat) \<Rightarrow> (json \<Rightarrow> string) \<Rightarrow> (string \<Rightarrow> json result) \<Rightarrow> (URL \<Rightarrow> (int \<times> string) result) \<Rightarrow>
    (string \<Rightarrow> instant) \<Rightarrow> URL \<Rightarrow> Memory \<Rightarrow> bool" where
  "admin_answers literal encode decode httpGet clk u m \<longleftrightarrow>
     (\<exists>w. AddCountsRoute literal encode (Current m clk) (u\<lparr>Path := countsPath\<rparr>) newResponse = Inr w \<and>
        httpGet (u\<lparr>Path := countsPath\<rparr>) = Inr (the (RespStatus w), RespBody w)) \<and>
     (\<forall>q. Current m clk = Inr (Inr q) \<longrightarrow> decode (encode (MarshalJSON literal q) @ [CHR 0x0A]) = Inr (MarshalJSON literal q))"

lemma interceptor_reports:
  assumes "(sys_step E str T n)\<^sup>*\<^sup>* sys_init s" "iradix T" "\<And>ev. E ev \<Longrightarrow> good_event ev \<and> keeps_keys ev"
    "length (gos s) < 2 ^ 63" "admin_answers literal encode decode httpGet clk u (qc s)" "\<forall>k. clock_ok (clk k)"
  shows "\<exists>q. GetCounts urlString decode httpGet u = Inr q \<and> distinct (map fst q) \<and>
    (\<forall>k. sint (host_concurrency q k) = in_flight (gos s) k)"
proof -
  have exact: "mem.exact (qc s) (in_flight (gos s))" using sys_exact_reachable [OF assms(1-4)] by (simp add: sys_exact_def)
  then have "memory_inv (qc s)" by (simp add: mem.exact_def)
  then obtain q rate where q: "Current (qc s) clk = Inr (Inr q)" "distinct (map fst q)"
    "map_of q = (\<lambda>k. map_option (\<lambda>c. \<lparr>Concurrency = c, RPS = rate k\<rparr>) (memory_conc (qc s) k))"
    using Current_spec [of "qc s" clk] assms(6) by blast
  from assms(5) q(1) obtain w where w: "AddCountsRoute literal encode (Inr (Inr q)) (u\<lparr>Path := countsPath\<rparr>) newResponse = Inr w"
    "httpGet (u\<lparr>Path := countsPath\<rparr>) = Inr (the (RespStatus w), RespBody w)"
    "decode (encode (MarshalJSON literal q) @ [CHR 0x0A]) = Inr (MarshalJSON literal q)"
    by (auto simp: admin_answers_def)
  obtain q' where q': "GetCounts urlString decode httpGet u = Inr q'" "map_of q' = map_option (reread literal) \<circ> map_of q"
    "distinct (map fst q')"
    using GetCounts_ok [of literal encode q u w httpGet decode urlString, OF w q(2)] by blast
  have "sint (host_concurrency q' k) = in_flight (gos s) k" for k
    using exact by (cases "memory_conc (qc s) k") (auto simp: host_concurrency_def q'(2) q(3) mem.exact_def)
  with q' show ?thesis by blast
qed

lemma sint_sum_words:
  assumes "\<And>x. x \<in> set xs \<Longrightarrow> sint (f x :: go_int) = g x" "0 \<le> (\<Sum>x\<leftarrow>xs. g x)" "(\<Sum>x\<leftarrow>xs. g x) < 2 ^ 63"
  shows "sint (\<Sum>x\<leftarrow>xs. f x) = (\<Sum>x\<leftarrow>xs. g x)"
proof -
  have "(\<Sum>x\<leftarrow>xs. sint (f x)) = (\<Sum>x\<leftarrow>xs. g x)" using assms(1) by (intro arg_cong [of _ _ sum_list] map_cong) simp_all
  then show ?thesis using wrap64_id [of "\<Sum>x\<leftarrow>xs. g x"] assms(2,3) by (simp add: sum_words wrap64_def)
qed

text \<open>What the scaler answers about an object that does not scale on its request rate.\<close>

lemma GetMetrics_concurrency:
  assumes "ScalerMetadata sor HTTPScaledObjectKey = Some (NName nn)" "SorNamespace sor = Namespace nn"
    "lister (Namespace nn) (NName nn) = Inr h" "\<not> (\<exists>m. ScalingMetric (Spec h) = Some m \<and> Rate m \<noteq> None)"
    "NName nn \<noteq> []" "Namespace nn \<noteq> []"
  shows "GetMetrics str lister q sor = Inr (Inr [(MetricName str (Some nn), host_concurrency (allCounts q) (str nn))])"
  using assms
  by (cases nn) (auto simp: GetMetrics_def NamespacedNameFromNameAndNamespace_def pinger_counts_def host_concurrency_def Let_def
      split: option.splits)

text \<open>The reference that KEDA has of an installed scaled object.\<close>

lemma installed_reference:
  assumes "api_server r" "keyed s" "cl_GetHTTPSO (Client r) nn s = Inr h" "GetDeletionTimestamp h = None" "\<not> skips h"
    "Reconcile r now nn s = Inr ((res, None), s')"
  shows "\<exists>so. SOs s' nn = Some so \<and> SoNamespace so = Namespace nn \<and>
    (\<exists>t. Triggers so = [t] \<and> TriggerMetadata t HTTPScaledObjectKey = Some (NName nn))"
proof -
  have h: "HSOs s nn = Some h" "name_of h = nn" using api_server.get_httpso [OF assms(1,3)] assms(2) by (auto simp: keyed_def)
  then show ?thesis
    using api_server.Reconcile_ok [OF assms(1,6) h assms(4,3,5)]
    by (auto simp: stored_so_def merge_patch_def wanted_so_def appScaledObject_def NewScaledObject_def Let_def split: option.split)
qed


text \<open>One interceptor that serves one request, for the witness.\<close>

lemma demo_interceptor:
  "\<exists>s q. (sys_step demo_events demo_str trie_ops 2)\<^sup>*\<^sup>* sys_init s \<and> length (gos s) < 2 ^ 63 \<and> in_flight (gos s) ''ns/a'' = 1 \<and>
    Current (qc s) (\<lambda>_. 2 * max_duration * max_duration) = Inr (Inr q) \<and> distinct (map fst q) \<and>
    (\<forall>k::string. clock_ok (2 * max_duration * max_duration))"
proof -
  obtain s where s: "(sys_step demo_events demo_str trie_ops 2)\<^sup>*\<^sup>* sys_init s" "length (gos s) = 1"
    "memory_conc (qc s) ''ns/a'' = Some 1"
    using demo_serving by blast
  have clock: "clock_ok (2 * max_duration * max_duration)"
    by (simp add: clock_ok_def year_def minute_def unix_offset_def nanosecond_per_second_def max_duration_def)
  have exact: "mem.exact (qc s) (in_flight (gos s))"
    using sys_exact_reachable [OF s(1) byte_trie.iradix_axioms] s(2) demo_good by (simp add: sys_exact_def)
  then have "memory_inv (qc s)" by (simp add: mem.exact_def)
  then obtain q where "Current (qc s) (\<lambda>_. 2 * max_duration * max_duration) = Inr (Inr q)" "distinct (map fst q)"
    using Current_spec [of "qc s" "\<lambda>_. 2 * max_duration * max_duration"] clock by blast
  moreover have "in_flight (gos s) ''ns/a'' = 1" using exact s(3) by (simp add: mem.exact_def)
  ultimately show ?thesis using s clock by (intro exI [of _ s] exI [of _ q]) simp
qed

lemma demo_fetch:
  assumes "getCounts u = Inr q" "distinct (map fst q)" "EndpointsForService ns svc port endpointsFn = Inr [u]"
  shows "\<exists>t. fetchCounts endpointsFn getCounts ns svc port (Inr t)"
proof -
  obtain k s where s: "(fetch_step (map Inr [q]) ^^ k) (fetch_init (length [q])) s" "\<nexists>s'. fetch_step (map Inr [q]) s s'"
    using fetch_ends [of "fetch_init (length [q])" "map Inr [q]"] by (auto simp: fetch_init_def)
  note reach = relpowp_imp_rtranclp [OF s(1)]
  have "fetch_inv (map Inr [q]) s" using fetch_inv_reachable [of "map Inr [q]" s] reach by simp
  then obtain r where r: "mainPc s = MRet r" using fetch_progress s(2) by blast
  then obtain t where "r = Inr t" using fetch_returned [OF reach _ _ r] assms(2) by auto
  with r reach show ?thesis by (intro exI [of _ t]) (auto simp: fetchCounts_def assms(1,3))
qed

lemma demo_app_simps [simp]:
  "GetNamespace demo_app = ''ns''" "GetName demo_app = ''a''" "GetDeletionTimestamp demo_app = None"
  "\<not> skips demo_app" "\<not> metric_conflict demo_app" "ScalingMetric (Spec demo_app) = None"
  by (simp_all add: demo_httpso_def plain_httpso_def plain_spec_def skips_def metric_conflict_def)


end
